(* ===== verification/Prelude.thy ===== *)
theory Prelude
  imports
    Main
    "HOL-Library.Word"
    "HOL-Library.AList"
    "HOL-Library.Multiset"
    "HOL-Library.Sublist"
begin

section \<open>Shared vocabulary of the UOS TV development\<close>

text \<open>
  What every component theory uses: the machine integers and byte strings of the Rust code,
  the outcome type for code that may return an error, panic or exhaust a fuel bound, the
  operations of the standard library's strings and hash maps that the sources call, and two
  interfaces (locales) that several components share: a state machine with an invariant and
  a keyed store.

  Rust's \<open>String\<close> is modelled as a HOL \<open>string\<close> whose characters are the bytes of its
  UTF-8 encoding, and \<open>Vec<u8>\<close> as a list of 8-bit words.
\<close>

type_synonym u8 = "8 word"
type_synonym u16 = "16 word"
type_synonym u32 = "32 word"
type_synonym u64 = "64 word"
type_synonym bytes = "8 word list"

named_theorems hashmap_simps \<open>rewrite rules for association lists read as hash maps\<close>
named_theorems string_defs \<open>definitions of the string operations, for evaluation\<close>

subsection \<open>Outcomes\<close>

text \<open>
  \<open>Result<A, E>\<close> is the sum \<open>'e + 'a\<close> with \<open>Inl\<close> for \<open>Err\<close>. Where the code can also
  panic (an index or an \<open>unwrap\<close>) or where a definition carries a fuel bound, the result is
  an \<open>outcome\<close>: \<open>Done\<close> is \<open>Ok\<close>, \<open>Fail\<close> is \<open>Err\<close>.
\<close>

datatype ('e, 'a) outcome = Done 'a | Fail 'e | Panic | NoFuel

primrec bind_outcome :: "('e, 'a) outcome \<Rightarrow> ('a \<Rightarrow> ('e, 'b) outcome) \<Rightarrow> ('e, 'b) outcome" where
  "bind_outcome (Done x) f = f x"
| "bind_outcome (Fail e) f = Fail e"
| "bind_outcome Panic f = Panic"
| "bind_outcome NoFuel f = NoFuel"

lemma bind_outcome_Done_iff:
  "bind_outcome m f = Done y \<longleftrightarrow> (\<exists>x. m = Done x \<and> f x = Done y)"
  by (cases m) auto

fun is_ok :: "'e + 'a \<Rightarrow> bool" where
  "is_ok (Inr _) = True"
| "is_ok (Inl _) = False"

subsection \<open>Strings\<close>

definition starts_with :: "string \<Rightarrow> string \<Rightarrow> bool" where
  "starts_with s p \<longleftrightarrow> take (length p) s = p"

definition ends_with :: "string \<Rightarrow> string \<Rightarrow> bool" where
  "ends_with s p \<longleftrightarrow> length p \<le> length s \<and> drop (length s - length p) s = p"

definition strip_prefix :: "string \<Rightarrow> string \<Rightarrow> string option" where
  "strip_prefix s p = (if starts_with s p then Some (drop (length p) s) else None)"

definition strip_suffix :: "string \<Rightarrow> string \<Rightarrow> string option" where
  "strip_suffix s p = (if ends_with s p then Some (take (length s - length p) s) else None)"

fun str_contains :: "string \<Rightarrow> string \<Rightarrow> bool" where
  "str_contains [] p = (p = [])"
| "str_contains (c # s) p = (starts_with (c # s) p \<or> str_contains s p)"

text \<open>\<open>split_on c s\<close> is \<open>s.split(c)\<close>: always at least one piece.\<close>

fun split_on :: "char \<Rightarrow> string \<Rightarrow> string list" where
  "split_on c [] = [[]]"
| "split_on c (x # s) =
     (if x = c then [] # split_on c s
      else (case split_on c s of [] \<Rightarrow> [[x]] | p # ps \<Rightarrow> (x # p) # ps))"

definition is_space :: "char \<Rightarrow> bool" where
  "is_space c \<longleftrightarrow> of_char c \<in> {9, 10, 11, 12, 13, 32 :: nat}"

definition trim :: "string \<Rightarrow> string" where
  "trim s = rev (dropWhile is_space (rev (dropWhile is_space s)))"

text \<open>
  \<open>str::lines\<close>: split after every newline, then drop the newline and a carriage return
  before it; text after the last newline is a line of its own when it is not empty.
\<close>

definition strip_cr :: "string \<Rightarrow> string" where
  "strip_cr l = (if l \<noteq> [] \<and> last l = CHR 0x0D then butlast l else l)"

definition str_lines :: "string \<Rightarrow> string list" where
  "str_lines s =
     (let ps = split_on CHR 0x0A s
      in map strip_cr (butlast ps) @ (if last ps = [] then [] else [last ps]))"

fun split_once :: "char \<Rightarrow> string \<Rightarrow> (string \<times> string) option" where
  "split_once c [] = None"
| "split_once c (x # s) =
     (if x = c then Some ([], s) else map_option (\<lambda>(a, b). (x # a, b)) (split_once c s))"

text \<open>Decimal notation, as \<open>{}\<close> prints an unsigned integer.\<close>

definition digit :: "nat \<Rightarrow> char" where
  "digit d = char_of (48 + d)"

fun show_nat :: "nat \<Rightarrow> string" where
  "show_nat n = (if n < 10 then [digit n] else show_nat (n div 10) @ [digit (n mod 10)])"

declare show_nat.simps [simp del]

text \<open>
  \<open>Path::extension\<close> of a file name: what follows the last dot, unless there is no dot, the
  only dot is the first character, or the name is two dots.
\<close>

definition path_extension :: "string \<Rightarrow> string option" where
  "path_extension n =
     (let ps = split_on CHR ''.'' n
      in if n = ''..'' \<or> length ps < 2 \<or> concat (butlast ps) = [] \<and> length ps = 2
         then None else Some (last ps))"

lemmas [string_defs] =
  starts_with_def ends_with_def strip_prefix_def strip_suffix_def is_space_def trim_def
  strip_cr_def str_lines_def path_extension_def

lemma starts_with_append [simp]: "starts_with (p @ s) p"
  by (simp add: starts_with_def)

lemma starts_with_iff: "starts_with s p \<longleftrightarrow> (\<exists>r. s = p @ r)"
  by (metis append_eq_conv_conj append_take_drop_id starts_with_def)

lemma ends_with_iff: "ends_with s p \<longleftrightarrow> (\<exists>r. s = r @ p)"
proof
  assume "ends_with s p"
  then have "s = take (length s - length p) s @ p"
    unfolding ends_with_def by (metis append_take_drop_id)
  then show "\<exists>r. s = r @ p" by blast
qed (auto simp: ends_with_def)

lemma strip_suffix_Some_iff: "strip_suffix s p = Some r \<longleftrightarrow> s = r @ p"
  by (auto simp: strip_suffix_def ends_with_iff)

lemma strip_prefix_Some_iff: "strip_prefix s p = Some r \<longleftrightarrow> s = p @ r"
  by (auto simp: strip_prefix_def starts_with_iff)

lemma strip_suffix_None_iff: "strip_suffix s p = None \<longleftrightarrow> \<not> (\<exists>r. s = r @ p)"
  by (auto simp: strip_suffix_def ends_with_iff)

lemma split_once_Some: "split_once c s = Some (a, b) \<Longrightarrow> s = a @ c # b \<and> c \<notin> set a"
  by (induction s arbitrary: a) (auto split: if_splits)

lemma split_once_None: "split_once c s = None \<longleftrightarrow> c \<notin> set s"
  by (induction s) auto

lemma split_on_not_Nil [simp]: "split_on c s \<noteq> []"
  by (induction s) (auto split: list.splits)

lemma split_on_no_sep: "c \<notin> set s \<Longrightarrow> split_on c s = [s]"
  by (induction s) auto

lemma split_on_Cons_sep: "c \<notin> set p \<Longrightarrow> split_on c (p @ c # s) = p # split_on c s"
  by (induction p) auto

lemma split_on_lines:
  "list_all (\<lambda>l. c \<notin> set l) ls \<Longrightarrow> split_on c (concat (map (\<lambda>l. l @ [c]) ls)) = ls @ [[]]"
  by (induction ls) (simp_all add: split_on_Cons_sep)

definition text_line :: "string \<Rightarrow> bool" where
  "text_line l \<longleftrightarrow> CHR 0x0A \<notin> set l \<and> (l = [] \<or> last l \<noteq> CHR 0x0D)"

lemma str_lines_of_lines:
  assumes "list_all text_line ls"
  shows "str_lines (concat (map (\<lambda>l. l @ [CHR 0x0A]) ls)) = ls"
proof -
  have "list_all (\<lambda>l. CHR 0x0A \<notin> set l) ls" "map strip_cr ls = ls"
    using assms by (auto simp: list_all_iff text_line_def strip_cr_def intro!: map_idI)
  then show ?thesis by (simp add: str_lines_def split_on_lines)
qed

text \<open>The bytes of a string and back (every byte is a character).\<close>

definition bytes_of :: "string \<Rightarrow> bytes" where
  "bytes_of s = map (\<lambda>c. of_nat (of_char c)) s"

definition string_of :: "bytes \<Rightarrow> string" where
  "string_of bs = map (\<lambda>b. char_of (unat b)) bs"

lemma string_of_bytes_of [simp]: "string_of (bytes_of s) = s"
proof -
  have "char_of (unat (of_nat (of_char c) :: u8)) = c" for c
  proof -
    have "(of_char c :: nat) < 256" by (rule nat_of_char_less_256)
    then have "unat (of_nat (of_char c) :: u8) = of_char c"
      by (simp add: unat_of_nat take_bit_nat_eq_self)
    then show ?thesis by simp
  qed
  then show ?thesis by (simp add: string_of_def bytes_of_def map_idI)
qed

lemma bytes_of_string_of [simp]: "bytes_of (string_of b) = b"
proof -
  have "of_nat (of_char (char_of (unat x))) = x" for x :: u8
    using unsigned_less [of x, where ?'a = nat] by (simp add: of_char_of)
  then show ?thesis by (simp add: string_of_def bytes_of_def map_idI)
qed

lemma length_bytes_of [simp]: "length (bytes_of s) = length s"
  by (simp add: bytes_of_def)

lemma bytes_of_inj: "bytes_of s = bytes_of t \<longleftrightarrow> s = t"
  by (metis string_of_bytes_of)

subsection \<open>Numbers in text\<close>

text \<open>
  \<open>str::parse\<close> for an unsigned integer below \<open>2 ^ w\<close>: an optional plus sign and at least one
  decimal digit, nothing else.
\<close>

definition is_digit :: "char \<Rightarrow> bool" where
  "is_digit c \<longleftrightarrow> 48 \<le> (of_char c :: nat) \<and> (of_char c :: nat) \<le> 57"

definition digit_value :: "char \<Rightarrow> nat" where
  "digit_value c = of_char c - 48"

definition decimal_value :: "string \<Rightarrow> nat" where
  "decimal_value s = foldl (\<lambda>n c. n * 10 + digit_value c) 0 s"

definition parse_unsigned :: "nat \<Rightarrow> string \<Rightarrow> nat option" where
  "parse_unsigned w s =
     (let ds = (if s \<noteq> [] \<and> hd s = CHR ''+'' then tl s else s)
      in if ds \<noteq> [] \<and> list_all is_digit ds \<and> decimal_value ds < 2 ^ w
         then Some (decimal_value ds) else None)"

lemma digit_facts: "d < 10 \<Longrightarrow> is_digit (digit d) \<and> digit_value (digit d) = d"
  by (simp add: is_digit_def digit_value_def digit_def of_char_of)

lemma show_nat_digits: "list_all is_digit (show_nat n) \<and> show_nat n \<noteq> []"
proof (induction n rule: show_nat.induct)
  case (1 n)
  then show ?case
    by (subst (1 2) show_nat.simps) (simp add: digit_facts)
qed

lemma decimal_value_show_nat: "decimal_value (show_nat n) = n"
proof (induction n rule: show_nat.induct)
  case (1 n)
  then show ?case
    by (subst show_nat.simps) (auto simp: decimal_value_def digit_facts)
qed

lemma digit_not_plus: "is_digit c \<Longrightarrow> c \<noteq> CHR ''+''"
  by (auto simp: is_digit_def)

lemma parse_show_nat: "n < 2 ^ w \<Longrightarrow> parse_unsigned w (show_nat n) = Some n"
proof -
  assume n: "n < 2 ^ w"
  have "hd (show_nat n) \<noteq> CHR ''+''"
    using show_nat_digits [of n] by (cases "show_nat n") (auto dest: digit_not_plus)
  with n show_nat_digits [of n] show ?thesis
    by (simp add: parse_unsigned_def decimal_value_show_nat)
qed

lemma parse_unsigned_less: "parse_unsigned w s = Some n \<Longrightarrow> n < 2 ^ w"
  by (auto simp: parse_unsigned_def Let_def split: if_splits)

subsection \<open>JSON values\<close>

text \<open>
  What the sources use of crate serde_json's \<open>Value\<close>: \<open>get\<close>, indexing (which answers null for
  an absent key), \<open>as_array\<close>, \<open>as_str\<close>, \<open>as_u64\<close>, \<open>as_bool\<close> and parsing bytes.
\<close>

record 'j json_api =
  j_get :: "'j \<Rightarrow> string \<Rightarrow> 'j option"
  j_index :: "'j \<Rightarrow> string \<Rightarrow> 'j"
  j_array :: "'j \<Rightarrow> 'j list option"
  j_str :: "'j \<Rightarrow> string option"
  j_u64 :: "'j \<Rightarrow> u64 option"
  j_bool :: "'j \<Rightarrow> bool option"
  j_parse :: "bytes \<Rightarrow> 'j option"

subsection \<open>Paths\<close>

text \<open>\<open>Path::join\<close> of a relative component, or of an absolute one, which replaces the path.\<close>

definition path_join :: "string \<Rightarrow> string \<Rightarrow> string" where
  "path_join a b =
     (if starts_with b ''/'' then b
      else if a = [] then b
      else if last a = CHR ''/'' then a @ b
      else a @ ''/'' @ b)"

text \<open>\<open>Path::parent\<close> of a path without \<open>.\<close> components: what comes before the last component.\<close>

definition trim_slashes :: "string \<Rightarrow> string" where
  "trim_slashes s = rev (dropWhile (\<lambda>c. c = CHR ''/'') (rev s))"

definition path_parent :: "string \<Rightarrow> string option" where
  "path_parent p =
     (let q = trim_slashes p; front = rev (dropWhile (\<lambda>c. c \<noteq> CHR ''/'') (rev q))
      in if q = [] then None
         else if front = [] then Some []
         else if trim_slashes front = [] then Some ''/''
         else Some (trim_slashes front))"

lemma path_parent_examples:
  "path_parent ''/run/uos/bus.sock'' = Some ''/run/uos''" "path_parent ''/a'' = Some ''/''"
  "path_parent ''a'' = Some []" "path_parent ''/'' = None" "path_parent ''a//b/'' = Some ''a''"
  by code_simp+

subsection \<open>Hash maps and hash sets\<close>

text \<open>
  \<open>HashMap<K, V>\<close> is an association list with distinct keys, \<open>HashSet<K>\<close> a list without
  duplicates. The standard library iterates over them in an unspecified order: wherever the
  code iterates, the model takes the order as a parameter, a function that rearranges the
  list of keys. The one fact about it, \<open>fair_order\<close>, is the documented one: every key is
  visited once. Theorems that mention an order hold for every fair one.
\<close>

type_synonym ('k, 'v) hashmap = "('k \<times> 'v) list"

definition fair_order :: "('k list \<Rightarrow> 'k list) \<Rightarrow> bool" where
  "fair_order f \<longleftrightarrow> (\<forall>xs. mset (f xs) = mset xs)"

definition keys :: "('k, 'v) hashmap \<Rightarrow> 'k list" where
  "keys m = map fst m"

definition iter_entries :: "('k list \<Rightarrow> 'k list) \<Rightarrow> ('k, 'v) hashmap \<Rightarrow> ('k \<times> 'v) list" where
  "iter_entries f m = map (\<lambda>k. (k, the (map_of m k))) (f (keys m))"

definition entry_or_default :: "'k \<Rightarrow> 'v \<Rightarrow> ('k, 'v) hashmap \<Rightarrow> ('k, 'v) hashmap" where
  "entry_or_default k d m = (case map_of m k of None \<Rightarrow> AList.update k d m | Some _ \<Rightarrow> m)"

definition entry_insert :: "'k \<Rightarrow> 'a \<Rightarrow> ('k, 'a list) hashmap \<Rightarrow> ('k, 'a list) hashmap" where
  "entry_insert k x m =
     AList.update k (List.insert x (case map_of m k of None \<Rightarrow> [] | Some xs \<Rightarrow> xs)) m"

definition hashmap_ok :: "('k, 'v) hashmap \<Rightarrow> bool" where
  "hashmap_ok m \<longleftrightarrow> distinct (keys m)"

lemma fair_order_set [simp]: "fair_order f \<Longrightarrow> set (f xs) = set xs"
  unfolding fair_order_def by (metis set_mset_mset)

lemma fair_order_distinct [simp]: "fair_order f \<Longrightarrow> distinct (f xs) \<longleftrightarrow> distinct xs"
  unfolding fair_order_def by (metis mset_eq_imp_distinct_iff)

lemma fair_order_length [simp]: "fair_order f \<Longrightarrow> length (f xs) = length xs"
  unfolding fair_order_def by (metis size_mset)

lemma fair_order_mset: "fair_order f \<Longrightarrow> mset (f xs) = mset xs"
  by (simp add: fair_order_def)

lemma fair_order_id [simp, intro]: "fair_order id" "fair_order (\<lambda>x. x)"
  by (simp_all add: fair_order_def)

lemma fair_order_rev [simp, intro]: "fair_order rev"
  by (simp add: fair_order_def)

lemma map_of_update [hashmap_simps]: "map_of (AList.update k v m) = (map_of m)(k \<mapsto> v)"
  by (rule update_conv')

lemma map_of_delete [hashmap_simps]: "map_of (AList.delete k m) = (map_of m)(k := None)"
  by (rule delete_conv')

lemma map_of_entry_or_default [hashmap_simps]:
  "map_of (entry_or_default k d m) =
     (map_of m)(k \<mapsto> (case map_of m k of None \<Rightarrow> d | Some v \<Rightarrow> v))"
  by (auto simp: entry_or_default_def map_of_update split: option.splits)

lemma map_of_entry_insert [hashmap_simps]:
  "map_of (entry_insert k x m) =
     (map_of m)(k \<mapsto> List.insert x (case map_of m k of None \<Rightarrow> [] | Some xs \<Rightarrow> xs))"
  by (simp add: entry_insert_def map_of_update)

lemma set_keys: "set (keys m) = dom (map_of m)"
  by (simp add: keys_def dom_map_of_conv_image_fst)

lemma keys_update: "set (keys (AList.update k v m)) = insert k (set (keys m))"
  by (simp add: set_keys map_of_update)

lemma hashmap_ok_Nil [simp]: "hashmap_ok []"
  by (simp add: hashmap_ok_def keys_def)

lemma hashmap_ok_update [simp]: "hashmap_ok m \<Longrightarrow> hashmap_ok (AList.update k v m)"
  by (simp add: hashmap_ok_def keys_def distinct_update)

lemma hashmap_ok_delete [simp]: "hashmap_ok m \<Longrightarrow> hashmap_ok (AList.delete k m)"
  by (simp add: hashmap_ok_def keys_def distinct_delete)

lemma hashmap_ok_entry_or_default [simp]: "hashmap_ok m \<Longrightarrow> hashmap_ok (entry_or_default k d m)"
  by (simp add: entry_or_default_def split: option.splits)

lemma hashmap_ok_entry_insert [simp]: "hashmap_ok m \<Longrightarrow> hashmap_ok (entry_insert k x m)"
  by (simp add: entry_insert_def)

lemma hashmap_ok_filter [simp]: "hashmap_ok m \<Longrightarrow> hashmap_ok (filter P m)"
  by (simp add: hashmap_ok_def keys_def distinct_map_filter)

lemma hashmap_ok_map_snd [simp]:
  "hashmap_ok (map (\<lambda>(k, v). (k, f v)) m) \<longleftrightarrow> hashmap_ok m"
  by (simp add: hashmap_ok_def keys_def case_prod_beta comp_def)

lemma map_of_filter_key: "map_of (filter (\<lambda>(k, v). P k) m) k = (if P k then map_of m k else None)"
  by (induction m) auto

lemma hashmap_map_of_Some: "hashmap_ok m \<Longrightarrow> map_of m k = Some v \<longleftrightarrow> (k, v) \<in> set m"
  by (simp add: hashmap_ok_def keys_def map_of_eq_Some_iff)

lemma set_iter_entries:
  "fair_order f \<Longrightarrow> hashmap_ok m \<Longrightarrow> set (iter_entries f m) = set m"
  by (force simp: iter_entries_def keys_def hashmap_ok_def image_iff)

lemma mset_iter_entries:
  assumes "fair_order f" "hashmap_ok m"
  shows "mset (iter_entries f m) = mset m"
proof -
  have "mset (iter_entries f m) = image_mset (\<lambda>k. (k, the (map_of m k))) (mset (keys m))"
    using assms(1) by (simp add: iter_entries_def fair_order_mset)
  also have "\<dots> = mset (map (\<lambda>(k, v). (k, the (map_of m k))) m)"
    by (simp add: keys_def image_mset.compositionality comp_def case_prod_unfold)
  also have "map (\<lambda>(k, v). (k, the (map_of m k))) m = m"
    using assms(2) by (auto intro!: map_idI simp: hashmap_ok_def keys_def)
  finally show ?thesis .
qed

subsection \<open>Accept loops\<close>

text \<open>
  What \<open>accept\<close> returns on every turn of a server's endless loop. A connection gets a task of
  its own, an error is logged and the loop goes on.
\<close>

datatype 'c accepted = Accepted 'c | AcceptError

fun accept_loop :: "'c accepted list \<Rightarrow> 'c list" where
  "accept_loop [] = []"
| "accept_loop (Accepted conn # rest) = conn # accept_loop rest"
| "accept_loop (AcceptError # rest) = accept_loop rest"

lemma accept_loop_set: "c \<in> set (accept_loop as) \<longleftrightarrow> Accepted c \<in> set as"
  by (induction as rule: accept_loop.induct) auto

subsection \<open>State machines with an invariant\<close>

text \<open>
  Several daemons are a state, a set of operations and a loop that applies them. The
  interface is one step function and the invariant every step keeps; what a component
  gets back is that the invariant holds after any sequence of operations.
\<close>

locale machine =
  fixes step :: "'e \<Rightarrow> 's \<Rightarrow> 's" and invariant :: "'s \<Rightarrow> bool"
  assumes step_invariant: "invariant s \<Longrightarrow> invariant (step e s)"
begin

lemma run_invariant: "invariant s \<Longrightarrow> invariant (fold step es s)"
  by (induction es arbitrary: s) (auto intro: step_invariant)

end

text \<open>A machine that also leaves a part of its state alone, whatever the steps.\<close>

locale framed_machine = machine step invariant
  for step :: "'e \<Rightarrow> 's \<Rightarrow> 's" and invariant :: "'s \<Rightarrow> bool" +
  fixes view :: "'s \<Rightarrow> 'v"
  assumes step_view: "invariant s \<Longrightarrow> view (step e s) = view s"
begin

lemma run_view: "invariant s \<Longrightarrow> view (fold step es s) = view s"
  by (induction es arbitrary: s) (simp_all add: step_view step_invariant)

end

subsection \<open>Keyed stores\<close>

text \<open>
  The interface of a map from keys to values as its clients use it: insertion makes the
  value readable under its key and leaves every other key alone; removal makes the key
  absent and leaves the rest alone.
\<close>

locale keyed_store =
  fixes lookup :: "'s \<Rightarrow> 'k \<Rightarrow> 'v option"
    and insert_at :: "'k \<Rightarrow> 'v \<Rightarrow> 's \<Rightarrow> 's"
    and remove_at :: "'k \<Rightarrow> 's \<Rightarrow> 's"
  assumes lookup_insert: "lookup (insert_at k v s) j = (if j = k then Some v else lookup s j)"
    and lookup_remove: "lookup (remove_at k s) j = (if j = k then None else lookup s j)"
begin

lemma lookup_insert_all:
  "distinct (map fst kvs) \<Longrightarrow> (k, v) \<in> set kvs \<Longrightarrow>
   lookup (fold (\<lambda>(k, v). insert_at k v) kvs s) k = Some v"
proof (induction kvs arbitrary: s)
  case (Cons p kvs)
  have other: "lookup (fold (\<lambda>(k, v). insert_at k v) kvs t) j = lookup t j"
    if "j \<notin> fst ` set kvs" for t j
    using that by (induction kvs arbitrary: t) (auto simp: lookup_insert)
  show ?case
  proof (cases "p = (k, v)")
    case True
    with Cons.prems(1) have "k \<notin> fst ` set kvs" by auto
    with True show ?thesis by (simp add: other lookup_insert)
  qed (use Cons in \<open>auto split: prod.splits\<close>)
qed simp

lemma lookup_remove_all:
  "lookup (fold remove_at ks s) j = (if j \<in> set ks then None else lookup s j)"
  by (induction ks arbitrary: s) (auto simp: lookup_remove)

end

interpretation hash_store: keyed_store map_of AList.update AList.delete
  by unfold_locales (simp_all add: hashmap_simps)

end
