(* ===== verification/StardustMessage.thy ===== *)
theory StardustMessage
  imports Prelude
begin

section \<open>Stardust: messages, topics and the frame codec\<close>

text \<open>
  \<open>crates/stardust/src/message.rs\<close>, \<open>error.rs\<close> and \<open>codec.rs\<close>: the message record and its
  builders, topic patterns, and the length-delimited frames the bus speaks.
  UUIDs and the clock are arguments (\<open>Uuid::new_v4\<close>, \<open>SystemTime::now\<close>); the CBOR encoder
  and decoder (crate ciborium) and the JSON map of \<open>Message::param\<close> (crate serde_json) are
  parameters.
\<close>

unbundle bit_operations_syntax

type_synonym uuid = "128 word"

text \<open>\<open>String::from_utf8_lossy\<close>: a maximal invalid prefix becomes one U+FFFD.\<close>

definition utf8_cont :: "nat \<Rightarrow> bytes \<Rightarrow> bool" where
  "utf8_cont i r \<longleftrightarrow> i < length r \<and> 0x80 \<le> r ! i \<and> r ! i \<le> 0xBF"

definition utf8_second :: "u8 \<Rightarrow> bytes \<Rightarrow> bool" where
  "utf8_second b r \<longleftrightarrow> utf8_cont 0 r \<and>
     (b = 0xE0 \<longrightarrow> 0xA0 \<le> r ! 0) \<and> (b = 0xED \<longrightarrow> r ! 0 \<le> 0x9F) \<and>
     (b = 0xF0 \<longrightarrow> 0x90 \<le> r ! 0) \<and> (b = 0xF4 \<longrightarrow> r ! 0 \<le> 0x8F)"

definition utf8_chunk :: "u8 \<Rightarrow> bytes \<Rightarrow> bool \<times> nat" where
  "utf8_chunk b r =
     (if b < 0x80 then (True, 0)
      else if 0xC2 \<le> b \<and> b \<le> 0xDF then (if utf8_cont 0 r then (True, 1) else (False, 0))
      else if 0xE0 \<le> b \<and> b \<le> 0xEF then
        (if \<not> utf8_second b r then (False, 0)
         else if \<not> utf8_cont 1 r then (False, 1) else (True, 2))
      else if 0xF0 \<le> b \<and> b \<le> 0xF4 then
        (if \<not> utf8_second b r then (False, 0)
         else if \<not> utf8_cont 1 r then (False, 1)
         else if \<not> utf8_cont 2 r then (False, 2) else (True, 3))
      else (False, 0))"

function from_utf8_lossy :: "bytes \<Rightarrow> string" where
  "from_utf8_lossy [] = []"
| "from_utf8_lossy (b # r) =
     (let (valid, n) = utf8_chunk b r
      in (if valid then string_of (b # take n r) else string_of [0xEF, 0xBF, 0xBD])
         @ from_utf8_lossy (drop n r))"
  by pat_completeness auto
termination
  by (relation "measure length") auto

text \<open>A Rust \<open>String\<close> always holds well-formed UTF-8; the conversion leaves it alone.\<close>

function utf8_valid :: "bytes \<Rightarrow> bool" where
  "utf8_valid [] = True"
| "utf8_valid (b # r) =
     (let (valid, n) = utf8_chunk b r in valid \<and> utf8_valid (drop n r))"
  by pat_completeness auto
termination
  by (relation "measure length") auto

lemma string_of_append: "string_of (xs @ ys) = string_of xs @ string_of ys"
  by (simp add: string_of_def)

lemma from_utf8_lossy_valid: "utf8_valid bs \<Longrightarrow> from_utf8_lossy bs = string_of bs"
proof (induction bs rule: utf8_valid.induct)
  case 1
  show ?case by (simp add: string_of_def)
next
  case (2 b r)
  obtain v n where vn: "utf8_chunk b r = (v, n)" by fastforce
  with 2 have "v" and "from_utf8_lossy (drop n r) = string_of (drop n r)" by simp_all
  moreover have "string_of (b # take n r) @ string_of (drop n r) = string_of (b # r)"
    by (simp flip: string_of_append)
  ultimately show ?case using vn by simp
qed

lemma utf8_valid_ascii: "\<forall>b \<in> set bs. b < 0x80 \<Longrightarrow> utf8_valid bs"
  by (induction bs) (simp_all add: utf8_chunk_def)

lemma utf8_valid_ascii_Cons: "b < 0x80 \<Longrightarrow> utf8_valid (b # r) = utf8_valid r"
  by (simp add: utf8_chunk_def)

subsection \<open>Errors and messages\<close>

datatype stardust_error =
    Io
  | Cbor
  | CborDe
  | Json
  | ConnectionClosed
  | Timeout uuid
  | NoResponse uuid
  | BrokerError string
  | InvalidMessage string
  | ServiceNotFound string

record message =
  msg_id :: uuid
  msg_src :: string
  msg_dst :: string
  msg_method :: string
  msg_params :: bytes
  msg_ts :: u64

record response =
  correlation_id :: uuid
  resp_result :: "string + bytes"

definition message_new :: "uuid \<Rightarrow> u64 \<Rightarrow> string \<Rightarrow> message" where
  "message_new uid now method =
     \<lparr>msg_id = uid, msg_src = [], msg_dst = [], msg_method = method, msg_params = [],
      msg_ts = now\<rparr>"

definition with_src :: "string \<Rightarrow> message \<Rightarrow> message" where
  "with_src s m = m\<lparr>msg_src := s\<rparr>"

definition with_dst :: "string \<Rightarrow> message \<Rightarrow> message" where
  "with_dst d m = m\<lparr>msg_dst := d\<rparr>"

definition params_raw :: "bytes \<Rightarrow> message \<Rightarrow> message" where
  "params_raw p m = m\<lparr>msg_params := p\<rparr>"

text \<open>
  \<open>Message::param\<close> reads the parameters as a JSON object, inserts one key and writes the
  object back. The object type and its operations are serde_json's: parsing (\<open>None\<close> when the
  bytes are not an object), the empty map, insertion and rendering.
\<close>

record ('m, 'v) json_object_api =
  jo_parse :: "bytes \<Rightarrow> 'm option"
  jo_empty :: 'm
  jo_insert :: "string \<Rightarrow> 'v \<Rightarrow> 'm \<Rightarrow> 'm"
  jo_render :: "'m \<Rightarrow> bytes option"

definition param ::
  "('m, 'v) json_object_api \<Rightarrow> string \<Rightarrow> 'v option \<Rightarrow> message \<Rightarrow> stardust_error + message" where
  "param api key value m =
     (let obj = (if msg_params m = [] then jo_empty api
                 else (case jo_parse api (msg_params m) of None \<Rightarrow> jo_empty api | Some o' \<Rightarrow> o'))
      in case value of
           None \<Rightarrow> Inl Json
         | Some v \<Rightarrow>
             (case jo_render api (jo_insert api key v obj) of
                None \<Rightarrow> Inl Json
              | Some raw \<Rightarrow> Inr (m\<lparr>msg_params := raw\<rparr>)))"

definition matches_topic :: "message \<Rightarrow> string \<Rightarrow> bool" where
  "matches_topic m pattern =
     (if pattern = ''*'' then True
      else (case strip_suffix pattern ''.*'' of
              Some pre \<Rightarrow> starts_with (msg_method m) pre
            | None \<Rightarrow> msg_method m = pattern))"

text \<open>What \<open>param\<close> relies on: a rendered object parses back to itself.\<close>

definition json_object_ok :: "('m, 'v) json_object_api \<Rightarrow> bool" where
  "json_object_ok api \<longleftrightarrow>
     (\<forall>o' raw. jo_render api o' = Some raw \<longrightarrow> raw \<noteq> [] \<and> jo_parse api raw = Some o')"

lemma param_twice:
  assumes "json_object_ok api" "param api k v m = Inr m1" "param api k' v' m1 = Inr m2"
  shows "\<exists>obj x x'. v = Some x \<and> v' = Some x' \<and>
           jo_parse api (msg_params m2) = Some (jo_insert api k' x' (jo_insert api k x obj))"
  using assms
  by (fastforce simp: param_def Let_def json_object_ok_def split: option.splits if_splits)

subsection \<open>Frames\<close>

text \<open>
  A frame is four bytes of length, least significant first, and the payload. The payload's
  length is cast to \<open>u32\<close>, so it wraps at four gigabytes.
\<close>

definition put_u32_le :: "u32 \<Rightarrow> bytes" where
  "put_u32_le w = [ucast w, ucast (drop_bit 8 w), ucast (drop_bit 16 w), ucast (drop_bit 24 w)]"

definition from_le_bytes :: "u8 \<Rightarrow> u8 \<Rightarrow> u8 \<Rightarrow> u8 \<Rightarrow> u32" where
  "from_le_bytes b0 b1 b2 b3 =
     ucast b0 OR push_bit 8 (ucast b1) OR push_bit 16 (ucast b2) OR push_bit 24 (ucast b3)"

definition put_frame :: "bytes \<Rightarrow> bytes" where
  "put_frame payload = put_u32_le (of_nat (length payload)) @ payload"

definition encode ::
  "(message \<Rightarrow> bytes option) \<Rightarrow> message \<Rightarrow> bytes \<Rightarrow> stardust_error + bytes" where
  "encode into_cbor item dst =
     (case into_cbor item of
        None \<Rightarrow> Inl Cbor
      | Some cbor_bytes \<Rightarrow> Inr (dst @ put_frame cbor_bytes))"

definition split_frame :: "bytes \<Rightarrow> (bytes \<times> bytes) option" where
  "split_frame buf =
     (if length buf < 4 then None
      else let len = unat (from_le_bytes (buf ! 0) (buf ! 1) (buf ! 2) (buf ! 3))
           in if length buf < 4 + len then None
              else Some (take len (drop 4 buf), drop (4 + len) buf))"

text \<open>
  \<open>decode\<close> returns the result and what is left of the buffer: an incomplete frame leaves it
  alone, a complete one is consumed even when its payload is not CBOR.
\<close>

definition decode ::
  "(bytes \<Rightarrow> message option) \<Rightarrow> bytes \<Rightarrow> (stardust_error + message option) \<times> bytes" where
  "decode from_cbor src =
     (case split_frame src of
        None \<Rightarrow> (Inr None, src)
      | Some (payload, rest) \<Rightarrow>
          (case from_cbor payload of
             None \<Rightarrow> (Inl CborDe, rest)
           | Some msg \<Rightarrow> (Inr (Some msg), rest)))"

lemma from_le_bytes_put_u32_le:
  "from_le_bytes (ucast w) (ucast (drop_bit 8 w)) (ucast (drop_bit 16 w)) (ucast (drop_bit 24 w)) = w"
proof (rule bit_word_eqI)
  fix n assume n: "n < LENGTH(32)"
  consider "n < 8" | "8 \<le> n" "n < 16" | "16 \<le> n" "n < 24" | "24 \<le> n" by linarith
  then show "bit (from_le_bytes (ucast w) (ucast (drop_bit 8 w)) (ucast (drop_bit 16 w))
      (ucast (drop_bit 24 w))) n = bit w n"
    using n
    by cases (auto simp: from_le_bytes_def bit_or_iff bit_push_bit_iff bit_ucast_iff
        bit_drop_bit_eq)
qed

lemma length_put_u32_le [simp]: "length (put_u32_le w) = 4"
  by (simp add: put_u32_le_def)

lemma length_put_frame [simp]: "length (put_frame p) = 4 + length p"
  by (simp add: put_frame_def)

lemma unat_of_length: "length p < 2 ^ 32 \<Longrightarrow> unat (of_nat (length p) :: u32) = length p"
  by (simp add: unat_of_nat take_bit_nat_eq_self)

lemma split_put_frame:
  assumes "length p < 2 ^ 32"
  shows "split_frame (put_frame p @ rest) = Some (p, rest)"
  using unat_of_length [OF assms]
  by (simp add: split_frame_def put_frame_def put_u32_le_def from_le_bytes_put_u32_le Let_def
      drop_Cons')

lemma split_frame_strict_prefix:
  assumes "length p < 2 ^ 32" and "strict_prefix buf (put_frame p)"
  shows "split_frame buf = None"
proof (cases "length buf < 4")
  case False
  from assms(2) obtain xs where xs: "put_frame p = buf @ xs" "xs \<noteq> []"
    by (auto simp: strict_prefix_def prefix_def)
  then have nth: "buf ! i = put_frame p ! i" if "i < 4" for i
    using that False by (simp add: nth_append)
  have "length buf < 4 + length p"
    using arg_cong [OF xs(1), of length] xs(2) by (cases xs) auto
  with False show ?thesis
    using unat_of_length [OF assms(1)] nth [of 0] nth [of 1] nth [of 2] nth [of 3]
    by (simp add: split_frame_def put_frame_def put_u32_le_def from_le_bytes_put_u32_le Let_def)
qed (simp add: split_frame_def)

lemma split_frame_append:
  "split_frame buf = Some (p, r) \<Longrightarrow> split_frame (buf @ x) = Some (p, r @ x)"
  by (auto simp: split_frame_def Let_def nth_append split: if_splits)

lemma split_frame_shorter: "split_frame buf = Some (p, r) \<Longrightarrow> length r < length buf"
  by (auto simp: split_frame_def Let_def split: if_splits)

subsection \<open>The interface of a frame layer\<close>

text \<open>
  What a reader of a byte stream needs of a framing: a complete frame at the front of the
  buffer comes off whole, a strict prefix of a frame is recognised as incomplete, later bytes
  do not change what was read, and every frame read makes the buffer shorter.
\<close>

locale framing =
  fixes put :: "'p \<Rightarrow> 'b list"
    and get :: "'b list \<Rightarrow> ('p \<times> 'b list) option"
    and fits :: "'p \<Rightarrow> bool"
  assumes get_put: "fits p \<Longrightarrow> get (put p @ rest) = Some (p, rest)"
    and get_partial: "fits p \<Longrightarrow> strict_prefix buf (put p) \<Longrightarrow> get buf = None"
    and get_append: "get buf = Some (p, r) \<Longrightarrow> get (buf @ x) = Some (p, r @ x)"
    and get_shorter: "get buf = Some (p, r) \<Longrightarrow> length r < length buf"
begin

lemma put_not_Nil: "fits p \<Longrightarrow> put p \<noteq> []"
  using get_put [of p "[]"] get_shorter [of "put p" p "[]"] by auto

lemma get_put_frames:
  "\<forall>p \<in> set (p # ps). fits p \<Longrightarrow>
   get (concat (map put (p # ps)) @ rest) = Some (p, concat (map put ps) @ rest)"
  by (simp add: get_put)

lemma put_inj: "fits p \<Longrightarrow> fits q \<Longrightarrow> put p = put q \<Longrightarrow> p = q"
  using get_put [of p "[]"] get_put [of q "[]"] by simp

end

interpretation frames: framing put_frame split_frame "\<lambda>p. length p < 2 ^ 32"
proof
  show "split_frame (put_frame p @ rest) = Some (p, rest)" if "length p < 2 ^ 32" for p rest
    using that by (rule split_put_frame)
  show "split_frame buf = None" if "length p < 2 ^ 32" "strict_prefix buf (put_frame p)" for p buf
    using that by (rule split_frame_strict_prefix)
qed (rule split_frame_append split_frame_shorter, assumption)+

text \<open>
  Decoding again and again, as the connection's read loop does: the messages in order, then
  either an incomplete rest or an error. Every step consumes at least a header, so the
  buffer's length is enough fuel.
\<close>

fun decode_all ::
  "(bytes \<Rightarrow> message option) \<Rightarrow> nat \<Rightarrow> bytes \<Rightarrow> message list \<times> stardust_error option \<times> bytes"
where
  "decode_all from_cbor 0 buf = ([], None, buf)"
| "decode_all from_cbor (Suc n) buf =
     (case decode from_cbor buf of
        (Inl e, r) \<Rightarrow> ([], Some e, r)
      | (Inr None, r) \<Rightarrow> ([], None, r)
      | (Inr (Some m), r) \<Rightarrow>
          (let (ms, e, r') = decode_all from_cbor n r in (m # ms, e, r')))"

definition cbor_roundtrip :: "(message \<Rightarrow> bytes option) \<Rightarrow> (bytes \<Rightarrow> message option) \<Rightarrow> message \<Rightarrow> bool" where
  "cbor_roundtrip into_cbor from_cbor m \<longleftrightarrow>
     (\<forall>b. into_cbor m = Some b \<longrightarrow> from_cbor b = Some m \<and> length b < 2 ^ 32)"

fun encode_all ::
  "(message \<Rightarrow> bytes option) \<Rightarrow> message list \<Rightarrow> bytes \<Rightarrow> stardust_error + bytes" where
  "encode_all into_cbor [] dst = Inr dst"
| "encode_all into_cbor (m # ms) dst =
     (case encode into_cbor m dst of
        Inl e \<Rightarrow> Inl e
      | Inr dst' \<Rightarrow> encode_all into_cbor ms dst')"

lemma encode_all_Inr:
  "encode_all into_cbor ms dst = Inr out \<Longrightarrow>
   \<exists>bs. length bs = length ms \<and> out = dst @ concat (map put_frame bs) \<and>
        (\<forall>i < length ms. into_cbor (ms ! i) = Some (bs ! i))"
proof (induction ms arbitrary: dst)
  case (Cons m ms)
  then obtain b where b: "into_cbor m = Some b"
    and rest: "encode_all into_cbor ms (dst @ put_frame b) = Inr out"
    by (auto simp: encode_def split: option.splits)
  from Cons.IH [OF rest] obtain bs where bs: "length bs = length ms"
    "out = (dst @ put_frame b) @ concat (map put_frame bs)"
    "\<forall>i < length ms. into_cbor (ms ! i) = Some (bs ! i)" by blast
  from bs b show ?case
    by (intro exI [of _ "b # bs"]) (auto simp: nth_Cons split: nat.splits)
qed simp

lemma decode_all_frames:
  assumes "split_frame rest = None"
    and "length bs = length ms" and "length ms < n"
    and "\<forall>i < length ms. from_cbor (bs ! i) = Some (ms ! i) \<and> length (bs ! i) < 2 ^ 32"
  shows "decode_all from_cbor n (concat (map put_frame bs) @ rest) = (ms, None, rest)"
  using assms
proof (induction ms arbitrary: bs n)
  case Nil
  then show ?case by (cases n) (auto simp: decode_def)
next
  case (Cons m ms)
  from Cons.prems(2) obtain b bs' where bs: "bs = b # bs'" by (cases bs) auto
  from Cons.prems(3) obtain n' where n: "n = Suc n'" by (cases n) auto
  have hd: "from_cbor b = Some m" "length b < 2 ^ 32"
    using Cons.prems(4) bs by force+
  have "decode from_cbor (concat (map put_frame bs) @ rest) =
      (Inr (Some m), concat (map put_frame bs') @ rest)"
    using frames.get_put [OF hd(2), of "concat (map put_frame bs') @ rest"] hd(1)
    by (simp add: bs decode_def)
  moreover have "decode_all from_cbor n' (concat (map put_frame bs') @ rest) = (ms, None, rest)"
    using Cons.prems bs n by (intro Cons.IH) (auto simp: nth_Cons)
  ultimately show ?case by (simp add: n)
qed

subsection \<open>Properties\<close>

text \<open>
  A pattern matches a topic exactly when it is \<open>*\<close>, or ends in \<open>.*\<close> and
  the text before that suffix starts the method name, or is the method name itself.
\<close>

lemma matches_topic_iff:
  "matches_topic m pattern \<longleftrightarrow>
     pattern = ''*'' \<or>
     (\<exists>pre rest. pattern = pre @ ''.*'' \<and> msg_method m = pre @ rest) \<or>
     ((\<nexists>pre. pattern = pre @ ''.*'') \<and> msg_method m = pattern)"
proof (cases "strip_suffix pattern ''.*''")
  case None
  moreover from None have "\<nexists>pre. pattern = pre @ ''.*''"
    by (simp add: strip_suffix_None_iff)
  ultimately show ?thesis by (simp add: matches_topic_def)
next
  case (Some pre)
  then have "pattern = pre @ ''.*''" by (simp add: strip_suffix_Some_iff)
  with Some show ?thesis by (auto simp: matches_topic_def starts_with_iff)
qed

text \<open>
  Property C12. Messages written one after the other and followed by any incomplete frame are
  read back in order, with no error, and exactly the incomplete bytes stay in the buffer,
  provided the CBOR library reads back what it writes and no payload reaches four gigabytes.
\<close>

theorem codec_stream_roundtrip:
  assumes "\<forall>m \<in> set ms. cbor_roundtrip into_cbor from_cbor m"
    and "encode_all into_cbor ms [] = Inr out"
    and "length p < 2 ^ 32" and "strict_prefix partial (put_frame p)"
  shows "decode_all from_cbor (Suc (length ms)) (out @ partial) = (ms, None, partial)"
proof -
  obtain bs where bs: "length bs = length ms" "out = concat (map put_frame bs)"
    "\<forall>i < length ms. into_cbor (ms ! i) = Some (bs ! i)"
    using encode_all_Inr [OF assms(2)] by auto
  have "split_frame partial = None"
    using assms(3,4) by (rule frames.get_partial)
  then show ?thesis
    using bs assms(1) unfolding bs(2)
    by (intro decode_all_frames) (fastforce simp: cbor_roundtrip_def dest: nth_mem)+
qed

theorem codec_stream_roundtrip_witness:
  "decode_all (\<lambda>b :: bytes. if b = [7] then Some (message_new 1 2 ''a'') else None)
     (Suc (length [message_new 1 2 ''a'']))
     ([1, 0, 0, 0, 7] @ [9, 0]) = ([message_new 1 2 ''a''], None, [9, 0])"
proof -
  let ?m = "message_new 1 2 ''a''"
  have e: "encode_all (\<lambda>x :: message. Some [7 :: u8]) [?m] [] = Inr [1, 0, 0, 0, 7]"
    by (simp add: encode_def put_frame_def put_u32_le_def)
  have c: "\<forall>m \<in> set [?m]. cbor_roundtrip (\<lambda>x. Some [7])
      (\<lambda>b. if b = [7] then Some ?m else None) m"
    by (simp add: cbor_roundtrip_def)
  have "strict_prefix [9, 0] (put_frame [1, 2, 3, 4, 5, 6, 7, 8, 9])"
    by (simp add: put_frame_def put_u32_le_def strict_prefix_def)
  from codec_stream_roundtrip [OF c e _ this] show ?thesis
    by simp
qed

end
