(* ===== verification/StardustBroker.thy ===== *)
theory StardustBroker
  imports StardustMessage
begin

section \<open>Stardust: the broker\<close>

text \<open>
  \<open>crates/stardust/src/broker.rs\<close>: the broker's state, the commands of its single-consumer
  queue, the handler of each command, and the connection task that turns incoming messages
  into commands. Theory \<open>StardustBus\<close> puts them together.

  A channel (\<open>mpsc::UnboundedSender\<close>, \<open>oneshot::Sender\<close>) is a number; sending is an output
  of the handler. \<open>DashMap\<close> and the locks around the maps are read as maps: the broker task
  is the only writer but for \<open>handle_connection\<close>, which inserts the connection's sender.
\<close>

type_synonym conn_id = u64
type_synonym chan = nat

record envelope =
  env_msg :: message
  env_sender :: conn_id

datatype broker_cmd =
    Register conn_id string chan
  | RegisterService string
  | Unregister conn_id
  | Subscribe conn_id string
  | SubscribeDirect string chan
  | Unsubscribe conn_id string
  | UnsubscribeDirect string chan
  | Route envelope
  | CallCmd message nat chan

datatype broker_out =
    Deliver chan message
  | Registered chan
  | CallReply chan "stardust_error + response"

record broker_state =
  services :: "(string, conn_id) hashmap"
  subscriptions :: "(string, conn_id list) hashmap"
  connections :: "(conn_id, chan) hashmap"
  pending_calls :: "(uuid, chan) hashmap"

record bus_order =
  ord_topics :: "string list \<Rightarrow> string list"
  ord_conns :: "conn_id list \<Rightarrow> conn_id list"

definition fair_bus_order :: "bus_order \<Rightarrow> bool" where
  "fair_bus_order h \<longleftrightarrow> fair_order (ord_topics h) \<and> fair_order (ord_conns h)"

definition broker_init :: broker_state where
  "broker_init = \<lparr>services = [], subscriptions = [], connections = [], pending_calls = []\<rparr>"

subsection \<open>The command handler\<close>

definition send_to :: "broker_state \<Rightarrow> message \<Rightarrow> conn_id \<Rightarrow> broker_out list" where
  "send_to st m c = (case map_of (connections st) c of None \<Rightarrow> [] | Some tx \<Rightarrow> [Deliver tx m])"

definition route_direct :: "broker_state \<Rightarrow> envelope \<Rightarrow> broker_out list" where
  "route_direct st env =
     (let msg = env_msg env
      in if msg_dst msg \<noteq> []
         then (case map_of (services st) (msg_dst msg) of
                 Some target_conn \<Rightarrow>
                   if target_conn \<noteq> env_sender env then send_to st msg target_conn else []
               | None \<Rightarrow> [])
         else [])"

definition route_topics :: "bus_order \<Rightarrow> broker_state \<Rightarrow> envelope \<Rightarrow> broker_out list" where
  "route_topics h st env =
     (let msg = env_msg env
      in concat (map (\<lambda>(pattern, conns).
           if matches_topic msg pattern
           then concat (map (\<lambda>c. if c = env_sender env then [] else send_to st msg c)
                  (ord_conns h conns))
           else [])
         (iter_entries (ord_topics h) (subscriptions st))))"

definition unregister_conn :: "conn_id \<Rightarrow> broker_state \<Rightarrow> broker_state" where
  "unregister_conn c st =
     st\<lparr>services := filter (\<lambda>(_, cid). cid \<noteq> c) (services st),
        subscriptions := map (\<lambda>(t, subs). (t, removeAll c subs)) (subscriptions st),
        connections := AList.delete c (connections st)\<rparr>"

definition synthetic_id :: "broker_state \<Rightarrow> conn_id" where
  "synthetic_id st = of_nat (length (connections st)) + 100000"

fun run_broker_cmd ::
  "bus_order \<Rightarrow> broker_cmd \<Rightarrow> broker_state \<Rightarrow> broker_state \<times> broker_out list" where
  "run_broker_cmd h (Register c service_name reply) st =
     (st\<lparr>services := AList.update service_name c (services st)\<rparr>, [Registered reply])"
| "run_broker_cmd h (RegisterService name) st =
     (st\<lparr>services := AList.update name (- 1) (services st)\<rparr>, [])"
| "run_broker_cmd h (Unregister c) st = (unregister_conn c st, [])"
| "run_broker_cmd h (Subscribe c topic) st =
     (st\<lparr>subscriptions := entry_insert topic c (subscriptions st)\<rparr>, [])"
| "run_broker_cmd h (SubscribeDirect topic tx) st =
     (let i = synthetic_id st
      in (st\<lparr>connections := AList.update i tx (connections st),
             subscriptions := entry_insert topic i (subscriptions st)\<rparr>, []))"
| "run_broker_cmd h (UnsubscribeDirect topic tx) st = (st, [])"
| "run_broker_cmd h (Unsubscribe c topic) st =
     (case map_of (subscriptions st) topic of
        None \<Rightarrow> (st, [])
      | Some subs \<Rightarrow>
          (st\<lparr>subscriptions := AList.update topic (removeAll c subs) (subscriptions st)\<rparr>, []))"
| "run_broker_cmd h (Route env) st = (st, route_direct st env @ route_topics h st env)"
| "run_broker_cmd h (CallCmd msg timeout reply) st =
     (st, [CallReply reply (Inl (ServiceNotFound (msg_dst msg)))])"

fun run_broker ::
  "bus_order \<Rightarrow> broker_cmd list \<Rightarrow> broker_state \<Rightarrow> broker_state \<times> broker_out list" where
  "run_broker h [] st = (st, [])"
| "run_broker h (cmd # cmds) st =
     (let (st', out) = run_broker_cmd h cmd st; (st'', out') = run_broker h cmds st'
      in (st'', out @ out'))"

subsection \<open>The handle of the WebSocket bridge\<close>

definition handle_subscribe :: "string \<Rightarrow> chan \<Rightarrow> broker_cmd" where
  "handle_subscribe topic tx = SubscribeDirect topic tx"

definition handle_unsubscribe :: "string \<Rightarrow> chan \<Rightarrow> broker_cmd" where
  "handle_unsubscribe topic tx = UnsubscribeDirect topic tx"

definition handle_publish :: "message \<Rightarrow> broker_cmd" where
  "handle_publish msg = Route \<lparr>env_msg = msg, env_sender = 0\<rparr>"

definition handle_register_service :: "string \<Rightarrow> broker_cmd" where
  "handle_register_service name = RegisterService name"

text \<open>What the caller of \<open>call\<close> gets: the reply, or an error when it is dropped or late.\<close>

datatype 'r reply_wait = Replied 'r | SenderDropped | TimedOut

definition handle_call_result ::
  "(stardust_error + response) reply_wait \<Rightarrow> stardust_error + response" where
  "handle_call_result w =
     (case w of TimedOut \<Rightarrow> Inl (Timeout 0) | SenderDropped \<Rightarrow> Inl (NoResponse 0) | Replied r \<Rightarrow> r)"

subsection \<open>Connections\<close>

text \<open>The command an incoming message becomes; the register reply goes to a fresh channel.\<close>

definition dispatch :: "conn_id \<Rightarrow> chan \<Rightarrow> message \<Rightarrow> broker_cmd" where
  "dispatch c reply msg =
     (if msg_method msg = ''__stardust.register''
      then Register c (from_utf8_lossy (msg_params msg)) reply
      else if msg_method msg = ''__stardust.subscribe''
      then Subscribe c (from_utf8_lossy (msg_params msg))
      else if msg_method msg = ''__stardust.unsubscribe''
      then Unsubscribe c (from_utf8_lossy (msg_params msg))
      else Route \<lparr>env_msg = msg, env_sender = c\<rparr>)"

text \<open>
  The connection task: a sequence of events of its two sources, until the first that breaks
  the loop; then \<open>Unregister\<close> is queued. The lists are the commands queued and the messages
  written to the client.
\<close>

datatype conn_event =
    Incoming "stardust_error + message"
  | Eof
  | Outgoing message bool
  | ChannelClosed

fun handle_connection ::
  "conn_id \<Rightarrow> chan \<Rightarrow> conn_event list \<Rightarrow> broker_cmd list \<times> message list" where
  "handle_connection c reply [] = ([], [])"
| "handle_connection c reply (ev # evs) =
     (case ev of
        Incoming (Inr msg) \<Rightarrow>
          (let (cmds, sent) = handle_connection c reply evs
           in (dispatch c reply msg # cmds, sent))
      | Incoming (Inl e) \<Rightarrow> ([Unregister c], [])
      | Eof \<Rightarrow> ([Unregister c], [])
      | Outgoing msg sent_ok \<Rightarrow>
          (if sent_ok
           then let (cmds, sent) = handle_connection c reply evs in (cmds, msg # sent)
           else ([Unregister c], []))
      | ChannelClosed \<Rightarrow> ([Unregister c], []))"

subsection \<open>Well-formed states\<close>

definition broker_ok :: "broker_state \<Rightarrow> bool" where
  "broker_ok st \<longleftrightarrow> hashmap_ok (services st) \<and> hashmap_ok (subscriptions st) \<and>
     hashmap_ok (connections st) \<and>
     (\<forall>t cs. map_of (subscriptions st) t = Some cs \<longrightarrow> distinct cs)"

lemma broker_ok_init: "broker_ok broker_init"
  by (simp add: broker_ok_def broker_init_def)

lemma map_of_map_snd:
  "map_of (map (\<lambda>(k, v). (k, f v)) m) k = map_option f (map_of m k)"
  by (induction m) auto

lemma broker_ok_step: "broker_ok st \<Longrightarrow> broker_ok (fst (run_broker_cmd h cmd st))"
  by (cases cmd)
    (auto simp: broker_ok_def unregister_conn_def Let_def hashmap_simps map_of_map_snd
      distinct_insert distinct_removeAll split: option.splits if_splits)

interpretation broker: machine "\<lambda>cmd st. fst (run_broker_cmd h cmd st)" broker_ok for h
  by unfold_locales (rule broker_ok_step)

lemma run_broker_fst: "fst (run_broker h cmds st) = fold (\<lambda>cmd st. fst (run_broker_cmd h cmd st)) cmds st"
  by (induction cmds arbitrary: st) (auto simp: case_prod_beta Let_def)

lemma run_broker_ok: "broker_ok st \<Longrightarrow> broker_ok (fst (run_broker h cmds st))"
  unfolding run_broker_fst by (rule broker.run_invariant)

subsection \<open>What a broker promises\<close>

text \<open>
  The abstract broker: who answers to a service name, which connection listens to which
  pattern, which channel reaches a connection.
\<close>

record bus_spec =
  sp_services :: "string \<Rightarrow> conn_id option"
  sp_subs :: "(conn_id \<times> string) set"
  sp_conns :: "conn_id \<Rightarrow> chan option"

definition broker_abs :: "broker_state \<Rightarrow> bus_spec" where
  "broker_abs st =
     \<lparr>sp_services = map_of (services st),
      sp_subs = {(c, t). \<exists>cs. map_of (subscriptions st) t = Some cs \<and> c \<in> set cs},
      sp_conns = map_of (connections st)\<rparr>"

fun spec_step :: "broker_cmd \<Rightarrow> bus_spec \<Rightarrow> bus_spec" where
  "spec_step (Register c name _) a = a\<lparr>sp_services := (sp_services a)(name \<mapsto> c)\<rparr>"
| "spec_step (RegisterService name) a = a\<lparr>sp_services := (sp_services a)(name \<mapsto> - 1)\<rparr>"
| "spec_step (Unregister c) a =
     a\<lparr>sp_services := (\<lambda>n. if sp_services a n = Some c then None else sp_services a n),
       sp_subs := {(d, t) \<in> sp_subs a. d \<noteq> c},
       sp_conns := (sp_conns a)(c := None)\<rparr>"
| "spec_step (Subscribe c t) a = a\<lparr>sp_subs := insert (c, t) (sp_subs a)\<rparr>"
| "spec_step (SubscribeDirect t tx) a =
     (let i = of_nat (card (dom (sp_conns a))) + 100000
      in a\<lparr>sp_conns := (sp_conns a)(i \<mapsto> tx), sp_subs := insert (i, t) (sp_subs a)\<rparr>)"
| "spec_step (Unsubscribe c t) a = a\<lparr>sp_subs := sp_subs a - {(c, t)}\<rparr>"
| "spec_step _ a = a"

lemma card_dom_hashmap: "hashmap_ok m \<Longrightarrow> card (dom (map_of m)) = length m"
  by (metis distinct_card hashmap_ok_def keys_def length_map set_keys)

lemma map_of_filter_value:
  "hashmap_ok m \<Longrightarrow>
   map_of (filter (\<lambda>(_, v). v \<noteq> c) m) k = (if map_of m k = Some c then None else map_of m k)"
proof (induction m)
  case (Cons p m)
  then have "map_of m (fst p) = None"
    by (auto simp: hashmap_ok_def keys_def map_of_eq_None_iff)
  with Cons show ?case by (cases p) (auto simp: hashmap_ok_def keys_def)
qed simp

lemma broker_refines:
  assumes "broker_ok st"
  shows "broker_abs (fst (run_broker_cmd h cmd st)) = spec_step cmd (broker_abs st)"
  using assms
  by (cases cmd)
    (auto simp: broker_abs_def broker_ok_def unregister_conn_def Let_def hashmap_simps
      synthetic_id_def card_dom_hashmap map_of_map_snd map_of_filter_value fun_eq_iff
      split: option.splits if_splits)

subsection \<open>Deliveries\<close>

text \<open>
  How many copies of a routed message a connection is owed: one when it answers to the
  destination, and one per matching pattern it subscribed to; none when it is the sender.
\<close>

definition copies_owed :: "broker_state \<Rightarrow> envelope \<Rightarrow> conn_id \<Rightarrow> nat" where
  "copies_owed st env c =
     (if c = env_sender env then 0
      else (if msg_dst (env_msg env) \<noteq> [] \<and>
               map_of (services st) (msg_dst (env_msg env)) = Some c then 1 else 0) +
           length (filter (\<lambda>p. matches_topic (env_msg env) (fst p) \<and> c \<in> set (snd p))
             (subscriptions st)))"

definition own_channels :: "broker_state \<Rightarrow> bool" where
  "own_channels st \<longleftrightarrow> inj_on (map_of (connections st)) (dom (map_of (connections st)))"

lemma send_to_count:
  assumes "own_channels st" "map_of (connections st) c = Some tx"
  shows "count_list (send_to st m d) (Deliver tx m) = (if d = c then 1 else 0)"
proof (cases "map_of (connections st) d")
  case None
  with assms(2) show ?thesis by (auto simp: send_to_def)
next
  case (Some tx')
  have "tx' = tx \<longleftrightarrow> d = c"
  proof
    assume "tx' = tx"
    with Some assms(2) have "map_of (connections st) d = map_of (connections st) c" by simp
    with assms Some show "d = c" by (meson domI inj_onD own_channels_def)
  qed (use Some assms(2) in simp)
  with Some show ?thesis by (simp add: send_to_def)
qed

lemma count_list_concat: "count_list (concat (map f xs)) x = (\<Sum>y \<leftarrow> xs. count_list (f y) x)"
  by (induction xs) auto

lemma sum_list_one_of:
  "distinct cs \<Longrightarrow> (\<Sum>d \<leftarrow> cs. if d = c \<and> P d then 1 else 0) = (if c \<in> set cs \<and> P c then 1 else (0 :: nat))"
  by (induction cs) auto

lemma topic_conns_count:
  assumes "own_channels st" "map_of (connections st) c = Some tx" "distinct cs"
  shows "count_list (concat (map (\<lambda>d. if d = s then [] else send_to st m d) cs)) (Deliver tx m) =
     (if c \<in> set cs \<and> c \<noteq> s then 1 else 0)"
proof -
  have "count_list (concat (map (\<lambda>d. if d = s then [] else send_to st m d) cs)) (Deliver tx m) =
      (\<Sum>d \<leftarrow> cs. if d = c \<and> d \<noteq> s then 1 else 0)"
    unfolding count_list_concat
    by (rule arg_cong [where f = sum_list], rule map_cong [OF refl])
      (simp add: send_to_count [OF assms(1,2)])
  also have "\<dots> = (if c \<in> set cs \<and> c \<noteq> s then 1 else 0)"
    by (rule sum_list_one_of [OF assms(3)])
  finally show ?thesis .
qed

lemma sum_list_mset_eq: "mset xs = mset ys \<Longrightarrow> sum_list (map f xs) = sum_list (map f ys)"
  for f :: "'a \<Rightarrow> nat"
  by (metis mset_map sum_mset_sum_list)

lemma sum_list_indicator: "(\<Sum>x \<leftarrow> xs. if P x then 1 else 0) = length (filter P xs)"
  by (induction xs) auto

lemma route_topics_count:
  assumes "fair_bus_order h" "broker_ok st" "own_channels st"
    and "map_of (connections st) c = Some tx"
  shows "count_list (route_topics h st env) (Deliver tx (env_msg env)) =
     (if c = env_sender env then 0
      else length (filter (\<lambda>p. matches_topic (env_msg env) (fst p) \<and> c \<in> set (snd p))
        (subscriptions st)))"
proof -
  let ?m = "env_msg env" and ?s = "env_sender env"
  let ?f = "\<lambda>p. if matches_topic ?m (fst p)
      then concat (map (\<lambda>d. if d = ?s then [] else send_to st ?m d) (ord_conns h (snd p))) else []"
  let ?n = "\<lambda>p. count_list (?f p) (Deliver tx ?m)"
  let ?P = "\<lambda>p. (matches_topic ?m (fst p) \<and> c \<in> set (snd p)) \<and> c \<noteq> ?s"
  have fair: "fair_order (ord_topics h)" "fair_order (ord_conns h)"
    using assms(1) by (simp_all add: fair_bus_order_def)
  have "count_list (route_topics h st env) (Deliver tx ?m) =
      (\<Sum>p \<leftarrow> iter_entries (ord_topics h) (subscriptions st). ?n p)"
    by (simp only: route_topics_def Let_def count_list_concat case_prod_beta)
  also have "\<dots> = (\<Sum>p \<leftarrow> subscriptions st. ?n p)"
    by (intro sum_list_mset_eq mset_iter_entries fair)
      (use assms(2) in \<open>simp add: broker_ok_def\<close>)
  also have "\<dots> = (\<Sum>p \<leftarrow> subscriptions st. if ?P p then 1 else 0)"
  proof (rule arg_cong [where f = sum_list], rule map_cong [OF refl])
    fix p assume p: "p \<in> set (subscriptions st)"
    then have "map_of (subscriptions st) (fst p) = Some (snd p)"
      using assms(2) by (simp add: broker_ok_def hashmap_map_of_Some)
    then have "distinct (ord_conns h (snd p))"
      using assms(2) fair(2) by (auto simp: broker_ok_def)
    from topic_conns_count [OF assms(3,4) this, of ?s ?m] fair(2)
    show "?n p = (if ?P p then 1 else 0)" by simp
  qed
  also have "\<dots> = length (filter ?P (subscriptions st))"
    by (rule sum_list_indicator)
  finally show ?thesis by (cases "c = ?s") simp_all
qed

lemma route_direct_None:
  "map_of (services st) (msg_dst (env_msg env)) = None \<Longrightarrow> route_direct st env = []"
  unfolding route_direct_def Let_def by (simp only: option.case if_cancel)

lemma route_direct_Some:
  "map_of (services st) (msg_dst (env_msg env)) = Some d \<Longrightarrow>
   route_direct st env =
     (if msg_dst (env_msg env) \<noteq> [] \<and> d \<noteq> env_sender env
      then send_to st (env_msg env) d else [])"
  unfolding route_direct_def Let_def by (simp only: option.case) simp

lemma route_direct_count:
  assumes "own_channels st" "map_of (connections st) c = Some tx"
  shows "count_list (route_direct st env) (Deliver tx (env_msg env)) =
     (if c \<noteq> env_sender env \<and> msg_dst (env_msg env) \<noteq> [] \<and>
         map_of (services st) (msg_dst (env_msg env)) = Some c then 1 else 0)"
proof (cases "map_of (services st) (msg_dst (env_msg env))")
  case None
  then show ?thesis by (simp add: route_direct_None)
next
  case (Some d)
  then show ?thesis
    using send_to_count [OF assms, of "env_msg env" d] by (auto simp: route_direct_Some)
qed

text \<open>
  Property C8. Routing a message hands every connection exactly the copies it is owed: one
  if it is the registered destination and one for each matching pattern it subscribed to, and
  none to the sender, whatever order the hash maps are visited in.
\<close>

theorem route_delivers_exactly:
  assumes "fair_bus_order h" "broker_ok st" "own_channels st"
    and "map_of (connections st) c = Some tx"
  shows "count_list (snd (run_broker_cmd h (Route env) st)) (Deliver tx (env_msg env)) =
     copies_owed st env c"
  using route_topics_count [OF assms] route_direct_count [OF assms(3,4)]
  by (simp add: copies_owed_def)

theorem route_delivers_exactly_witness:
  "let st = \<lparr>services = [(''otad'', 1)], subscriptions = [(''ota.*'', [1, 2])],
             connections = [(1, 10), (2, 20)], pending_calls = []\<rparr>;
       env = \<lparr>env_msg = with_dst ''otad'' (message_new 5 0 ''ota.check''), env_sender = 2\<rparr>;
       h = \<lparr>ord_topics = rev, ord_conns = rev\<rparr>
   in count_list (snd (run_broker_cmd h (Route env) st)) (Deliver 10 (env_msg env)) =
        copies_owed st env 1 \<and> copies_owed st env 1 = 2"
proof -
  let ?st = "\<lparr>services = [(''otad'', 1)], subscriptions = [(''ota.*'', [1, 2])],
    connections = [(1, 10), (2, 20)], pending_calls = []\<rparr>"
  let ?env = "\<lparr>env_msg = with_dst ''otad'' (message_new 5 0 ''ota.check''), env_sender = 2\<rparr>"
  have "broker_ok ?st" "own_channels ?st"
    by (auto simp: broker_ok_def own_channels_def inj_on_def hashmap_ok_def keys_def split: if_splits)
  then have "count_list (snd (run_broker_cmd \<lparr>ord_topics = rev, ord_conns = rev\<rparr> (Route ?env) ?st))
      (Deliver 10 (env_msg ?env)) = copies_owed ?st ?env 1"
    by (intro route_delivers_exactly) (auto simp: fair_bus_order_def)
  moreover have "copies_owed ?st ?env 1 = 2"
    by (simp add: copies_owed_def with_dst_def message_new_def matches_topic_def string_defs)
  ultimately show ?thesis by (simp add: Let_def)
qed

text \<open>
  A message the WebSocket bridge publishes never reaches Unix connection 0,
  whatever it subscribed to: the bridge publishes with sender 0, the id of the first
  connection the broker accepts.
\<close>

lemma bridge_publish_misses_connection_zero:
  assumes "fair_bus_order h" "broker_ok st" "own_channels st"
    and "map_of (connections st) 0 = Some tx"
  shows "Deliver tx msg \<notin> set (snd (run_broker_cmd h (handle_publish msg) st))"
proof -
  let ?env = "\<lparr>env_msg = msg, env_sender = 0\<rparr>"
  have "count_list (snd (run_broker_cmd h (handle_publish msg) st)) (Deliver tx msg) = 0"
    using route_topics_count [OF assms, of ?env] route_direct_count [OF assms(3,4), of ?env]
    by (simp add: handle_publish_def)
  then show ?thesis by (simp add: count_list_0_iff)
qed

lemma bridge_publish_misses_connection_zero_witness:
  "let st = \<lparr>services = [], subscriptions = [(''input.*'', [0])], connections = [(0, 7)],
             pending_calls = []\<rparr>
   in matches_topic (message_new 1 0 ''input.key'') ''input.*'' \<and>
      Deliver 7 (message_new 1 0 ''input.key'') \<notin>
        set (snd (run_broker_cmd \<lparr>ord_topics = id, ord_conns = id\<rparr>
          (handle_publish (message_new 1 0 ''input.key'')) st))"
proof -
  let ?st = "\<lparr>services = [], subscriptions = [(''input.*'', [0])], connections = [(0, 7)],
    pending_calls = []\<rparr> :: broker_state"
  have "broker_ok ?st" "own_channels ?st"
    by (auto simp: broker_ok_def own_channels_def hashmap_ok_def keys_def)
  then show ?thesis
    using bridge_publish_misses_connection_zero
      [of "\<lparr>ord_topics = id, ord_conns = id\<rparr>" ?st 7 "message_new 1 0 ''input.key''"]
    by (simp add: fair_bus_order_def matches_topic_def message_new_def string_defs Let_def)
qed

text \<open>
  Property C7. Handling a command on the hash maps and then reading them as the abstract
  broker's relations is the same as the abstract step: the handler implements its contract.
\<close>

theorem broker_implements_spec:
  assumes "broker_ok st"
  shows "broker_abs (fst (run_broker h cmds st)) = fold spec_step cmds (broker_abs st)"
  using assms
proof (induction cmds arbitrary: st)
  case (Cons cmd cmds)
  from Cons.prems have "broker_ok (fst (run_broker_cmd h cmd st))" by (rule broker_ok_step)
  from Cons.IH [OF this] show ?case
    unfolding run_broker_fst by (simp add: broker_refines [OF Cons.prems])
qed simp

theorem broker_implements_spec_witness:
  "broker_abs (fst (run_broker \<lparr>ord_topics = id, ord_conns = id\<rparr>
       [Subscribe 3 ''a'', Register 3 ''svc'' 0, Unregister 3] broker_init)) =
     \<lparr>sp_services = Map.empty, sp_subs = {}, sp_conns = Map.empty\<rparr>"
  unfolding broker_implements_spec [OF broker_ok_init]
  by (auto simp: broker_abs_def broker_init_def fun_eq_iff)

fun cmd_of_conn :: "broker_cmd \<Rightarrow> conn_id \<Rightarrow> bool" where
  "cmd_of_conn (Register d _ _) c = (d = c)"
| "cmd_of_conn (Unregister d) c = (d = c)"
| "cmd_of_conn (Subscribe d _) c = (d = c)"
| "cmd_of_conn (Unsubscribe d _) c = (d = c)"
| "cmd_of_conn (Route env) c = (env_sender env = c)"
| "cmd_of_conn _ c = False"

fun ends_loop :: "conn_event \<Rightarrow> bool" where
  "ends_loop (Incoming r) = (\<not> is_ok r)"
| "ends_loop (Outgoing _ ok) = (\<not> ok)"
| "ends_loop _ = True"

lemma dispatch_cmd: "cmd_of_conn (dispatch c reply m) c" "dispatch c reply m \<noteq> Unregister d"
  "Unregister d \<noteq> dispatch c reply m"
  by (simp_all add: dispatch_def)

text \<open>
  Everything a connection task queues is about its own connection, and once its
  loop has ended the last command, and only the last, is its \<open>Unregister\<close>.
\<close>

lemma connection_commands:
  "(\<forall>cmd \<in> set (fst (handle_connection c reply evs)). cmd_of_conn cmd c) \<and>
   (if \<exists>ev \<in> set evs. ends_loop ev
    then \<exists>cmds. fst (handle_connection c reply evs) = cmds @ [Unregister c] \<and>
           Unregister c \<notin> set cmds
    else Unregister c \<notin> set (fst (handle_connection c reply evs)))"
proof (induction evs)
  case (Cons ev evs)
  show ?case
  proof (cases "ends_loop ev")
    case True
    then show ?thesis by (cases ev) (auto split: sum.splits elim: ends_loop.elims)
  next
    case False
    then consider (inc) m where "ev = Incoming (Inr m)" | (out) m where "ev = Outgoing m True"
      by (cases ev rule: ends_loop.cases) (auto elim: is_ok.elims)
    then show ?thesis
    proof cases
      case inc
      with Cons show ?thesis
        by (auto simp: dispatch_cmd case_prod_beta Let_def)
          (metis append_Cons dispatch_cmd(2) set_ConsD)
    next
      case out
      with Cons show ?thesis by (auto simp: case_prod_beta Let_def)
    qed
  qed
qed simp

lemma connection_commands_witness:
  "\<exists>cmds. fst (handle_connection 3 0 [Outgoing (message_new 1 0 ''a'') True,
       Incoming (Inr (message_new 2 0 ''b'')), Eof]) = cmds @ [Unregister 3] \<and>
     Unregister 3 \<notin> set cmds"
  using conjunct2 [OF connection_commands [of 3 0 "[Outgoing (message_new 1 0 ''a'') True,
      Incoming (Inr (message_new 2 0 ''b'')), Eof]"]]
  by simp

lemma route_no_reply:
  "CallReply reply r \<notin> set (route_direct st env)" "CallReply reply r \<notin> set (route_topics h st env)"
proof -
  have n: "CallReply reply r \<notin> set (send_to st m c)" for m c
    by (auto simp: send_to_def split: option.splits)
  show "CallReply reply r \<notin> set (route_direct st env)"
    by (cases "map_of (services st) (msg_dst (env_msg env))")
      (simp_all add: n route_direct_None route_direct_Some)
  show "CallReply reply r \<notin> set (route_topics h st env)"
    by (auto simp: route_topics_def Let_def n split: if_splits)
qed

lemma cmd_call_reply:
  "CallReply reply r \<in> set (snd (run_broker_cmd h cmd st)) \<Longrightarrow> \<exists>d. r = Inl (ServiceNotFound d)"
  by (cases cmd) (auto simp: route_no_reply Let_def split: option.splits)

text \<open>
  No run of the broker ever answers a call: every reply to a \<open>Call\<close> command,
  whatever services are registered, is the error \<open>ServiceNotFound\<close>, which is what the caller
  waiting on the handle gets.
\<close>

lemma call_always_fails:
  assumes "CallReply reply r \<in> set (snd (run_broker h cmds st))"
  shows "\<exists>d. handle_call_result (Replied r) = Inl (ServiceNotFound d)"
  using assms
proof (induction cmds arbitrary: st)
  case (Cons cmd cmds)
  then show ?case
    by (auto simp: case_prod_beta Let_def handle_call_result_def dest: cmd_call_reply)
qed simp

lemma call_always_fails_witness:
  "\<exists>d. handle_call_result (Replied (Inl (ServiceNotFound ''netmd''))) = Inl (ServiceNotFound d)"
  by (rule call_always_fails [of 4 _ "\<lparr>ord_topics = id, ord_conns = id\<rparr>"
        "[Register 1 ''netmd'' 0, CallCmd (with_dst ''netmd'' (message_new 1 0 ''m'')) 5 4]" broker_init])
    (simp add: with_dst_def message_new_def)

end
