(* ===== verification/StardustBus.thy ===== *)
theory StardustBus
  imports StardustBroker
begin

section \<open>Stardust: the bus as a whole\<close>

text \<open>
  The accept loop of \<open>Broker::run\<close>, the connection tasks, the WebSocket bridge and the broker
  task of \<open>crates/stardust/src/broker.rs\<close> as one step relation that interleaves them, and what
  holds in every reachable state: a connection that is gone is nowhere referred to.
\<close>

subsection \<open>The bus as a whole\<close>

text \<open>
  \<open>bus_accepted\<close> are the connections whose task has not run yet, \<open>bus_live\<close> those whose
  task is in its loop. \<open>bus_accepts\<close> and \<open>bus_directs\<close> count accepted connections and
  handled direct subscriptions; no rule reads them.
\<close>

record bus =
  bus_state :: broker_state
  bus_queue :: "broker_cmd list"
  bus_next :: conn_id
  bus_accepted :: "conn_id set"
  bus_live :: "conn_id set"
  bus_accepts :: nat
  bus_directs :: nat

definition bus_init :: bus where
  "bus_init = \<lparr>bus_state = broker_init, bus_queue = [], bus_next = 0, bus_accepted = {},
     bus_live = {}, bus_accepts = 0, bus_directs = 0\<rparr>"

fun is_direct :: "broker_cmd \<Rightarrow> bool" where
  "is_direct (SubscribeDirect _ _) = True"
| "is_direct _ = False"

fun bridge_cmd :: "broker_cmd \<Rightarrow> bool" where
  "bridge_cmd (SubscribeDirect _ _) = True"
| "bridge_cmd (UnsubscribeDirect _ _) = True"
| "bridge_cmd (RegisterService _) = True"
| "bridge_cmd (Route env) = (env_sender env = 0)"
| "bridge_cmd (CallCmd _ _ _) = True"
| "bridge_cmd _ = False"

inductive bus_step :: "bus_order \<Rightarrow> bus \<Rightarrow> bus \<Rightarrow> bool" for h where
  accept: "bus_step h b (b\<lparr>bus_next := bus_next b + 1,
     bus_accepted := insert (bus_next b) (bus_accepted b), bus_accepts := Suc (bus_accepts b)\<rparr>)"
| connect: "c \<in> bus_accepted b \<Longrightarrow>
     bus_step h b (b\<lparr>bus_accepted := bus_accepted b - {c}, bus_live := insert c (bus_live b),
       bus_state := (bus_state b)\<lparr>connections := AList.update c tx (connections (bus_state b))\<rparr>\<rparr>)"
| incoming: "c \<in> bus_live b \<Longrightarrow>
     bus_step h b (b\<lparr>bus_queue := bus_queue b @ [dispatch c reply msg]\<rparr>)"
| close: "c \<in> bus_live b \<Longrightarrow>
     bus_step h b (b\<lparr>bus_queue := bus_queue b @ [Unregister c], bus_live := bus_live b - {c}\<rparr>)"
| bridge: "bridge_cmd cmd \<Longrightarrow> bus_step h b (b\<lparr>bus_queue := bus_queue b @ [cmd]\<rparr>)"
| broker: "bus_queue b = cmd # q \<Longrightarrow>
     bus_step h b (b\<lparr>bus_queue := q, bus_state := fst (run_broker_cmd h cmd (bus_state b)),
       bus_directs := bus_directs b + (if is_direct cmd then 1 else 0)\<rparr>)"

inductive bus_reachable :: "bus_order \<Rightarrow> bus \<Rightarrow> bool" for h where
  bus_start: "bus_reachable h bus_init"
| bus_more: "bus_reachable h b \<Longrightarrow> bus_step h b b' \<Longrightarrow> bus_reachable h b'"

inductive_cases bus_stepE: "bus_step h b b'"

subsection \<open>Bookkeeping of connection ids\<close>

text \<open>Where a connection id can be referred to, and which queued commands are about it.\<close>

definition mentions :: "broker_state \<Rightarrow> conn_id \<Rightarrow> bool" where
  "mentions st c \<longleftrightarrow>
     (\<exists>n. map_of (services st) n = Some c) \<or>
     (\<exists>t cs. map_of (subscriptions st) t = Some cs \<and> c \<in> set cs) \<or>
     map_of (connections st) c \<noteq> None"

fun adds_conn :: "broker_cmd \<Rightarrow> conn_id option" where
  "adds_conn (Register c _ _) = Some c"
| "adds_conn (Subscribe c _) = Some c"
| "adds_conn (Unsubscribe c _) = Some c"
| "adds_conn (Unregister c) = Some c"
| "adds_conn _ = None"

lemma mentions_step:
  assumes "broker_ok st" "mentions (fst (run_broker_cmd h cmd st)) c"
  shows "mentions st c \<and> cmd \<noteq> Unregister c \<or> adds_conn cmd = Some c \<and> cmd \<noteq> Unregister c \<or>
         (\<exists>n. cmd = RegisterService n) \<and> c = - 1 \<or> is_direct cmd \<and> c = synthetic_id st"
proof (cases cmd)
  case (Unregister d)
  with assms show ?thesis
    by (auto simp: mentions_def unregister_conn_def broker_ok_def hashmap_simps
        map_of_map_snd map_of_filter_value split: if_splits)
qed (use assms in \<open>auto simp: mentions_def hashmap_simps Let_def split: option.splits if_splits\<close>)

lemma length_update_le: "length (AList.update k v m) \<le> Suc (length m)"
  by (induction m) auto

lemma connections_length_step:
  "length (connections (fst (run_broker_cmd h cmd st))) \<le>
     length (connections st) + (if is_direct cmd then 1 else 0)"
  by (cases cmd)
    (auto simp: Let_def unregister_conn_def length_delete_le length_update_le split: option.splits)

text \<open>
  The invariant. The ids handed out are those below \<open>bus_next\<close>; a connection that is only
  accepted has left no trace; one that is live has no \<open>Unregister\<close> queued; one that is
  neither, and still referred to by the broker or a queued command, has an \<open>Unregister\<close>
  queued, and nothing of its own behind it.
\<close>

definition small :: "conn_id \<Rightarrow> bool" where
  "small c \<longleftrightarrow> unat c < 100000"

definition queue_ok :: "broker_cmd list \<Rightarrow> bool" where
  "queue_ok q \<longleftrightarrow> sorted_wrt (\<lambda>a b. \<forall>c. a = Unregister c \<longrightarrow> adds_conn b \<noteq> Some c) q"

definition tracked :: "bus \<Rightarrow> conn_id \<Rightarrow> bool" where
  "tracked b c \<longleftrightarrow> unat c < bus_accepts b \<and> c \<notin> bus_accepted b \<and>
     (c \<in> bus_live b \<or> Unregister c \<in> set (bus_queue b))"

definition counts_inv :: "bus \<Rightarrow> bool" where
  "counts_inv b \<longleftrightarrow>
     bus_next b = of_nat (bus_accepts b) \<and> finite (bus_accepted b) \<and>
     length (connections (bus_state b)) + card (bus_accepted b) \<le> bus_accepts b + bus_directs b \<and>
     bus_accepted b \<inter> bus_live b = {} \<and>
     (\<forall>c \<in> bus_accepted b \<union> bus_live b. unat c < bus_accepts b)"

definition bus_inv :: "bus \<Rightarrow> bool" where
  "bus_inv b \<longleftrightarrow>
     broker_ok (bus_state b) \<and> counts_inv b \<and> queue_ok (bus_queue b) \<and>
     (\<forall>c \<in> bus_live b. Unregister c \<notin> set (bus_queue b)) \<and>
     (\<forall>c. \<forall>cmd \<in> set (bus_queue b). adds_conn cmd = Some c \<longrightarrow> tracked b c) \<and>
     (\<forall>c. small c \<longrightarrow> mentions (bus_state b) c \<longrightarrow> tracked b c)"

definition bus_young :: "bus \<Rightarrow> bool" where
  "bus_young b \<longleftrightarrow> bus_accepts b + bus_directs b \<le> 100000"

lemma bus_inv_init: "bus_inv bus_init"
  using broker_ok_init
  by (simp add: bus_inv_def counts_inv_def bus_init_def queue_ok_def mentions_def broker_init_def)

lemma synthetic_not_small:
  "length (connections st) \<le> 100000 \<Longrightarrow> \<not> small (synthetic_id st)"
  by (simp add: small_def synthetic_id_def unat_word_ariths unat_of_nat take_bit_nat_eq_self)

lemma max_not_small: "\<not> small (- 1)"
  by (simp add: small_def unsigned_minus_1_eq_mask mask_eq_exp_minus_1)

lemma queue_ok_snoc:
  "queue_ok (q @ [cmd]) \<longleftrightarrow>
     queue_ok q \<and> (\<forall>c. Unregister c \<in> set q \<longrightarrow> adds_conn cmd \<noteq> Some c)"
  by (auto simp: queue_ok_def sorted_wrt_append)

lemma adds_conn_dispatch: "adds_conn (dispatch c reply m) \<in> {None, Some c}"
  by (simp add: dispatch_def)

lemma adds_conn_bridge: "bridge_cmd cmd \<Longrightarrow> adds_conn cmd = None"
  by (cases cmd) auto

lemma inv_accept:
  assumes "bus_inv b" "bus_accepts b < 100000"
  shows "bus_inv (b\<lparr>bus_next := bus_next b + 1,
     bus_accepted := insert (bus_next b) (bus_accepted b), bus_accepts := Suc (bus_accepts b)\<rparr>)"
    (is "bus_inv ?b")
proof -
  have inv: "bus_next b = of_nat (bus_accepts b)"
    using assms(1) by (simp add: bus_inv_def counts_inv_def)
  with assms(2) have n: "unat (bus_next b) = bus_accepts b"
    by (simp add: unat_of_nat take_bit_nat_eq_self)
  have fresh: "unat c < bus_accepts b \<Longrightarrow> c \<noteq> bus_next b" for c
    using n by auto
  have tr: "tracked b c \<Longrightarrow> tracked ?b c" for c
    using fresh by (auto simp: tracked_def)
  have "bus_next b \<notin> bus_accepted b" "bus_next b \<notin> bus_live b"
    using assms(1) fresh by (auto simp: bus_inv_def counts_inv_def)
  then have "counts_inv ?b"
    using assms(1) n inv by (auto simp: bus_inv_def counts_inv_def intro: less_SucI)
  with assms(1) tr show ?thesis by (auto simp: bus_inv_def)
qed

lemma inv_connect:
  assumes "bus_inv b" "c \<in> bus_accepted b"
  shows "bus_inv (b\<lparr>bus_accepted := bus_accepted b - {c}, bus_live := insert c (bus_live b),
     bus_state := (bus_state b)\<lparr>connections := AList.update c tx (connections (bus_state b))\<rparr>\<rparr>)"
    (is "bus_inv ?b")
proof -
  have c: "unat c < bus_accepts b" and fin: "finite (bus_accepted b)"
    using assms by (auto simp: bus_inv_def counts_inv_def)
  have nq: "Unregister c \<notin> set (bus_queue b)"
    using assms by (fastforce simp: bus_inv_def tracked_def)
  have tr: "tracked b d \<Longrightarrow> tracked ?b d" for d
    by (auto simp: tracked_def)
  have tc: "tracked ?b c" using c by (simp add: tracked_def)
  have m: "mentions (bus_state ?b) d \<Longrightarrow> d = c \<or> mentions (bus_state b) d" for d
    by (auto simp: mentions_def hashmap_simps split: if_splits)
  have ok: "broker_ok (bus_state ?b)"
    using assms(1) by (simp add: bus_inv_def broker_ok_def)
  have "Suc (card (bus_accepted b - {c})) = card (bus_accepted b)"
    using assms(2) fin by (metis card_Suc_Diff1)
  then have "counts_inv ?b"
    using assms c length_update_le [of c tx "connections (bus_state b)"]
    by (auto simp: bus_inv_def counts_inv_def)
  with assms(1) ok nq tr tc m show ?thesis
    unfolding bus_inv_def by (simp, metis)
qed

lemma inv_enqueue:
  assumes "bus_inv b" "adds_conn cmd = None \<or> (\<exists>c \<in> bus_live b. adds_conn cmd = Some c)"
    and "\<And>c. cmd \<noteq> Unregister c"
  shows "bus_inv (b\<lparr>bus_queue := bus_queue b @ [cmd]\<rparr>)" (is "bus_inv ?b")
proof -
  have live: "\<forall>c \<in> bus_live b. unat c < bus_accepts b \<and> c \<notin> bus_accepted b \<and>
      Unregister c \<notin> set (bus_queue b)"
    using assms(1) by (auto simp: bus_inv_def counts_inv_def)
  then have q: "queue_ok (bus_queue b @ [cmd])"
    using assms by (auto simp: queue_ok_snoc bus_inv_def)
  have tr: "tracked b d \<Longrightarrow> tracked ?b d" for d
    by (auto simp: tracked_def)
  have tl: "d \<in> bus_live b \<Longrightarrow> tracked ?b d" for d
    using live by (simp add: tracked_def)
  have "counts_inv ?b" using assms(1) by (simp add: bus_inv_def counts_inv_def)
  with assms q tr tl show ?thesis by (auto simp: bus_inv_def)
qed

lemma inv_close:
  assumes "bus_inv b" "c \<in> bus_live b"
  shows "bus_inv (b\<lparr>bus_queue := bus_queue b @ [Unregister c], bus_live := bus_live b - {c}\<rparr>)"
    (is "bus_inv ?b")
proof -
  have live: "\<forall>c \<in> bus_live b. unat c < bus_accepts b \<and> c \<notin> bus_accepted b \<and>
      Unregister c \<notin> set (bus_queue b)"
    using assms(1) by (auto simp: bus_inv_def counts_inv_def)
  then have q: "queue_ok (bus_queue b @ [Unregister c])"
    using assms by (auto simp: queue_ok_snoc bus_inv_def)
  have tr: "tracked b d \<Longrightarrow> tracked ?b d" for d
    by (auto simp: tracked_def)
  have tc: "tracked ?b c" using live assms(2) by (simp add: tracked_def)
  have "counts_inv ?b" using assms(1) by (auto simp: bus_inv_def counts_inv_def)
  with assms q tr tc show ?thesis by (auto simp: bus_inv_def)
qed

lemma inv_broker:
  assumes "bus_inv b" "bus_queue b = cmd # q" "bus_young b"
  shows "bus_inv (b\<lparr>bus_queue := q, bus_state := fst (run_broker_cmd h cmd (bus_state b)),
     bus_directs := bus_directs b + (if is_direct cmd then 1 else 0)\<rparr>)" (is "bus_inv ?b")
proof -
  have ok: "broker_ok (bus_state b)" using assms(1) by (simp add: bus_inv_def)
  have len: "length (connections (bus_state b)) \<le> 100000"
    using assms(1,3) by (simp add: bus_inv_def counts_inv_def bus_young_def)
  have behind: "adds_conn a \<noteq> Some c" if "cmd = Unregister c" "a \<in> set q" for a c
    using assms(1,2) that by (auto simp: bus_inv_def queue_ok_def)
  have tr: "tracked ?b c" if "tracked b c" "cmd \<noteq> Unregister c" for c
    using that assms(2) by (auto simp: tracked_def)
  have 1: "tracked ?b c" if "a \<in> set q" "adds_conn a = Some c" for a c
  proof (rule tr)
    show "tracked b c" using assms(1,2) that by (auto simp: bus_inv_def)
    show "cmd \<noteq> Unregister c" using behind that by blast
  qed
  have 2: "tracked ?b c" if "small c" "mentions (bus_state ?b) c" for c
  proof -
    have "mentions (fst (run_broker_cmd h cmd (bus_state b))) c" using that by simp
    from mentions_step [OF ok this] that(1) synthetic_not_small [OF len] max_not_small
    have "cmd \<noteq> Unregister c" and "mentions (bus_state b) c \<or> adds_conn cmd = Some c"
      by auto
    moreover from this(2) have "tracked b c"
      using assms(1,2) that(1) by (auto simp: bus_inv_def)
    ultimately show ?thesis by (intro tr)
  qed
  have "counts_inv ?b"
    using assms(1) connections_length_step [of h cmd "bus_state b"]
    by (auto simp: bus_inv_def counts_inv_def)
  moreover have "queue_ok q" "\<forall>c \<in> bus_live b. Unregister c \<notin> set q"
    using assms(1,2) by (auto simp: bus_inv_def queue_ok_def)
  ultimately show ?thesis
    using broker_ok_step [OF ok, of h cmd] 1 2 by (simp add: bus_inv_def)
qed

lemma bus_step_young: "bus_step h b b' \<Longrightarrow> bus_young b' \<Longrightarrow> bus_young b"
  by (auto simp: bus_young_def elim!: bus_stepE)

lemma bus_step_inv:
  assumes "bus_step h b b'" "bus_inv b" "bus_young b'"
  shows "bus_inv b'"
  using assms(1)
proof cases
  case accept
  with assms show ?thesis by (auto simp: bus_young_def intro: inv_accept)
next
  case (connect c tx)
  with assms show ?thesis by (auto intro: inv_connect)
next
  case (incoming c reply msg)
  have "\<exists>c \<in> bus_live b. adds_conn (dispatch c reply msg) = Some c"
    if "adds_conn (dispatch c reply msg) \<noteq> None"
    using that incoming(2) adds_conn_dispatch [of c reply msg] by auto
  then have "adds_conn (dispatch c reply msg) = None \<or>
      (\<exists>d \<in> bus_live b. adds_conn (dispatch c reply msg) = Some d)"
    using incoming(2) adds_conn_dispatch [of c reply msg] by auto
  with assms(2) incoming(1) show ?thesis
    by (auto simp: dispatch_cmd intro!: inv_enqueue)
next
  case (close c)
  with assms show ?thesis by (auto intro: inv_close)
next
  case (bridge cmd)
  then show ?thesis
    using assms(2) adds_conn_bridge [of cmd] by (auto intro!: inv_enqueue)
next
  case (broker cmd q)
  show ?thesis
    unfolding broker(1)
    by (rule inv_broker [OF assms(2) broker(2) bus_step_young [OF assms(1,3)]])
qed

lemma bus_reachable_inv: "bus_reachable h b \<Longrightarrow> bus_young b \<Longrightarrow> bus_inv b"
proof (induction rule: bus_reachable.induct)
  case bus_start
  show ?case by (rule bus_inv_init)
next
  case (bus_more b b')
  then show ?case by (blast intro: bus_step_inv bus_step_young)
qed

subsection \<open>Properties\<close>

text \<open>
  Property C17. In every reachable state of the bus (up to a hundred thousand connections and
  bridge subscriptions), a connection id that was handed out, whose task has ended and whose
  \<open>Unregister\<close> the broker has handled, is referred to by no service name, no subscription
  and no channel: nothing is routed to a closed connection, in whatever order the accept loop,
  the connection tasks, the bridge and the broker ran.
\<close>

theorem no_dangling_connection:
  assumes "bus_reachable h b" "bus_young b" "unat c < bus_accepts b"
    and "c \<notin> bus_live b" "Unregister c \<notin> set (bus_queue b)"
  shows "\<not> mentions (bus_state b) c"
proof
  assume m: "mentions (bus_state b) c"
  have "small c" using assms(2,3) by (simp add: small_def bus_young_def)
  with m bus_reachable_inv [OF assms(1,2)] have "tracked b c" by (simp add: bus_inv_def)
  with assms(4,5) show False by (simp add: tracked_def)
qed

definition sample_bus :: bus where
  "sample_bus = \<lparr>bus_state = broker_init\<lparr>subscriptions := [(''a'', [])]\<rparr>, bus_queue = [],
     bus_next = 1, bus_accepted = {}, bus_live = {}, bus_accepts = 1, bus_directs = 0\<rparr>"

lemma sample_bus_reachable: "bus_reachable \<lparr>ord_topics = id, ord_conns = id\<rparr> sample_bus"
proof -
  let ?h = "\<lparr>ord_topics = id, ord_conns = id\<rparr>"
  let ?m = "params_raw (bytes_of ''a'') (message_new 1 0 ''__stardust.subscribe'')"
  have "utf8_valid (bytes_of ''a'')"
    by (rule utf8_valid_ascii) (simp add: bytes_of_def)
  then have "from_utf8_lossy (bytes_of ''a'') = ''a''"
    by (simp only: from_utf8_lossy_valid string_of_bytes_of)
  then have cmd: "dispatch 0 9 ?m = Subscribe 0 ''a''"
    by (simp add: dispatch_def params_raw_def message_new_def)
  note r = bus_more [of ?h]
  note 1 = r [OF bus_start bus_step.accept]
  note 2 = r [OF 1 bus_step.connect [where c = 0 and tx = 5]]
  note 3 = r [OF 2 bus_step.incoming [where c = 0 and reply = 9 and msg = ?m]]
  note 4 = r [OF 3 bus_step.close [where c = 0]]
  note 5 = r [OF 4 bus_step.broker [where cmd = "Subscribe 0 ''a''" and q = "[Unregister 0]"]]
  note 6 = r [OF 5 bus_step.broker [where cmd = "Unregister 0" and q = "[]"]]
  show ?thesis
    using 6
    by (simp add: bus_init_def broker_init_def sample_bus_def cmd entry_insert_def
        unregister_conn_def)
qed

theorem no_dangling_connection_witness:
  "unat (0 :: conn_id) < bus_accepts sample_bus \<and> \<not> mentions (bus_state sample_bus) 0"
proof -
  have "bus_young sample_bus" "unat (0 :: conn_id) < bus_accepts sample_bus"
    by (simp_all add: sample_bus_def bus_young_def)
  with no_dangling_connection [OF sample_bus_reachable, of 0] show ?thesis
    by (simp add: sample_bus_def)
qed

definition listens :: "broker_state \<Rightarrow> string \<Rightarrow> chan \<Rightarrow> bool" where
  "listens st t tx \<longleftrightarrow>
     (\<exists>cs. map_of (subscriptions st) t = Some cs \<and>
        (\<exists>c \<in> set cs. map_of (connections st) c = Some tx))"

definition full_bus :: bus where
  "full_bus = \<lparr>bus_state = \<lparr>services = [],
       subscriptions = [(''ui'', [100000]), (''ota'', [100002])],
       connections = [(100000, 10), (100002, 11)], pending_calls = []\<rparr>,
     bus_queue = [SubscribeDirect ''net'' 12], bus_next = 1, bus_accepted = {}, bus_live = {},
     bus_accepts = 1, bus_directs = Suc (Suc 0)\<rparr>"

lemma full_bus_reachable: "bus_reachable h full_bus"
proof -
  note r = bus_more [of h]
  note 1 = r [OF bus_start bus_step.bridge [where cmd = "SubscribeDirect ''ui'' 10"]]
  note 2 = r [OF 1 bus_step.broker [where cmd = "SubscribeDirect ''ui'' 10" and q = "[]"]]
  note 3 = r [OF 2 bus_step.accept]
  note 4 = r [OF 3 bus_step.connect [where c = 0 and tx = 20]]
  note 5 = r [OF 4 bus_step.bridge [where cmd = "SubscribeDirect ''ota'' 11"]]
  note 6 = r [OF 5 bus_step.broker [where cmd = "SubscribeDirect ''ota'' 11" and q = "[]"]]
  note 7 = r [OF 6 bus_step.close [where c = 0]]
  note 8 = r [OF 7 bus_step.broker [where cmd = "Unregister 0" and q = "[]"]]
  note 9 = r [OF 8 bus_step.bridge [where cmd = "SubscribeDirect ''net'' 12"]]
  show ?thesis
    using 9
    by (simp add: bus_init_def broker_init_def full_bus_def entry_insert_def
        unregister_conn_def synthetic_id_def Let_def)
qed

text \<open>
  Direct subscriptions can take each other's connection id: there is a reachable
  state of the bus whose next step, a third bridge subscription made after a Unix client has
  left, overwrites the channel of the second. From then on the second subscriber gets nothing
  and the third gets the messages of the second's topic, which it never asked for.
\<close>

lemma direct_subscription_collision:
  "\<exists>b b'. bus_reachable h b \<and> bus_step h b b' \<and> bus_queue b = [SubscribeDirect ''net'' 12] \<and>
     listens (bus_state b) ''ota'' 11 \<and> \<not> listens (bus_state b') ''ota'' 11 \<and>
     \<not> listens (bus_state b) ''ota'' 12 \<and> listens (bus_state b') ''ota'' 12"
proof -
  have "bus_queue full_bus = SubscribeDirect ''net'' 12 # []"
    by (simp add: full_bus_def)
  note step = bus_step.broker [OF this, of h]
  show ?thesis
    by (rule exI, rule exI, rule conjI [OF full_bus_reachable], rule conjI [OF step])
      (simp add: full_bus_def listens_def entry_insert_def synthetic_id_def Let_def)
qed

end
