(* ===== verification/StardustMain.thy ===== *)
theory StardustMain
  imports StardustBus
begin

section \<open>Stardust: the start of the daemon\<close>

text \<open>
  \<open>crates/stardust/src/main.rs\<close> and the head of \<open>Broker::run\<close> in \<open>broker.rs\<close>: the options, the
  socket, the bridge. What the start does is a list of operations; whether the socket can be
  bound is a parameter. Parsing the command line (crate clap) gives the options.
\<close>

record stardustd_args =
  sa_socket :: string
  sa_ws_addr :: "string option"

definition stardustd_default_args :: stardustd_args where
  "stardustd_default_args = \<lparr>sa_socket = ''/run/uos/bus.sock'', sa_ws_addr = None\<rparr>"

record broker_options =
  bo_socket_path :: string
  bo_ws_addr :: "string option"

definition broker_new :: "string \<Rightarrow> broker_options" where
  "broker_new socket_path = \<lparr>bo_socket_path = socket_path, bo_ws_addr = None\<rparr>"

definition with_ws :: "string \<Rightarrow> broker_options \<Rightarrow> broker_options" where
  "with_ws addr b = b\<lparr>bo_ws_addr := Some addr\<rparr>"

datatype start_op =
    MakeDirs string
  | RemoveSocket string
  | BindSocket string
  | SpawnBroker
  | SpawnWsServer string
  | AcceptConnections

text \<open>
  \<open>run\<close>: the error of a bind that fails, or the bus whose accept loop is entered; the loop does
  not end (theory \<open>StardustBus\<close>).
\<close>

definition broker_run :: "(string \<Rightarrow> bool) \<Rightarrow> broker_options \<Rightarrow> (stardust_error + bus) \<times> start_op list" where
  "broker_run binds b =
     (let ops = [RemoveSocket (bo_socket_path b), BindSocket (bo_socket_path b)]
      in if \<not> binds (bo_socket_path b) then (Inl Io, ops)
         else (Inr bus_init,
               ops @ [SpawnBroker] @
               (case bo_ws_addr b of None \<Rightarrow> [] | Some addr \<Rightarrow> [SpawnWsServer addr]) @ [AcceptConnections]))"

text \<open>The exit code, if the daemon ends at all, and what it has done.\<close>

definition stardustd_main :: "(string \<Rightarrow> bool) \<Rightarrow> stardustd_args \<Rightarrow> nat option \<times> start_op list" where
  "stardustd_main binds args =
     (let pre = (case path_parent (sa_socket args) of None \<Rightarrow> [] | Some d \<Rightarrow> [MakeDirs d]);
          broker = broker_new (sa_socket args);
          broker' = (case sa_ws_addr args of None \<Rightarrow> broker | Some ws \<Rightarrow> with_ws ws broker)
      in case broker_run binds broker' of
           (Inl _, ops) \<Rightarrow> (Some 1, pre @ ops)
         | (Inr _, ops) \<Rightarrow> (None, pre @ ops))"

lemma stardustd_ends_iff: "fst (stardustd_main binds args) = (if binds (sa_socket args) then None else Some 1)"
  by (simp add: stardustd_main_def broker_run_def broker_new_def with_ws_def Let_def split: option.split)

text \<open>
  The bridge is started exactly when it was asked for and the socket is bound, and never before
  the task that handles its commands; a stale socket is removed before the bind.
\<close>

lemma stardustd_bridge:
  "SpawnWsServer addr \<in> set (snd (stardustd_main binds args)) \<longleftrightarrow>
     sa_ws_addr args = Some addr \<and> binds (sa_socket args)"
  by (auto simp: stardustd_main_def broker_run_def broker_new_def with_ws_def Let_def split: option.split)

lemma stardustd_order:
  "\<exists>pre ws. snd (stardustd_main binds args) =
     pre @ [RemoveSocket (sa_socket args), BindSocket (sa_socket args)] @
     (if binds (sa_socket args) then SpawnBroker # ws @ [AcceptConnections] else [])"
proof -
  let ?pre = "case path_parent (sa_socket args) of None \<Rightarrow> [] | Some d \<Rightarrow> [MakeDirs d]"
  let ?ws = "case sa_ws_addr args of None \<Rightarrow> [] | Some addr \<Rightarrow> [SpawnWsServer addr]"
  have "snd (stardustd_main binds args) =
      ?pre @ [RemoveSocket (sa_socket args), BindSocket (sa_socket args)] @
      (if binds (sa_socket args) then SpawnBroker # ?ws @ [AcceptConnections] else [])"
    by (simp add: stardustd_main_def broker_run_def broker_new_def with_ws_def Let_def split: option.split)
  then show ?thesis by blast
qed

end
