(* ===== verification/StardustClient.thy ===== *)
theory StardustClient
  imports StardustBroker
begin

section \<open>Stardust: the client library\<close>

text \<open>
  \<open>crates/stardust/src/client.rs\<close>: what a service's client shares between its clones (the
  queue to the broker, the pending calls, the service name, the subscribers), its operations,
  and the handling of an incoming message by the I/O task. Channels are numbers; identifiers
  and times of new messages are arguments. \<open>serde_json::to_vec\<close> of a string and the CBOR
  reader of a response are parameters. A queue whose I/O task has ended is closed.
\<close>

record client =
  cl_open :: bool
  cl_queue :: "message list"
  cl_pending :: "(uuid, chan) hashmap"
  cl_service_name :: "string option"
  cl_subscribers :: "(string, chan list) hashmap"

definition client_connected :: client where
  "client_connected =
     \<lparr>cl_open = True, cl_queue = [], cl_pending = [], cl_service_name = None, cl_subscribers = []\<rparr>"

definition client_send :: "message \<Rightarrow> client \<Rightarrow> (stardust_error + unit) \<times> client" where
  "client_send msg c =
     (if cl_open c then (Inr (), c\<lparr>cl_queue := cl_queue c @ [msg]\<rparr>) else (Inl ConnectionClosed, c))"

definition name_or_default :: "client \<Rightarrow> string" where
  "name_or_default c = (case cl_service_name c of None \<Rightarrow> [] | Some n \<Rightarrow> n)"

definition client_register ::
  "(string \<Rightarrow> bytes option) \<Rightarrow> uuid \<Rightarrow> u64 \<Rightarrow> string \<Rightarrow> client \<Rightarrow> (stardust_error + unit) \<times> client" where
  "client_register to_json uid now name c =
     (case to_json name of
        None \<Rightarrow> (Inl Json, c)
      | Some cbor \<Rightarrow>
          (case client_send (params_raw cbor (with_src name (message_new uid now ''__stardust.register''))) c of
             (Inl e, c1) \<Rightarrow> (Inl e, c1)
           | (Inr _, c1) \<Rightarrow> (Inr (), c1\<lparr>cl_service_name := Some name\<rparr>)))"

definition client_publish :: "message \<Rightarrow> client \<Rightarrow> (stardust_error + unit) \<times> client" where
  "client_publish msg c = client_send msg c"

definition client_subscribe ::
  "(string \<Rightarrow> bytes option) \<Rightarrow> uuid \<Rightarrow> u64 \<Rightarrow> string \<Rightarrow> chan \<Rightarrow> client \<Rightarrow>
   (stardust_error + chan) \<times> client" where
  "client_subscribe to_json uid now topic tx c =
     (case to_json topic of
        None \<Rightarrow> (Inl Json, c)
      | Some cbor \<Rightarrow>
          (case client_send (params_raw cbor
                  (with_src (name_or_default c) (message_new uid now ''__stardust.subscribe''))) c of
             (Inl e, c1) \<Rightarrow> (Inl e, c1)
           | (Inr _, c1) \<Rightarrow>
               (Inr tx, c1\<lparr>cl_subscribers :=
                  AList.update topic ((case map_of (cl_subscribers c1) topic of None \<Rightarrow> [] | Some txs \<Rightarrow> txs) @ [tx])
                    (cl_subscribers c1)\<rparr>)))"

definition client_unsubscribe ::
  "(string \<Rightarrow> bytes option) \<Rightarrow> uuid \<Rightarrow> u64 \<Rightarrow> string \<Rightarrow> client \<Rightarrow> (stardust_error + unit) \<times> client" where
  "client_unsubscribe to_json uid now topic c =
     (case to_json topic of
        None \<Rightarrow> (Inl Json, c)
      | Some cbor \<Rightarrow>
          (case client_send (params_raw cbor
                  (with_src (name_or_default c) (message_new uid now ''__stardust.unsubscribe''))) c of
             (Inl e, c1) \<Rightarrow> (Inl e, c1)
           | (Inr _, c1) \<Rightarrow> (Inr (), c1\<lparr>cl_subscribers := AList.delete topic (cl_subscribers c1)\<rparr>)))"

text \<open>
  A call, up to the wait: the sender of the answer is stored before the message is queued.
  Afterwards comes what the wait gave.
\<close>

definition client_call ::
  "bytes option \<Rightarrow> uuid \<Rightarrow> u64 \<Rightarrow> string \<Rightarrow> chan \<Rightarrow> client \<Rightarrow> (stardust_error + unit) \<times> client" where
  "client_call params uid now method tx c =
     (case params of
        None \<Rightarrow> (Inl Json, c)
      | Some raw \<Rightarrow>
          client_send (params_raw raw (with_src (name_or_default c) (message_new uid now method)))
            (c\<lparr>cl_pending := AList.update uid tx (cl_pending c)\<rparr>))"

definition client_call_result ::
  "uuid \<Rightarrow> response reply_wait \<Rightarrow> client \<Rightarrow> (stardust_error + bytes) \<times> client" where
  "client_call_result uid w c =
     (case w of
        Replied r \<Rightarrow> (case resp_result r of Inl e \<Rightarrow> (Inl (BrokerError e), c) | Inr b \<Rightarrow> (Inr b, c))
      | SenderDropped \<Rightarrow> (Inl (NoResponse uid), c)
      | TimedOut \<Rightarrow> (Inl (Timeout uid), c\<lparr>cl_pending := AList.delete uid (cl_pending c)\<rparr>))"

definition client_call_typed :: "(bytes \<Rightarrow> 'r option) \<Rightarrow> stardust_error + bytes \<Rightarrow> stardust_error + 'r" where
  "client_call_typed from_json r =
     (case r of Inl e \<Rightarrow> Inl e | Inr raw \<Rightarrow> (case from_json raw of None \<Rightarrow> Inl Json | Some x \<Rightarrow> Inr x))"

subsection \<open>Incoming messages\<close>

datatype client_out = Respond chan response | Hand chan message

definition response_of :: "(bytes \<Rightarrow> bytes option) \<Rightarrow> message \<Rightarrow> response" where
  "response_of from_cbor msg =
     (case from_cbor (msg_params msg) of
        Some result \<Rightarrow> \<lparr>correlation_id = msg_id msg, resp_result = Inr result\<rparr>
      | None \<Rightarrow> \<lparr>correlation_id = msg_id msg,
                 resp_result = Inl (''Failed to parse response: '' @ from_utf8_lossy (msg_params msg))\<rparr>)"

definition client_incoming ::
  "(bytes \<Rightarrow> bytes option) \<Rightarrow> (string list \<Rightarrow> string list) \<Rightarrow> message \<Rightarrow> client \<Rightarrow>
   client \<times> client_out list" where
  "client_incoming from_cbor ord msg c =
     (case map_of (cl_pending c) (msg_id msg) of
        Some tx \<Rightarrow>
          (c\<lparr>cl_pending := AList.delete (msg_id msg) (cl_pending c)\<rparr>, [Respond tx (response_of from_cbor msg)])
      | None \<Rightarrow>
          (c, concat (map (\<lambda>(pattern, senders).
                if matches_topic msg pattern then map (\<lambda>tx. Hand tx msg) senders else [])
              (iter_entries ord (cl_subscribers c)))))"

text \<open>\<open>Drop\<close>: one unsubscription per topic; identifiers and times come in a list.\<close>

fun drop_topics ::
  "(string \<Rightarrow> bytes option) \<Rightarrow> (uuid \<times> u64) list \<Rightarrow> string list \<Rightarrow> client \<Rightarrow> client" where
  "drop_topics to_json stamps [] c = c"
| "drop_topics to_json [] (t # ts) c = c"
| "drop_topics to_json ((uid, now) # stamps) (t # ts) c =
     (case to_json t of
        None \<Rightarrow> drop_topics to_json stamps ts c
      | Some cbor \<Rightarrow>
          drop_topics to_json stamps ts
            (snd (client_send (params_raw cbor (message_new uid now ''__stardust.unsubscribe'')) c)))"

definition client_drop ::
  "(string \<Rightarrow> bytes option) \<Rightarrow> (string list \<Rightarrow> string list) \<Rightarrow> (uuid \<times> u64) list \<Rightarrow> client \<Rightarrow> client" where
  "client_drop to_json ord stamps c = drop_topics to_json stamps (ord (keys (cl_subscribers c))) c"

subsection \<open>Calls\<close>

text \<open>A call that times out leaves the pending calls as they were, one that cannot be sent does not.\<close>

lemma call_timeout_restores:
  assumes "client_call params uid now hm tx c = (Inr u, c1)" "map_of (cl_pending c) uid = None"
    and "client_call_result uid TimedOut c1 = (r, c2)"
  shows "map_of (cl_pending c2) = map_of (cl_pending c)"
  using assms
  by (auto simp: client_call_def client_send_def client_call_result_def hashmap_simps fun_eq_iff
      split: option.splits if_splits)

lemma unsent_call_stays_pending:
  assumes "\<not> cl_open c"
  shows "\<exists>c'. client_call (Some raw) uid now hm tx c = (Inl ConnectionClosed, c') \<and>
    map_of (cl_pending c') uid = Some tx"
  using assms by (simp add: client_call_def client_send_def hashmap_simps)

lemma response_answers_once:
  assumes "map_of (cl_pending c) (msg_id msg) = Some tx" "client_incoming from_cbor ord msg c = (c', out)"
  shows "out = [Respond tx (response_of from_cbor msg)] \<and> map_of (cl_pending c') (msg_id msg) = None"
  using assms by (auto simp: client_incoming_def hashmap_simps)

subsection \<open>Subscriptions of a client at the broker\<close>

text \<open>What JSON guarantees about the text of a string: it begins with a quotation mark.\<close>

definition json_quotes :: "(string \<Rightarrow> bytes option) \<Rightarrow> bool" where
  "json_quotes to_json \<longleftrightarrow> (\<forall>s b. to_json s = Some b \<longrightarrow> b \<noteq> [] \<and> hd b = 0x22)"

lemma lossy_quote: "from_utf8_lossy (0x22 # r) = CHR 0x22 # from_utf8_lossy r"
proof -
  have "(char_of (34 :: nat) :: char) = CHR 0x22" by code_simp
  then show ?thesis by (simp add: utf8_chunk_def string_of_def)
qed

lemma quoted_never_matches:
  assumes "matches_topic m (CHR 0x22 # t)"
  shows "msg_method m \<noteq> [] \<and> hd (msg_method m) = CHR 0x22"
proof (cases "strip_suffix (CHR 0x22 # t) ''.*''")
  case None
  with assms show ?thesis by (simp add: matches_topic_def)
next
  case (Some pre)
  then have eq: "CHR 0x22 # t = pre @ ''.*''"
    by (simp only: strip_suffix_Some_iff)
  then obtain q where "pre = CHR 0x22 # q"
    by (cases pre) auto
  with assms Some show ?thesis
    by (auto simp: matches_topic_def starts_with_iff)
qed

lemma filter_update_unmatched:
  "\<not> P t \<Longrightarrow> length (filter (\<lambda>p. P (fst p) \<and> Q (snd p)) (AList.update t v m)) =
     length (filter (\<lambda>p. P (fst p) \<and> Q (snd p)) m)"
  by (induction m) auto

text \<open>
  The client library and the broker do not agree on the text of a topic: the client
  sends it as JSON, in quotation marks, the broker takes the bytes as they are. So after a
  client's subscription every connection is owed exactly the copies it was owed before, for
  every message whose method does not begin with a quotation mark: the subscription brings
  nothing.
\<close>

lemma client_subscription_brings_nothing:
  assumes "json_quotes to_json"
    and "client_subscribe to_json uid now topic tx c = (Inr tx', c')"
    and "msg_method (env_msg env) = [] \<or> hd (msg_method (env_msg env)) \<noteq> CHR 0x22"
  shows "copies_owed (fst (run_broker_cmd h (dispatch cid reply (last (cl_queue c'))) st)) env d =
    copies_owed st env d"
proof -
  obtain b where b: "to_json topic = Some b" "last (cl_queue c') =
      params_raw b (with_src (name_or_default c) (message_new uid now ''__stardust.subscribe''))"
    using assms(2) by (auto simp: client_subscribe_def client_send_def split: option.splits if_splits)
  with assms(1) obtain r where "b = 0x22 # r"
    unfolding json_quotes_def by (metis list.collapse)
  with b(2) have cmd: "dispatch cid reply (last (cl_queue c')) =
      Subscribe cid (CHR 0x22 # from_utf8_lossy r)"
    by (simp add: dispatch_def params_raw_def with_src_def message_new_def lossy_quote
        del: from_utf8_lossy.simps)
  have "\<not> matches_topic (env_msg env) (CHR 0x22 # from_utf8_lossy r)"
    using quoted_never_matches assms(3) by blast
  then show ?thesis
    unfolding cmd by (simp add: copies_owed_def entry_insert_def filter_update_unmatched
        [where P = "matches_topic (env_msg env)" and Q = "\<lambda>cs. d \<in> set cs"] del: from_utf8_lossy.simps)
qed

text \<open>The quoted text of a string without characters to escape.\<close>

definition plain_json :: "string \<Rightarrow> bytes option" where
  "plain_json s = Some (0x22 # bytes_of s @ [0x22])"

lemma client_subscription_brings_nothing_witness:
  "let (r, c) = client_subscribe plain_json 1 0 ''audio.*'' 5 client_connected;
       st = broker_init\<lparr>connections := [(7, 3)]\<rparr>;
       st' = fst (run_broker_cmd \<lparr>ord_topics = id, ord_conns = id\<rparr> (dispatch 7 0 (last (cl_queue c))) st)
   in r = Inr 5 \<and>
      copies_owed st' \<lparr>env_msg = message_new 2 0 ''audio.command'', env_sender = 8\<rparr> 7 = 0"
proof -
  obtain r c where sub: "client_subscribe plain_json 1 0 ''audio.*'' 5 client_connected = (r, c)"
    by force
  then have r: "r = Inr 5"
    by (simp add: client_subscribe_def plain_json_def client_send_def client_connected_def)
  have jq: "json_quotes plain_json" by (simp add: json_quotes_def plain_json_def)
  let ?env = "\<lparr>env_msg = message_new 2 0 ''audio.command'', env_sender = 8\<rparr>"
  let ?st = "broker_init\<lparr>connections := [(7, 3)]\<rparr>"
  have "copies_owed (fst (run_broker_cmd \<lparr>ord_topics = id, ord_conns = id\<rparr>
      (dispatch 7 0 (last (cl_queue c))) ?st)) ?env 7 = copies_owed ?st ?env 7"
    by (rule client_subscription_brings_nothing [OF jq sub [unfolded r]]) (simp add: message_new_def)
  also have "\<dots> = 0"
    by (simp add: copies_owed_def broker_init_def message_new_def)
  finally show ?thesis
    unfolding sub Let_def case_prod_conv r by (intro conjI refl)
qed

text \<open>
  A client is cloned freely (every daemon hands clones to its tasks), and all clones share the
  subscribers: dropping any one of them unsubscribes every topic of the others at the broker.
\<close>

lemma drop_of_clone_unsubscribes:
  assumes "cl_open c" "cl_subscribers c = [(t, txs)]" "to_json t = Some b"
  shows "cl_queue (client_drop to_json id [(uid, now)] c) =
    cl_queue c @ [params_raw b (message_new uid now ''__stardust.unsubscribe'')]"
  using assms by (simp add: client_drop_def keys_def client_send_def)

end
