(* ===== verification/StardustSystem.thy ===== *)
theory StardustSystem
  imports StardustBus StardustClient
begin

section \<open>Stardust: clients, wire and bus together\<close>

text \<open>
  The bus of theory \<open>StardustBus\<close> with the client library (\<open>crates/stardust/src/client.rs\<close>) at
  the other end of every Unix connection and the frames of \<open>codec.rs\<close> in between: bytes are
  written by whole frames and read in pieces of any length. A program behind a client calls the
  operations of the library in any order.

  Channels are numbers. That of the task of connection \<open>c\<close> is \<open>conn_chan c\<close>, which is even;
  those the bridge creates are odd.
\<close>

subsection \<open>What a program does with its client\<close>

datatype client_request =
    OpRegister uuid u64 string
  | OpPublish message
  | OpSubscribe uuid u64 string chan
  | OpUnsubscribe uuid u64 string
  | OpCall "bytes option" uuid u64 string chan
  | OpCallEnds uuid "response reply_wait"
  | OpDrop "(uuid \<times> u64) list"

definition client_op ::
  "(string \<Rightarrow> bytes option) \<Rightarrow> (string list \<Rightarrow> string list) \<Rightarrow> client_request \<Rightarrow> client \<Rightarrow> client" where
  "client_op to_json ord oper c =
     (case oper of
        OpRegister uid now name \<Rightarrow> snd (client_register to_json uid now name c)
      | OpPublish msg \<Rightarrow> snd (client_publish msg c)
      | OpSubscribe uid now topic tx \<Rightarrow> snd (client_subscribe to_json uid now topic tx c)
      | OpUnsubscribe uid now topic \<Rightarrow> snd (client_unsubscribe to_json uid now topic c)
      | OpCall params uid now hm tx \<Rightarrow> snd (client_call params uid now hm tx c)
      | OpCallEnds uid w \<Rightarrow> snd (client_call_result uid w c)
      | OpDrop stamps \<Rightarrow> client_drop to_json ord stamps c)"

text \<open>
  What the services write themselves: a method and a destination that do not begin with a
  quotation mark, and no control message by hand.
\<close>

definition quote_led :: "string \<Rightarrow> bool" where
  "quote_led s \<longleftrightarrow> s \<noteq> [] \<and> hd s = CHR 0x22"

definition control :: "string \<Rightarrow> bool" where
  "control hm \<longleftrightarrow> hm \<in> {''__stardust.register'', ''__stardust.subscribe'', ''__stardust.unsubscribe''}"

definition plain_message :: "message \<Rightarrow> bool" where
  "plain_message m \<longleftrightarrow> \<not> quote_led (msg_method m) \<and> \<not> quote_led (msg_dst m)"

fun plain_op :: "client_request \<Rightarrow> bool" where
  "plain_op (OpPublish msg) = (plain_message msg \<and> \<not> control (msg_method msg))"
| "plain_op (OpCall _ _ _ hm _) = (\<not> quote_led hm \<and> \<not> control hm)"
| "plain_op _ = True"

fun plain_bridge :: "broker_cmd \<Rightarrow> bool" where
  "plain_bridge (SubscribeDirect _ tx) = odd tx"
| "plain_bridge (Route env) = plain_message (env_msg env)"
| "plain_bridge _ = True"

subsection \<open>The system\<close>

text \<open>
  For every connection: the client at its far end, the bytes under way in each direction, the
  two read buffers; for every channel the messages in it; and what the clients' I/O tasks have
  handed out. \<open>sys_sent\<close> and \<open>sys_got\<close> record what a client has queued and what the connection's
  task has read of it; no rule reads them.
\<close>

record system =
  sys_bus :: bus
  sys_client :: "conn_id \<Rightarrow> client"
  sys_up :: "conn_id \<Rightarrow> bytes"
  sys_up_buf :: "conn_id \<Rightarrow> bytes"
  sys_down :: "conn_id \<Rightarrow> bytes"
  sys_down_buf :: "conn_id \<Rightarrow> bytes"
  sys_inbox :: "chan \<Rightarrow> message list"
  sys_heard :: "(conn_id \<times> client_out) list"
  sys_sent :: "conn_id \<Rightarrow> message list"
  sys_got :: "conn_id \<Rightarrow> message list"

record wire =
  wi_to_json :: "string \<Rightarrow> bytes option"
  wi_into_cbor :: "message \<Rightarrow> bytes option"
  wi_from_cbor :: "bytes \<Rightarrow> message option"
  wi_result_cbor :: "bytes \<Rightarrow> bytes option"
  wi_ord :: "string list \<Rightarrow> string list"

definition conn_chan :: "conn_id \<Rightarrow> chan" where
  "conn_chan c = 2 * unat c"

definition sys_init :: system where
  "sys_init =
     \<lparr>sys_bus = bus_init, sys_client = \<lambda>_. client_connected, sys_up = \<lambda>_. [], sys_up_buf = \<lambda>_. [],
      sys_down = \<lambda>_. [], sys_down_buf = \<lambda>_. [], sys_inbox = \<lambda>_. [], sys_heard = [],
      sys_sent = \<lambda>_. [], sys_got = \<lambda>_. []\<rparr>"

fun deliver :: "broker_out list \<Rightarrow> (chan \<Rightarrow> message list) \<Rightarrow> chan \<Rightarrow> message list" where
  "deliver [] inbox = inbox"
| "deliver (Deliver tx m # out) inbox = deliver out (inbox(tx := inbox tx @ [m]))"
| "deliver (_ # out) inbox = deliver out inbox"

inductive sys_step :: "bus_order \<Rightarrow> wire \<Rightarrow> system \<Rightarrow> system \<Rightarrow> bool" for h w where
  sys_accept:
    "b = sys_bus s \<Longrightarrow>
     sys_step h w s (s\<lparr>sys_bus := b\<lparr>bus_next := bus_next b + 1,
       bus_accepted := insert (bus_next b) (bus_accepted b), bus_accepts := Suc (bus_accepts b)\<rparr>\<rparr>)"
| sys_connect:
    "b = sys_bus s \<Longrightarrow> c \<in> bus_accepted b \<Longrightarrow>
     sys_step h w s (s\<lparr>sys_bus := b\<lparr>bus_accepted := bus_accepted b - {c},
       bus_live := insert c (bus_live b), bus_state := (bus_state b)
         \<lparr>connections := AList.update c (conn_chan c) (connections (bus_state b))\<rparr>\<rparr>\<rparr>)"
| sys_program:
    "plain_op oper \<Longrightarrow> cl = client_op (wi_to_json w) (wi_ord w) oper (sys_client s c) \<Longrightarrow>
     sys_step h w s (s\<lparr>sys_client := (sys_client s)(c := cl),
       sys_sent := (sys_sent s)
         (c := sys_sent s c @ drop (length (cl_queue (sys_client s c))) (cl_queue cl))\<rparr>)"
| sys_write:
    "cl_open (sys_client s c) \<Longrightarrow> cl_queue (sys_client s c) = m # q \<Longrightarrow>
     encode (wi_into_cbor w) m (sys_up s c) = Inr up \<Longrightarrow>
     sys_step h w s (s\<lparr>sys_client := (sys_client s)(c := (sys_client s c)\<lparr>cl_queue := q\<rparr>),
       sys_up := (sys_up s)(c := up)\<rparr>)"
| sys_client_ends:
    "sys_step h w s (s\<lparr>sys_client := (sys_client s)(c := (sys_client s c)\<lparr>cl_open := False\<rparr>)\<rparr>)"
| sys_read:
    "sys_step h w s (s\<lparr>sys_up_buf := (sys_up_buf s)(c := sys_up_buf s c @ take n (sys_up s c)),
       sys_up := (sys_up s)(c := drop n (sys_up s c))\<rparr>)"
| sys_incoming:
    "b = sys_bus s \<Longrightarrow> c \<in> bus_live b \<Longrightarrow>
     decode (wi_from_cbor w) (sys_up_buf s c) = (Inr (Some m), rest) \<Longrightarrow>
     sys_step h w s (s\<lparr>sys_bus := b\<lparr>bus_queue := bus_queue b @ [dispatch c reply m]\<rparr>,
       sys_up_buf := (sys_up_buf s)(c := rest), sys_got := (sys_got s)(c := sys_got s c @ [m])\<rparr>)"
| sys_close:
    "b = sys_bus s \<Longrightarrow> c \<in> bus_live b \<Longrightarrow>
     sys_step h w s (s\<lparr>sys_bus := b\<lparr>bus_queue := bus_queue b @ [Unregister c],
       bus_live := bus_live b - {c}\<rparr>\<rparr>)"
| sys_bridge:
    "b = sys_bus s \<Longrightarrow> bridge_cmd cmd \<Longrightarrow> plain_bridge cmd \<Longrightarrow>
     sys_step h w s (s\<lparr>sys_bus := b\<lparr>bus_queue := bus_queue b @ [cmd]\<rparr>\<rparr>)"
| sys_broker:
    "b = sys_bus s \<Longrightarrow> bus_queue b = cmd # q \<Longrightarrow> run_broker_cmd h cmd (bus_state b) = (st, out) \<Longrightarrow>
     sys_step h w s (s\<lparr>sys_bus := b\<lparr>bus_queue := q, bus_state := st,
         bus_directs := bus_directs b + (if is_direct cmd then 1 else 0)\<rparr>,
       sys_inbox := deliver out (sys_inbox s)\<rparr>)"
| sys_forward:
    "c \<in> bus_live (sys_bus s) \<Longrightarrow> sys_inbox s (conn_chan c) = m # ms \<Longrightarrow>
     encode (wi_into_cbor w) m (sys_down s c) = Inr down \<Longrightarrow>
     sys_step h w s (s\<lparr>sys_inbox := (sys_inbox s)(conn_chan c := ms),
       sys_down := (sys_down s)(c := down)\<rparr>)"
| sys_client_read:
    "sys_step h w s (s\<lparr>sys_down_buf := (sys_down_buf s)(c := sys_down_buf s c @ take n (sys_down s c)),
       sys_down := (sys_down s)(c := drop n (sys_down s c))\<rparr>)"
| sys_hear:
    "cl_open (sys_client s c) \<Longrightarrow>
     decode (wi_from_cbor w) (sys_down_buf s c) = (Inr (Some m), rest) \<Longrightarrow>
     client_incoming (wi_result_cbor w) (wi_ord w) m (sys_client s c) = (cl, out) \<Longrightarrow>
     sys_step h w s (s\<lparr>sys_client := (sys_client s)(c := cl), sys_down_buf := (sys_down_buf s)(c := rest),
       sys_heard := sys_heard s @ map (Pair c) out\<rparr>)"

inductive sys_reachable :: "bus_order \<Rightarrow> wire \<Rightarrow> system \<Rightarrow> bool" for h w where
  sys_start: "sys_reachable h w sys_init"
| sys_more: "sys_reachable h w s \<Longrightarrow> sys_step h w s s' \<Longrightarrow> sys_reachable h w s'"

inductive_cases sys_stepE: "sys_step h w s s'"

text \<open>Every step of the system is a step of the bus or leaves the bus alone.\<close>

lemma sys_step_bus:
  assumes "sys_step h w s s'"
  shows "bus_step h (sys_bus s) (sys_bus s') \<or> sys_bus s' = sys_bus s"
  using assms
proof cases
  case (sys_broker b cmd q st out)
  then show ?thesis
    using bus_step.broker [of b cmd q h] by simp
qed (auto intro: bus_step.intros)

lemma sys_reachable_bus: "sys_reachable h w s \<Longrightarrow> bus_reachable h (sys_bus s)"
proof (induction rule: sys_reachable.induct)
  case sys_start
  show ?case by (simp add: sys_init_def bus_start)
next
  case (sys_more s s')
  then show ?case using sys_step_bus [OF sys_more(2)] by (auto intro: bus_more)
qed


subsection \<open>The wire keeps the order\<close>

text \<open>
  The bytes of a connection are the frames of the messages under way, in their order, and stay
  so while they are read in pieces.
\<close>

definition stream :: "wire \<Rightarrow> message list \<Rightarrow> bytes \<Rightarrow> bool" where
  "stream w ms bytes \<longleftrightarrow>
     (\<exists>ps. bytes = concat (map put_frame ps) \<and> (\<forall>p \<in> set ps. length p < 2 ^ 32) \<and>
        map (wi_from_cbor w) ps = map Some ms)"

definition cbor_ok :: "wire \<Rightarrow> bool" where
  "cbor_ok w \<longleftrightarrow> (\<forall>m. cbor_roundtrip (wi_into_cbor w) (wi_from_cbor w) m)"

lemma stream_Nil [simp]: "stream w [] []"
  unfolding stream_def by (rule exI [of _ "[]"]) simp

lemma stream_encode:
  assumes "cbor_ok w" "stream w ms (buf @ up)" "encode (wi_into_cbor w) m up = Inr up'"
  shows "stream w (ms @ [m]) (buf @ up')"
proof -
  from assms(3) obtain p where p: "wi_into_cbor w m = Some p" "up' = up @ put_frame p"
    by (auto simp: encode_def split: option.splits)
  with assms(1) have "wi_from_cbor w p = Some m" "length p < 2 ^ 32"
    by (auto simp: cbor_ok_def cbor_roundtrip_def)
  moreover from assms(2) obtain ps where "buf @ up = concat (map put_frame ps)"
      "\<forall>p \<in> set ps. length p < 2 ^ 32" "map (wi_from_cbor w) ps = map Some ms"
    by (auto simp: stream_def)
  ultimately show ?thesis
    unfolding stream_def p(2) by (intro exI [of _ "ps @ [p]"]) auto
qed

lemma stream_decode:
  assumes "stream w ms (buf @ up)" "decode (wi_from_cbor w) buf = (Inr (Some m), rest)"
  obtains ms' where "ms = m # ms'" "stream w ms' (rest @ up)"
proof -
  from assms(2) obtain p where p: "split_frame buf = Some (p, rest)" "wi_from_cbor w p = Some m"
    by (auto simp: decode_def split: option.splits)
  from frames.get_append [OF p(1)] have front: "split_frame (buf @ up) = Some (p, rest @ up)" .
  from assms(1) obtain ps where ps: "buf @ up = concat (map put_frame ps)"
      "\<forall>p \<in> set ps. length p < 2 ^ 32" "map (wi_from_cbor w) ps = map Some ms"
    by (auto simp: stream_def)
  show thesis
  proof (cases ps)
    case Nil
    with ps(1) front show thesis by (simp add: split_frame_def)
  next
    case (Cons q qs)
    with ps(2) frames.get_put_frames [of q qs "[]"] front [unfolded ps(1)]
    have eq: "p = q" "rest @ up = concat (map put_frame qs)" by simp_all
    from Cons ps(3) obtain m' ms' where ms: "ms = m' # ms'" by (cases ms) auto
    have "stream w ms' (rest @ up)"
      unfolding stream_def using eq(2) ps(2,3) Cons ms by (intro exI [of _ qs]) auto
    moreover have "m' = m" using ps(3) Cons ms eq(1) p(2) by simp
    ultimately show thesis using ms by (intro that) simp_all
  qed
qed

lemma stream_front:
  assumes "stream w (m # ms) buf"
  obtains rest where "decode (wi_from_cbor w) buf = (Inr (Some m), rest)" "stream w ms rest"
proof -
  from assms obtain ps where ps: "buf = concat (map put_frame ps)"
      "\<forall>p \<in> set ps. length p < 2 ^ 32" "map (wi_from_cbor w) ps = map Some (m # ms)"
    unfolding stream_def by blast
  from ps(3) obtain q qs where q: "ps = q # qs" "wi_from_cbor w q = Some m" by (cases ps) auto
  have "split_frame buf = Some (q, concat (map put_frame qs))"
    using frames.get_put_frames [of q qs "[]"] ps(1,2) q(1) by simp
  moreover have "stream w ms (concat (map put_frame qs))"
    unfolding stream_def using ps(2,3) q(1) by (intro exI [of _ qs]) simp
  ultimately show thesis using q(2) by (intro that) (simp_all add: decode_def)
qed

text \<open>What a client has queued only grows by an operation.\<close>

lemma send_extends: "\<exists>ms. cl_queue (snd (client_send m c)) = cl_queue c @ ms"
  by (simp add: client_send_def)

lemma sent_extends: "client_send m c = (r, c') \<Longrightarrow> \<exists>ms. cl_queue c' = cl_queue c @ ms"
  using send_extends [of m c] by simp

lemma drop_extends: "\<exists>ms. cl_queue (drop_topics to_json stamps ts c) = cl_queue c @ ms"
proof (induction to_json stamps ts c rule: drop_topics.induct)
  case (3 to_json uid now stamps t ts c)
  show ?case
  proof (cases "to_json t")
    case (Some b)
    let ?m = "params_raw b (message_new uid now ''__stardust.unsubscribe'')"
    from 3(2) [OF Some] send_extends [of ?m c] show ?thesis
      using Some by (auto simp: append_assoc [symmetric] simp del: append_assoc) force
  qed (use 3 in simp)
qed simp_all

lemma client_op_extends: "\<exists>ms. cl_queue (client_op to_json ord oper c) = cl_queue c @ ms"
proof -
  have call: "\<exists>ms. cl_queue (snd (client_send m (c\<lparr>cl_pending := p\<rparr>))) = cl_queue c @ ms" for m p
    using send_extends [of m "c\<lparr>cl_pending := p\<rparr>"] by simp
  note defs = client_op_def client_register_def client_publish_def client_subscribe_def
    client_unsubscribe_def client_call_def client_call_result_def client_drop_def
  note split = option.split prod.split sum.split reply_wait.split
  show ?thesis
    by (cases oper)
      (auto simp: defs split: split dest!: sent_extends intro: send_extends drop_extends call)
qed

definition fifo :: "wire \<Rightarrow> system \<Rightarrow> conn_id \<Rightarrow> bool" where
  "fifo w s c \<longleftrightarrow>
     (\<exists>ms. stream w ms (sys_up_buf s c @ sys_up s c) \<and>
        sys_sent s c = sys_got s c @ ms @ cl_queue (sys_client s c))"

lemma client_incoming_queue: "client_incoming from_cbor ord m c = (c', out) \<Longrightarrow> cl_queue c' = cl_queue c"
  by (auto simp: client_incoming_def split: option.splits)

lemma fifo_step:
  assumes "sys_step h w s s'" "\<forall>c. fifo w s c" "cbor_ok w"
  shows "fifo w s' d"
proof -
  from assms(2) obtain ms where ms: "stream w ms (sys_up_buf s d @ sys_up s d)"
      "sys_sent s d = sys_got s d @ ms @ cl_queue (sys_client s d)"
    by (auto simp: fifo_def)
  from assms(1) show ?thesis
  proof cases
    case (sys_program oper cl c)
    obtain new where "cl_queue cl = cl_queue (sys_client s c) @ new"
      using client_op_extends sys_program(3) by metis
    with sys_program(1) ms show ?thesis
      by (auto simp: fifo_def)
  next
    case (sys_write c m q up)
    show ?thesis
    proof (cases "d = c")
      case True
      with ms sys_write stream_encode [OF assms(3), of ms "sys_up_buf s c"] show ?thesis
        unfolding fifo_def by (intro exI [of _ "ms @ [m]"]) simp
    qed (use ms sys_write(1) in \<open>auto simp: fifo_def\<close>)
  next
    case (sys_incoming b c m rest reply)
    show ?thesis
    proof (cases "d = c")
      case True
      from stream_decode [OF ms(1) [unfolded True] sys_incoming(4)] obtain ms' where
        "ms = m # ms'" "stream w ms' (rest @ sys_up s c)" .
      with True ms(2) sys_incoming(1) show ?thesis by (auto simp: fifo_def)
    qed (use ms sys_incoming(1) in \<open>auto simp: fifo_def\<close>)
  next
    case (sys_hear c m rest cl out)
    with ms client_incoming_queue show ?thesis by (auto simp: fifo_def)
  qed (use ms in \<open>auto simp: fifo_def\<close>)
qed

lemma fifo_reachable: "sys_reachable h w s \<Longrightarrow> cbor_ok w \<Longrightarrow> fifo w s c"
proof (induction arbitrary: c rule: sys_reachable.induct)
  case sys_start
  show ?case
    unfolding fifo_def by (rule exI [of _ "[]"]) (simp add: sys_init_def client_connected_def)
next
  case (sys_more s s')
  then show ?case using fifo_step [OF sys_more.hyps(2)] by simp
qed

lemma stream_empty: "stream w ms [] \<Longrightarrow> ms = []"
  by (auto simp: stream_def put_frame_def put_u32_le_def)

lemma stream_no_error:
  assumes "stream w ms (buf @ up)"
  shows "\<exists>r. fst (decode (wi_from_cbor w) buf) = Inr r"
proof (cases "split_frame buf")
  case (Some pr)
  obtain p r where pr: "pr = (p, r)" by force
  from frames.get_append [OF Some [unfolded pr]] have front: "split_frame (buf @ up) = Some (p, r @ up)" .
  from assms obtain ps where ps: "buf @ up = concat (map put_frame ps)"
      "\<forall>p \<in> set ps. length p < 2 ^ 32" "map (wi_from_cbor w) ps = map Some ms"
    by (auto simp: stream_def)
  then obtain q qs where q: "ps = q # qs"
    using front by (cases ps) (auto simp: split_frame_def)
  with ps(2) frames.get_put_frames [of q qs "[]"] front [unfolded ps(1)] have "p = q" by simp
  with ps(3) q obtain m where "wi_from_cbor w p = Some m" by (cases ms) auto
  with Some pr show ?thesis by (simp add: decode_def)
qed (simp add: decode_def)

text \<open>
  Property C13. Between a client and the task of its connection no message is lost, invented,
  repeated or overtaken: in every reachable state the messages the task has read are the first
  ones of those the client has queued, and all of them once nothing is under way. However the
  bytes are cut up, the task never meets a frame it cannot read. Assumed is a CBOR library that
  reads back every message it wrote and writes less than 4 GB for each (\<open>cbor_ok\<close>).
\<close>

theorem messages_arrive_in_order:
  assumes "sys_reachable h w s" "cbor_ok w"
  shows "(\<exists>ms. sys_sent s c = sys_got s c @ ms \<and>
      (sys_up_buf s c = [] \<and> sys_up s c = [] \<and> cl_queue (sys_client s c) = [] \<longrightarrow> ms = [])) \<and>
    (\<exists>r. fst (decode (wi_from_cbor w) (sys_up_buf s c)) = Inr r)"
proof -
  from fifo_reachable [OF assms] obtain ms where
    ms: "stream w ms (sys_up_buf s c @ sys_up s c)"
      "sys_sent s c = sys_got s c @ ms @ cl_queue (sys_client s c)"
    unfolding fifo_def by blast
  show ?thesis
    using ms stream_no_error [OF ms(1)] by (auto dest: stream_empty)
qed

text \<open>
  A run: connection 0 subscribes to \<open>a\<close> and connection 1 publishes a message with that method,
  whose frame arrives in two pieces.
\<close>

definition sample_sub :: message where
  "sample_sub = params_raw (0x22 # bytes_of ''a'' @ [0x22])
     (with_src [] (message_new 1 0 ''__stardust.subscribe''))"

definition sample_wire :: wire where
  "sample_wire =
     \<lparr>wi_to_json = plain_json,
      wi_into_cbor = \<lambda>m. if m = sample_sub then Some [1] else if m = message_new 2 0 ''a'' then Some [2] else None,
      wi_from_cbor = \<lambda>b. if b = [1] then Some sample_sub else if b = [2] then Some (message_new 2 0 ''a'') else None,
      wi_result_cbor = \<lambda>_. None, wi_ord = id\<rparr>"

lemma sample_wire_ok: "json_quotes (wi_to_json sample_wire)" "cbor_ok sample_wire"
  by (auto simp: sample_wire_def json_quotes_def plain_json_def cbor_ok_def cbor_roundtrip_def)

lemma put_small: "put_frame [b] = [1, 0, 0, 0, b]"
  by (simp add: put_frame_def put_u32_le_def)

definition pair_fun :: "'a \<Rightarrow> 'a \<times> 'a \<Rightarrow> conn_id \<Rightarrow> 'a" where
  "pair_fun d p = (\<lambda>c. if c = 0 then fst p else if c = 1 then snd p else d)"

lemma pair_fun_simps [simp]:
  "pair_fun d p 0 = fst p" "pair_fun d p 1 = snd p"
  "(pair_fun d p)(0 := x) = pair_fun d (x, snd p)" "(pair_fun d p)(1 := x) = pair_fun d (fst p, x)"
  by (auto simp: pair_fun_def)

definition pair_sys ::
  "bus \<Rightarrow> client \<times> client \<Rightarrow> bytes \<times> bytes \<Rightarrow> bytes \<times> bytes \<Rightarrow> message list \<times> message list \<Rightarrow>
   message list \<times> message list \<Rightarrow> system" where
  "pair_sys b cl up buf sent got =
     \<lparr>sys_bus = b, sys_client = pair_fun client_connected cl, sys_up = pair_fun [] up,
      sys_up_buf = pair_fun [] buf, sys_down = \<lambda>_. [], sys_down_buf = \<lambda>_. [], sys_inbox = \<lambda>_. [],
      sys_heard = [], sys_sent = pair_fun [] sent, sys_got = pair_fun [] got\<rparr>"

definition pair_bus :: "broker_state \<Rightarrow> broker_cmd list \<Rightarrow> bus" where
  "pair_bus st q =
     \<lparr>bus_state = st\<lparr>connections := [(0, conn_chan 0), (1, conn_chan 1)]\<rparr>, bus_queue = q, bus_next = 2,
      bus_accepted = {}, bus_live = {0, 1}, bus_accepts = Suc (Suc 0), bus_directs = 0\<rparr>"

definition sample_client :: client where
  "sample_client = client_connected\<lparr>cl_subscribers := [(''a'', [5])]\<rparr>"

abbreviation "sample_pub \<equiv> message_new 2 0 ''a''"
abbreviation "sample_route \<equiv> Route \<lparr>env_msg = sample_pub, env_sender = 1\<rparr>"
abbreviation "sample_topic \<equiv> CHR 0x22 # ''a'' @ [CHR 0x22]"

lemma pair_fun_const: "pair_fun d (d, d) = (\<lambda>_. d)"
  by (auto simp: pair_fun_def)

lemma sample_connected:
  "sys_reachable h w (pair_sys (pair_bus broker_init []) (client_connected, client_connected)
     ([], []) ([], []) ([], []) ([], []))"
proof -
  note r = sys_more [of h w]
  note 1 = r [OF sys_start sys_accept [OF refl]]
  note 2 = r [OF 1 sys_accept [OF refl]]
  note 3 = r [OF 2 sys_connect [OF refl, where c = 0]]
  note 4 = r [OF 3 sys_connect [OF refl, where c = 1]]
  have "{1 :: conn_id, 0} = {0, 1}" by auto
  then show ?thesis
    using 4 by (simp add: pair_sys_def pair_bus_def pair_fun_const sys_init_def bus_init_def
        broker_init_def insert_Diff_if)
qed

lemma pair_program:
  assumes "sys_reachable h w (pair_sys b cl up buf sent got)" "plain_op p0" "plain_op p1"
  defines "c0 \<equiv> client_op (wi_to_json w) (wi_ord w) p0 (fst cl)"
    and "c1 \<equiv> client_op (wi_to_json w) (wi_ord w) p1 (snd cl)"
  shows "sys_reachable h w (pair_sys b (c0, c1) up buf
    (fst sent @ drop (length (cl_queue (fst cl))) (cl_queue c0),
     snd sent @ drop (length (cl_queue (snd cl))) (cl_queue c1)) got)"
  using sys_more [OF sys_more [OF assms(1) sys_program [OF assms(2) refl, where c = 0]]
      sys_program [OF assms(3) refl, where c = 1]]
  by (simp add: pair_sys_def c0_def c1_def)

lemma pair_write:
  assumes "sys_reachable h w (pair_sys b cl up buf sent got)"
    and "cl_open (fst cl)" "cl_open (snd cl)" "cl_queue (fst cl) = m0 # q0" "cl_queue (snd cl) = m1 # q1"
    and "encode (wi_into_cbor w) m0 (fst up) = Inr u0" "encode (wi_into_cbor w) m1 (snd up) = Inr u1"
  shows "sys_reachable h w (pair_sys b ((fst cl)\<lparr>cl_queue := q0\<rparr>, (snd cl)\<lparr>cl_queue := q1\<rparr>)
    (u0, u1) buf sent got)"
  using sys_more [OF sys_more [OF assms(1) sys_write [where c = 0 and m = m0 and q = q0 and up = u0]]
      sys_write [where c = 1 and m = m1 and q = q1 and up = u1]] assms(2-)
  by (simp add: pair_sys_def)

lemma pair_read:
  assumes "sys_reachable h w (pair_sys b cl up buf sent got)"
  shows "sys_reachable h w (pair_sys b cl (drop i (fst up), drop j (snd up))
    (fst buf @ take i (fst up), snd buf @ take j (snd up)) sent got)"
  using sys_more [OF sys_more [OF assms sys_read [where c = 0 and n = i]] sys_read [where c = 1 and n = j]]
  by (simp add: pair_sys_def)

lemma pair_incoming:
  assumes "sys_reachable h w (pair_sys (pair_bus st q) cl up buf sent got)"
    and "decode (wi_from_cbor w) (fst buf) = (Inr (Some m0), r0)"
    and "decode (wi_from_cbor w) (snd buf) = (Inr (Some m1), r1)"
  shows "sys_reachable h w (pair_sys (pair_bus st (q @ [dispatch 0 9 m0, dispatch 1 9 m1])) cl up (r0, r1)
    sent (fst got @ [m0], snd got @ [m1]))"
  using sys_more [OF sys_more [OF assms(1) sys_incoming [OF refl, where c = 0 and m = m0 and rest = r0 and reply = 9]]
      sys_incoming [OF refl, where c = 1 and m = m1 and rest = r1 and reply = 9]] assms(2-)
  by (simp add: pair_sys_def pair_bus_def)

lemma pair_broker:
  assumes "sys_reachable h w (pair_sys (pair_bus st (cmd # q)) cl up buf sent got)"
    and "run_broker_cmd h cmd (bus_state (pair_bus st q)) = (bus_state (pair_bus st' q), [])"
    and "\<not> is_direct cmd"
  shows "sys_reachable h w (pair_sys (pair_bus st' q) cl up buf sent got)"
  using sys_more [OF assms(1) sys_broker [OF refl, where cmd = cmd and q = q
      and st = "bus_state (pair_bus st' q)" and out = "[]"]] assms(2,3)
  by (simp add: pair_sys_def pair_bus_def)

abbreviation "plain_order \<equiv> \<lparr>ord_topics = id, ord_conns = id\<rparr>"

lemma sample_dispatch:
  "dispatch 0 9 sample_sub = Subscribe 0 sample_topic" "dispatch 1 9 sample_pub = sample_route"
proof -
  have "utf8_valid (0x22 # bytes_of ''a'' @ [0x22])"
    by (rule utf8_valid_ascii) (simp add: bytes_of_def)
  then have "from_utf8_lossy (0x22 # bytes_of ''a'' @ [0x22]) = string_of (0x22 # bytes_of ''a'' @ [0x22])"
    by (rule from_utf8_lossy_valid)
  also have "\<dots> = sample_topic" by code_simp
  finally show "dispatch 0 9 sample_sub = Subscribe 0 sample_topic"
    by (simp add: dispatch_def sample_sub_def params_raw_def with_src_def message_new_def)
  show "dispatch 1 9 sample_pub = sample_route"
    by (simp add: dispatch_def message_new_def)
qed

definition sample_end :: system where
  "sample_end = pair_sys (pair_bus (broker_init\<lparr>subscriptions := [(sample_topic, [0])]\<rparr>) [])
     (sample_client, client_connected) ([], []) ([], []) ([sample_sub], [sample_pub]) ([sample_sub], [sample_pub])"

lemma sample_run: "sys_reachable plain_order sample_wire sample_end"
proof -
  let ?b = "pair_bus broker_init []"
  have "sys_reachable plain_order sample_wire (pair_sys ?b
      (sample_client\<lparr>cl_queue := [sample_sub]\<rparr>, client_connected\<lparr>cl_queue := [sample_pub]\<rparr>)
      ([], []) ([], []) ([sample_sub], [sample_pub]) ([], []))"
    using pair_program [OF sample_connected [of plain_order sample_wire], where
        ?p0.0 = "OpSubscribe 1 0 ''a'' 5" and ?p1.0 = "OpPublish sample_pub"]
    by (simp add: client_op_def client_subscribe_def client_publish_def client_send_def
        client_connected_def sample_client_def sample_wire_def plain_json_def name_or_default_def
        sample_sub_def plain_message_def quote_led_def control_def message_new_def)
  note 1 = pair_read [OF pair_write [OF this], of sample_sub "[]" sample_pub "[]"
      "[1, 0, 0, 0, 1]" "[1, 0, 0, 0, 2]" 5 3]
  have enc: "encode (wi_into_cbor sample_wire) sample_sub [] = Inr [1, 0, 0, 0, 1]"
      "encode (wi_into_cbor sample_wire) sample_pub [] = Inr [1, 0, 0, 0, 2]"
    by (simp_all add: encode_def sample_wire_def put_small sample_sub_def message_new_def
        params_raw_def with_src_def)
  have dec: "decode (wi_from_cbor sample_wire) [1, 0, 0, 0, 1] = (Inr (Some sample_sub), [])"
      "decode (wi_from_cbor sample_wire) [1, 0, 0, 0, 2] = (Inr (Some sample_pub), [])"
    using frames.get_put [of "[1]" "[]"] frames.get_put [of "[2]" "[]"]
    by (simp_all add: decode_def sample_wire_def put_small)
  from 1 enc have "sys_reachable plain_order sample_wire (pair_sys ?b (sample_client, client_connected)
      ([], [0, 2]) ([1, 0, 0, 0, 1], [1, 0, 0]) ([sample_sub], [sample_pub]) ([], []))"
    by (simp add: sample_client_def client_connected_def)
  note 2 = pair_incoming [OF pair_read [OF this, of 0 2], of sample_sub "[]" sample_pub "[]"]
  with dec have "sys_reachable plain_order sample_wire (pair_sys
      (pair_bus broker_init [Subscribe 0 sample_topic, sample_route]) (sample_client, client_connected)
      ([], []) ([], []) ([sample_sub], [sample_pub]) ([sample_sub], [sample_pub]))"
    by (simp add: sample_dispatch)
  then have "sys_reachable plain_order sample_wire (pair_sys
      (pair_bus (broker_init\<lparr>subscriptions := [(sample_topic, [0])]\<rparr>) [sample_route])
      (sample_client, client_connected) ([], []) ([], []) ([sample_sub], [sample_pub]) ([sample_sub], [sample_pub]))"
    by (rule pair_broker) (simp_all add: pair_bus_def broker_init_def entry_insert_def)
  then show ?thesis
    unfolding sample_end_def
    by (rule pair_broker)
      (simp_all add: pair_bus_def broker_init_def route_direct_def route_topics_def iter_entries_def
        keys_def message_new_def matches_topic_def strip_suffix_def starts_with_def Let_def)
qed

theorem messages_arrive_in_order_witness:
  "\<exists>s. sys_reachable plain_order sample_wire s \<and> sys_sent s 1 = [sample_pub] \<and>
     (\<exists>ms. sys_sent s 1 = sys_got s 1 @ ms)"
  using messages_arrive_in_order [OF sample_run sample_wire_ok(2), of 1] sample_run
  by (intro exI [of _ sample_end]) (auto simp: sample_end_def pair_sys_def)

end
