(* ===== verification/StardustSilence.thy ===== *)
theory StardustSilence
  imports StardustSystem
begin

section \<open>Stardust: nothing reaches a client\<close>

text \<open>
  What the system of theory \<open>StardustSystem\<close> amounts to for the services: the invariant of its
  reachable states by which no message is ever sent to the task of a Unix connection.
\<close>

subsection \<open>What clients send\<close>

text \<open>The commands that can be queued, and the messages a client can send.\<close>

fun harmless :: "broker_cmd \<Rightarrow> bool" where
  "harmless (Register _ name _) = quote_led name"
| "harmless (Subscribe _ topic) = quote_led topic"
| "harmless cmd = plain_bridge cmd"

definition lib_message :: "message \<Rightarrow> bool" where
  "lib_message m \<longleftrightarrow>
     (if control (msg_method m) then quote_led (from_utf8_lossy (msg_params m)) else plain_message m)"

definition wire_ok :: "wire \<Rightarrow> bool" where
  "wire_ok w \<longleftrightarrow> json_quotes (wi_to_json w) \<and> cbor_ok w"

lemma quote_led_lossy: "json_quotes to_json \<Longrightarrow> to_json s = Some b \<Longrightarrow> quote_led (from_utf8_lossy b)"
  by (cases b) (fastforce simp: json_quotes_def quote_led_def lossy_quote simp del: from_utf8_lossy.simps)+

lemma quiet_dispatch: "lib_message m \<Longrightarrow> harmless (dispatch c reply m)"
  by (auto simp: lib_message_def dispatch_def control_def split: if_splits)

definition lib_client :: "client \<Rightarrow> bool" where
  "lib_client c \<longleftrightarrow> (\<forall>m \<in> set (cl_queue c). lib_message m)"

lemma lib_client_send: "lib_client c \<Longrightarrow> lib_message m \<Longrightarrow> lib_client (snd (client_send m c))"
  by (auto simp: lib_client_def client_send_def)

lemma lib_client_sent:
  "client_send m c = (r, c') \<Longrightarrow> lib_client c \<Longrightarrow> lib_message m \<Longrightarrow> lib_client c'"
  using lib_client_send [of c m] by simp

lemma lib_client_queue [simp]:
  "lib_client (c\<lparr>cl_pending := p\<rparr>) = lib_client c" "lib_client (c\<lparr>cl_open := op\<rparr>) = lib_client c"
  "lib_client (c\<lparr>cl_service_name := n\<rparr>) = lib_client c"
  "lib_client (c\<lparr>cl_subscribers := subs\<rparr>) = lib_client c"
  by (simp_all add: lib_client_def)

lemma lib_control:
  "json_quotes to_json \<Longrightarrow> to_json s = Some b \<Longrightarrow> control hm \<Longrightarrow>
   lib_message (params_raw b (message_new uid now hm))"
  "json_quotes to_json \<Longrightarrow> to_json s = Some b \<Longrightarrow> control hm \<Longrightarrow>
   lib_message (params_raw b (with_src src (message_new uid now hm)))"
  by (simp_all add: lib_message_def params_raw_def with_src_def message_new_def quote_led_lossy)

lemma lib_drop:
  "json_quotes to_json \<Longrightarrow> lib_client c \<Longrightarrow> lib_client (drop_topics to_json stamps ts c)"
proof (induction to_json stamps ts c rule: drop_topics.induct)
  case (3 to_json uid now stamps t ts c)
  show ?case
  proof (cases "to_json t")
    case (Some b)
    let ?m = "params_raw b (message_new uid now ''__stardust.unsubscribe'')"
    have "lib_client (snd (client_send ?m c))"
      by (rule lib_client_send [OF 3(4) lib_control(1) [OF 3(3) Some]]) (simp add: control_def)
    with 3(2) [OF Some 3(3)] Some show ?thesis by simp
  qed (use 3 in simp)
qed simp_all

lemma lib_client_op:
  assumes "json_quotes to_json" "plain_op oper" "lib_client c"
  shows "lib_client (client_op to_json ord oper c)"
proof -
  note ctl = lib_control(2) [OF assms(1)]
  have sent: "lib_client c'" if "client_send (params_raw b (with_src src (message_new uid now hm))) c = (r, c')"
    "to_json s = Some b" "control hm" for b src uid now hm r c' s
    using lib_client_sent [OF that(1) assms(3) ctl [OF that(2,3)]] .
  note split = option.split prod.split sum.split
  show ?thesis
  proof (cases oper)
    case (OpRegister uid now name)
    then show ?thesis
      using assms(3) by (auto simp: client_op_def client_register_def control_def split: split dest: sent)
  next
    case (OpPublish m)
    then show ?thesis
      using assms
      by (auto simp: client_op_def client_publish_def lib_message_def intro!: lib_client_send)
  next
    case (OpSubscribe uid now topic tx)
    then show ?thesis
      using assms(3) by (auto simp: client_op_def client_subscribe_def control_def split: split dest: sent)
  next
    case (OpUnsubscribe uid now topic)
    then show ?thesis
      using assms(3) by (auto simp: client_op_def client_unsubscribe_def control_def split: split dest: sent)
  next
    case (OpCall params uid now hm tx)
    then have "lib_message (params_raw raw (with_src n (message_new uid now hm)))" for raw n
      using assms(2)
      by (simp add: lib_message_def plain_message_def params_raw_def with_src_def message_new_def quote_led_def)
    then show ?thesis
      using assms(3)
      by (auto simp: client_op_def OpCall client_call_def split: option.split intro!: lib_client_send)
  next
    case (OpCallEnds uid w)
    then show ?thesis
      using assms(3)
      by (auto simp: client_op_def client_call_result_def split: reply_wait.split sum.split)
  next
    case (OpDrop stamps)
    then show ?thesis
      using assms by (simp add: client_op_def client_drop_def lib_drop)
  qed
qed

text \<open>
  What holds of the broker's maps: names and topics of Unix connections are quoted, and the
  channels of connection tasks are stored under the ids of connections.
\<close>

definition quiet_state :: "broker_state \<Rightarrow> bool" where
  "quiet_state st \<longleftrightarrow>
     (\<forall>n c. map_of (services st) n = Some c \<longrightarrow> quote_led n \<or> c = - 1) \<and>
     (\<forall>t cs c. map_of (subscriptions st) t = Some cs \<longrightarrow> c \<in> set cs \<longrightarrow> small c \<longrightarrow> quote_led t) \<and>
     (\<forall>c tx. map_of (connections st) c = Some tx \<longrightarrow> even tx \<longrightarrow> small c)"

lemma quiet_state_init: "quiet_state broker_init"
  by (simp add: quiet_state_def broker_init_def)

lemma quiet_stateD:
  assumes "quiet_state st"
  shows "map_of (services st) n = Some c \<Longrightarrow> quote_led n \<or> c = - 1"
    and "map_of (subscriptions st) t = Some cs \<Longrightarrow> c \<in> set cs \<Longrightarrow> small c \<Longrightarrow> quote_led t"
    and "map_of (connections st) c = Some tx \<Longrightarrow> even tx \<Longrightarrow> small c"
  using assms by (auto simp: quiet_state_def)

lemma quiet_state_step:
  assumes "quiet_state st" "broker_ok st" "harmless cmd" "length (connections st) \<le> 100000"
  shows "quiet_state (fst (run_broker_cmd h cmd st))"
proof -
  note D = quiet_stateD [OF assms(1)]
  have syn: "\<not> small (synthetic_id st)" using assms(4) by (rule synthetic_not_small)
  note defs = quiet_state_def Let_def hashmap_simps unregister_conn_def map_of_map_snd
    map_of_filter_value broker_ok_def
  show ?thesis
    by (cases cmd) (use assms(2,3) syn in \<open>auto simp: defs split: option.splits if_splits dest: D D(2) [OF sym]\<close>)
qed

lemma plain_unmatched:
  "plain_message m \<Longrightarrow> quote_led t \<Longrightarrow> \<not> matches_topic m t"
  using quoted_never_matches [of m "tl t"] by (cases t) (auto simp: plain_message_def quote_led_def)

lemma send_to_Deliver: "Deliver tx m \<in> set (send_to st m' c) \<Longrightarrow> map_of (connections st) c = Some tx"
  by (cases "map_of (connections st) c") (simp_all add: send_to_def)

lemma route_direct_Deliver:
  assumes "Deliver tx m \<in> set (route_direct st env)"
  obtains c where "map_of (services st) (msg_dst (env_msg env)) = Some c"
    "map_of (connections st) c = Some tx"
proof (cases "map_of (services st) (msg_dst (env_msg env))")
  case None
  with assms show thesis by (simp add: route_direct_None)
next
  case (Some c)
  with assms that show thesis by (auto simp: route_direct_Some split: if_splits dest: send_to_Deliver)
qed

lemma quiet_outputs:
  assumes "quiet_state st" "broker_ok st" "fair_bus_order h" "harmless cmd"
    and "Deliver tx m \<in> set (snd (run_broker_cmd h cmd st))"
  shows "odd tx"
proof -
  from assms(5) obtain env where cmd: "cmd = Route env" and
    out: "Deliver tx m \<in> set (route_direct st env @ route_topics h st env)"
    by (cases cmd) (auto simp: Let_def split: option.splits)
  have plain: "plain_message (env_msg env)" using assms(4) cmd by simp
  from out consider "Deliver tx m \<in> set (route_direct st env)" | "Deliver tx m \<in> set (route_topics h st env)"
    by auto
  then obtain c where c: "map_of (connections st) c = Some tx" "\<not> small c"
  proof cases
    case 1
    then obtain c where c: "map_of (services st) (msg_dst (env_msg env)) = Some c"
        "map_of (connections st) c = Some tx"
      by (rule route_direct_Deliver)
    with plain assms(1) have "c = - 1" by (auto simp: quiet_state_def plain_message_def)
    with max_not_small have "\<not> small c" by simp
    with c(2) show thesis by (rule that)
  next
    case 2
    then obtain t cs c where t: "(t, cs) \<in> set (iter_entries (ord_topics h) (subscriptions st))"
        "matches_topic (env_msg env) t" "c \<in> set (ord_conns h cs)" "map_of (connections st) c = Some tx"
      by (auto simp: route_topics_def Let_def split: if_splits dest!: send_to_Deliver)
    have "map_of (subscriptions st) t = Some cs"
      using t(1) assms(2,3)
      by (simp add: set_iter_entries broker_ok_def fair_bus_order_def hashmap_ok_def keys_def)
    moreover have "c \<in> set cs" using t(3) assms(3) by (simp add: fair_bus_order_def)
    moreover have "\<not> quote_led t" using plain_unmatched [OF plain] t(2) by blast
    ultimately have "\<not> small c"
      using assms(1) by (auto simp: quiet_state_def)
    with t(4) show thesis by (rule that)
  qed
  with assms(1) show ?thesis by (auto simp: quiet_state_def)
qed

lemma deliver_odd:
  "\<forall>x \<in> set out. \<forall>tx m. x = Deliver tx m \<longrightarrow> odd tx \<Longrightarrow> even ch \<Longrightarrow> deliver out inbox ch = inbox ch"
  by (induction out inbox rule: deliver.induct) auto

definition lib_stream :: "wire \<Rightarrow> bytes \<Rightarrow> bool" where
  "lib_stream w bytes \<longleftrightarrow> (\<exists>ms. stream w ms bytes \<and> (\<forall>m \<in> set ms. lib_message m))"

lemma lib_stream_Nil [simp]: "lib_stream w []"
  unfolding lib_stream_def by (rule exI [of _ "[]"]) simp

lemma lib_stream_encode:
  assumes "cbor_ok w" "lib_stream w (buf @ up)" "encode (wi_into_cbor w) m up = Inr up'" "lib_message m"
  shows "lib_stream w (buf @ up')"
proof -
  from assms(2) obtain ms where "stream w ms (buf @ up)" "\<forall>m \<in> set ms. lib_message m"
    by (auto simp: lib_stream_def)
  with stream_encode [OF assms(1) _ assms(3)] assms(4) show ?thesis
    unfolding lib_stream_def by (intro exI [of _ "ms @ [m]"]) auto
qed

lemma lib_stream_decode:
  assumes "lib_stream w (buf @ up)" "decode (wi_from_cbor w) buf = (Inr (Some m), rest)"
  shows "lib_message m \<and> lib_stream w (rest @ up)"
proof -
  from assms(1) obtain ms where ms: "stream w ms (buf @ up)" "\<forall>m \<in> set ms. lib_message m"
    by (auto simp: lib_stream_def)
  from stream_decode [OF ms(1) assms(2)] obtain ms' where "ms = m # ms'" "stream w ms' (rest @ up)" .
  with ms(2) show ?thesis by (auto simp: lib_stream_def)
qed

definition sys_inv :: "wire \<Rightarrow> system \<Rightarrow> bool" where
  "sys_inv w s \<longleftrightarrow>
     quiet_state (bus_state (sys_bus s)) \<and>
     (\<forall>cmd \<in> set (bus_queue (sys_bus s)). harmless cmd) \<and>
     (\<forall>c. lib_client (sys_client s c) \<and> lib_stream w (sys_up_buf s c @ sys_up s c)) \<and>
     (\<forall>c. sys_inbox s (conn_chan c) = [] \<and> sys_down s c = [] \<and> sys_down_buf s c = []) \<and>
     sys_heard s = []"

lemma sys_inv_init: "sys_inv w sys_init"
  by (simp add: sys_inv_def sys_init_def bus_init_def quiet_state_init lib_client_def client_connected_def)

lemma even_conn_chan [simp]: "even (conn_chan c)"
  by (simp add: conn_chan_def)

lemma quiet_bridge: "bridge_cmd cmd \<Longrightarrow> plain_bridge cmd \<Longrightarrow> harmless cmd"
  by (cases cmd) auto

lemma decode_Nil [simp]: "decode f [] = (Inr None, [])"
  by (simp add: decode_def split_frame_def)

lemma sys_inv_step:
  assumes "sys_step h w s s'" "sys_inv w s" "wire_ok w" "fair_bus_order h"
    and "bus_inv (sys_bus s)" "bus_young (sys_bus s)"
  shows "sys_inv w s'"
  using assms(1)
proof cases
  case (sys_connect b c)
  have "unat c < bus_accepts b" using sys_connect assms(5) by (auto simp: bus_inv_def counts_inv_def)
  then have "small c" using sys_connect assms(6) by (simp add: small_def bus_young_def)
  with assms(2) sys_connect show ?thesis
    by (auto simp: sys_inv_def quiet_state_def hashmap_simps split: if_splits)
next
  case (sys_program oper cl c)
  then show ?thesis
    using assms(2,3) lib_client_op by (auto simp: sys_inv_def wire_ok_def)
next
  case (sys_write c m q up)
  have "lib_client (sys_client s c)" using assms(2) by (simp add: sys_inv_def)
  with sys_write(3) have "lib_message m" "lib_client (sys_client s c\<lparr>cl_queue := q\<rparr>)"
    by (auto simp: lib_client_def)
  moreover from this have "lib_stream w (sys_up_buf s c @ up)"
    using assms(2,3) sys_write(4) by (auto simp: sys_inv_def wire_ok_def intro: lib_stream_encode)
  ultimately show ?thesis using assms(2) sys_write(1) by (auto simp: sys_inv_def)
next
  case (sys_incoming b c m rest reply)
  have "lib_message m \<and> lib_stream w (rest @ sys_up s c)"
    by (rule lib_stream_decode [OF _ sys_incoming(4)]) (use assms(2) in \<open>simp add: sys_inv_def\<close>)
  with assms(2) sys_incoming(1,2) quiet_dispatch [of m c reply] show ?thesis
    by (auto simp: sys_inv_def)
next
  case (sys_broker b cmd q st out)
  have ok: "broker_ok (bus_state b)" "length (connections (bus_state b)) \<le> 100000"
    using assms(5,6) sys_broker(2) by (simp_all add: bus_inv_def counts_inv_def bus_young_def)
  have q: "harmless cmd" "quiet_state (bus_state b)"
    using assms(2) sys_broker(2,3) by (auto simp: sys_inv_def)
  have "quiet_state st"
    using quiet_state_step [OF q(2) ok(1) q(1) ok(2), of h] sys_broker(4) by simp
  moreover have "deliver out (sys_inbox s) (conn_chan c) = sys_inbox s (conn_chan c)" for c
    using quiet_outputs [OF q(2) ok(1) assms(4) q(1)] sys_broker(4) by (intro deliver_odd) fastforce+
  ultimately show ?thesis
    using assms(2) sys_broker(1-3) by (auto simp: sys_inv_def)
next
  case (sys_bridge b cmd)
  then show ?thesis using assms(2) quiet_bridge by (auto simp: sys_inv_def)
qed (use assms(2) in \<open>auto simp: sys_inv_def\<close>)

lemma sys_reachable_inv:
  assumes "wire_ok w" "fair_bus_order h"
  shows "sys_reachable h w s \<Longrightarrow> bus_young (sys_bus s) \<Longrightarrow> sys_inv w s"
proof (induction rule: sys_reachable.induct)
  case sys_start
  show ?case by (rule sys_inv_init)
next
  case (sys_more s s')
  have young: "bus_young (sys_bus s)"
    using sys_step_bus [OF sys_more.hyps(2)] sys_more.prems by (auto dest: bus_step_young)
  show ?case
    using sys_inv_step [OF sys_more.hyps(2) sys_more.IH [OF young] assms]
      bus_reachable_inv [OF sys_reachable_bus [OF sys_more.hyps(1)] young] young by blast
qed

text \<open>
  Property C4. No client of the library ever hears anything. However clients, wire, connection
  tasks, bridge and broker are interleaved, however the bytes are cut up on the way, and in
  whatever order the maps are iterated: the channel of a connection task never holds a message,
  and no client's I/O task ever answers a call or hands a message to a subscriber. The client
  library quotes service names and topics, the broker takes the quotes as part of the name, and
  no service sends a quoted method or destination. (Up to a hundred thousand connections and
  bridge subscriptions; JSON quotes strings and CBOR reads back what it writes.)
\<close>

theorem no_client_hears:
  assumes "sys_reachable h w s" "bus_young (sys_bus s)" "wire_ok w" "fair_bus_order h"
  shows "sys_heard s = [] \<and> (\<forall>c. sys_inbox s (conn_chan c) = [])"
  using sys_reachable_inv [OF assms(3,4,1,2)] by (simp add: sys_inv_def)

theorem no_client_hears_witness:
  "\<exists>s. sys_reachable plain_order sample_wire s \<and> sys_got s 0 = [sample_sub] \<and>
     sys_got s 1 = [sample_pub] \<and> bus_queue (sys_bus s) = [] \<and> sys_heard s = []"
proof -
  have "bus_young (sys_bus sample_end)" "wire_ok sample_wire" "fair_bus_order plain_order"
    using sample_wire_ok
    by (simp_all add: sample_end_def pair_sys_def pair_bus_def bus_young_def wire_ok_def fair_bus_order_def)
  from no_client_hears [OF sample_run this] sample_run show ?thesis
    by (intro exI [of _ sample_end]) (simp add: sample_end_def pair_sys_def pair_bus_def)
qed

end
