(* ===== verification/StardustDelivery.thy ===== *)
theory StardustDelivery
  imports StardustSystem
begin

section \<open>Stardust: what a service publishes can reach the user interface\<close>

text \<open>
  The other direction of theory \<open>StardustSilence\<close>: the channels of the WebSocket bridge are
  subscribed under the topic as it is, and from every reachable state the system can be run
  until a queued publication is in such a channel. The run is built stage by stage: the
  client's I/O task writes, the connection's task reads, the broker works its queue off.
\<close>

abbreviation sys_steps :: "bus_order \<Rightarrow> wire \<Rightarrow> system \<Rightarrow> system \<Rightarrow> bool" where
  "sys_steps h w \<equiv> (sys_step h w)\<^sup>*\<^sup>*"

lemma sys_reachable_steps: "sys_steps h w s s' \<Longrightarrow> sys_reachable h w s \<Longrightarrow> sys_reachable h w s'"
  by (induction rule: rtranclp_induct) (auto intro: sys_more)

subsection \<open>From the client to the broker's queue\<close>

lemma client_flushes:
  assumes "cl_open (sys_client s c)" "\<forall>m \<in> set (cl_queue (sys_client s c)). wi_into_cbor w m \<noteq> None"
  shows "\<exists>s'. sys_steps h w s s' \<and> cl_queue (sys_client s' c) = [] \<and> sys_bus s' = sys_bus s \<and>
    sys_sent s' = sys_sent s \<and> sys_got s' = sys_got s \<and> sys_up_buf s' = sys_up_buf s \<and> sys_inbox s' = sys_inbox s"
  using assms
proof (induction "cl_queue (sys_client s c)" arbitrary: s)
  case Nil
  then show ?case by (intro exI [of _ s]) simp
next
  case (Cons m q)
  from Cons.hyps(2) have q: "cl_queue (sys_client s c) = m # q" by simp
  with Cons.prems(2) obtain b where "wi_into_cbor w m = Some b" by auto
  then have "encode (wi_into_cbor w) m (sys_up s c) = Inr (sys_up s c @ put_frame b)"
    by (simp add: encode_def)
  note step = sys_write [OF Cons.prems(1) q this, of h]
  let ?s = "s\<lparr>sys_client := (sys_client s)(c := (sys_client s c)\<lparr>cl_queue := q\<rparr>),
    sys_up := (sys_up s)(c := sys_up s c @ put_frame b)\<rparr>"
  have "\<exists>s'. sys_steps h w ?s s' \<and> cl_queue (sys_client s' c) = [] \<and> sys_bus s' = sys_bus ?s \<and>
    sys_sent s' = sys_sent ?s \<and> sys_got s' = sys_got ?s \<and> sys_up_buf s' = sys_up_buf ?s \<and> sys_inbox s' = sys_inbox ?s"
    by (rule Cons.hyps(1)) (use Cons.prems q in simp_all)
  then obtain s' where s': "sys_steps h w ?s s'" "cl_queue (sys_client s' c) = [] \<and> sys_bus s' = sys_bus s \<and>
    sys_sent s' = sys_sent s \<and> sys_got s' = sys_got s \<and> sys_up_buf s' = sys_up_buf s \<and> sys_inbox s' = sys_inbox s"
    by auto
  from step s'(1) have "sys_steps h w s s'" by (rule converse_rtranclp_into_rtranclp)
  with s'(2) show ?case by blast
qed

text \<open>The connection's task reads whatever stream is in its buffer.\<close>

lemma task_reads:
  assumes "stream w ms (sys_up_buf s c)" "c \<in> bus_live (sys_bus s)"
  shows "\<exists>s'. sys_steps h w s s' \<and> bus_state (sys_bus s') = bus_state (sys_bus s) \<and>
    bus_queue (sys_bus s') = bus_queue (sys_bus s) @ map (dispatch c 0) ms \<and> sys_inbox s' = sys_inbox s"
  using assms
proof (induction ms arbitrary: s)
  case Nil
  then show ?case by (intro exI [of _ s]) simp
next
  case (Cons m ms)
  obtain rest where d: "decode (wi_from_cbor w) (sys_up_buf s c) = (Inr (Some m), rest)"
    and rest: "stream w ms rest"
    using stream_front [OF Cons.prems(1)] .
  note step = sys_incoming [OF refl Cons.prems(2) d, of h 0]
  let ?s = "s\<lparr>sys_bus := (sys_bus s)\<lparr>bus_queue := bus_queue (sys_bus s) @ [dispatch c 0 m]\<rparr>,
    sys_up_buf := (sys_up_buf s)(c := rest), sys_got := (sys_got s)(c := sys_got s c @ [m])\<rparr>"
  have "\<exists>s'. sys_steps h w ?s s' \<and> bus_state (sys_bus s') = bus_state (sys_bus ?s) \<and>
    bus_queue (sys_bus s') = bus_queue (sys_bus ?s) @ map (dispatch c 0) ms \<and> sys_inbox s' = sys_inbox ?s"
    by (rule Cons.IH) (use rest Cons.prems(2) in simp_all)
  then obtain s' where s': "sys_steps h w ?s s'" "bus_state (sys_bus s') = bus_state (sys_bus s) \<and>
    bus_queue (sys_bus s') = bus_queue (sys_bus s) @ map (dispatch c 0) (m # ms) \<and> sys_inbox s' = sys_inbox s"
    by auto
  from step s'(1) have "sys_steps h w s s'" by (rule converse_rtranclp_into_rtranclp)
  with s'(2) show ?case by blast
qed

subsection \<open>The broker works its queue off\<close>

fun sent_to :: "chan \<Rightarrow> broker_out \<Rightarrow> message list" where
  "sent_to ch (Deliver tx m) = (if tx = ch then [m] else [])"
| "sent_to ch _ = []"

lemma deliver_sent: "deliver out inbox ch = inbox ch @ concat (map (sent_to ch) out)"
proof (induction out arbitrary: inbox)
  case (Cons x out)
  then show ?case by (cases x) auto
qed simp

lemma deliver_append: "deliver (out @ out') inbox = deliver out' (deliver out inbox)"
  by (rule ext) (simp add: deliver_sent)

lemma deliver_puts: "Deliver ch m \<in> set out \<Longrightarrow> \<exists>new. deliver out inbox ch = inbox ch @ new \<and> m \<in> set new"
  by (force simp: deliver_sent)

lemma broker_drains:
  "bus_queue (sys_bus s) = q @ rest \<Longrightarrow>
   \<exists>s'. sys_steps h w s s' \<and> sys_inbox s' = deliver (snd (run_broker h q (bus_state (sys_bus s)))) (sys_inbox s) \<and>
     sys_client s' = sys_client s \<and> sys_bus s' = (sys_bus s)
       \<lparr>bus_queue := rest, bus_state := fst (run_broker h q (bus_state (sys_bus s))),
        bus_directs := bus_directs (sys_bus s) + length (filter is_direct q)\<rparr>"
proof (induction q arbitrary: s)
  case Nil
  then show ?case by (intro exI [of _ s]) simp
next
  case (Cons cmd q)
  obtain st out where r: "run_broker_cmd h cmd (bus_state (sys_bus s)) = (st, out)" by force
  from Cons.prems(1) have "bus_queue (sys_bus s) = cmd # (q @ rest)" by simp
  note step = sys_broker [OF refl this r, of w]
  let ?s = "s\<lparr>sys_bus := (sys_bus s)\<lparr>bus_queue := q @ rest, bus_state := st,
      bus_directs := bus_directs (sys_bus s) + (if is_direct cmd then 1 else 0)\<rparr>,
    sys_inbox := deliver out (sys_inbox s)\<rparr>"
  from Cons.IH [of ?s] obtain s' where s': "sys_steps h w ?s s'"
      "sys_inbox s' = deliver (snd (run_broker h q st)) (deliver out (sys_inbox s))"
      "sys_client s' = sys_client s"
      "sys_bus s' = (sys_bus s)\<lparr>bus_queue := rest, bus_state := fst (run_broker h q st),
        bus_directs := bus_directs (sys_bus s) + length (filter is_direct (cmd # q))\<rparr>"
    by auto
  from step s'(1) have "sys_steps h w s s'" by (rule converse_rtranclp_into_rtranclp)
  with s'(2-4) r show ?case
    by (intro exI [of _ s']) (simp add: case_prod_beta Let_def deliver_append)
qed

text \<open>A subscription of the bridge outlives every command that is not about it.\<close>

definition tuned :: "broker_state \<Rightarrow> string \<Rightarrow> conn_id \<Rightarrow> chan \<Rightarrow> bool" where
  "tuned st t d tx \<longleftrightarrow>
     (\<exists>cs. map_of (subscriptions st) t = Some cs \<and> d \<in> set cs) \<and> map_of (connections st) d = Some tx"

lemma tuned_step:
  assumes "tuned st t d tx" "broker_ok st" "adds_conn cmd \<noteq> Some d" "\<not> is_direct cmd"
  shows "tuned (fst (run_broker_cmd h cmd st)) t d tx"
  using assms
  by (cases cmd)
    (auto simp: tuned_def hashmap_simps unregister_conn_def map_of_map_snd broker_ok_def
      split: option.splits if_splits)

lemma tuned_routes:
  assumes "tuned st t d tx" "broker_ok st" "fair_bus_order h" "matches_topic (env_msg env) t"
    and "env_sender env \<noteq> d"
  shows "Deliver tx (env_msg env) \<in> set (snd (run_broker_cmd h (Route env) st))"
proof -
  from assms(1) obtain cs where cs: "map_of (subscriptions st) t = Some cs" "d \<in> set cs"
      "map_of (connections st) d = Some tx"
    by (auto simp: tuned_def)
  have "(t, cs) \<in> set (iter_entries (ord_topics h) (subscriptions st))"
    using cs(1) assms(2,3)
    by (simp add: set_iter_entries broker_ok_def fair_bus_order_def map_of_SomeD)
  moreover have "d \<in> set (ord_conns h cs)" using cs(2) assms(3) by (simp add: fair_bus_order_def)
  moreover have "Deliver tx (env_msg env) \<in> set (send_to st (env_msg env) d)"
    using cs(3) by (simp add: send_to_def)
  ultimately show ?thesis
    using assms(4,5) by (force simp: route_topics_def Let_def)
qed

lemma run_reaches:
  assumes "tuned st t d tx" "broker_ok st" "fair_bus_order h" "matches_topic (env_msg env) t"
    and "env_sender env \<noteq> d"
  shows "\<forall>cmd \<in> set q. adds_conn cmd \<noteq> Some d \<and> \<not> is_direct cmd \<Longrightarrow> Route env \<in> set q \<Longrightarrow>
    Deliver tx (env_msg env) \<in> set (snd (run_broker h q st))"
  using assms(1,2)
proof (induction q arbitrary: st)
  case (Cons cmd q)
  show ?case
  proof (cases "cmd = Route env")
    case True
    with tuned_routes [OF Cons.prems(3,4) assms(3-5)] show ?thesis
      by (auto simp: case_prod_beta Let_def)
  next
    case False
    with Cons.prems have "Deliver tx (env_msg env) \<in> set (snd (run_broker h q (fst (run_broker_cmd h cmd st))))"
      by (intro Cons.IH) (auto intro: tuned_step broker_ok_step)
    then show ?thesis by (simp add: case_prod_beta Let_def)
  qed
qed simp

lemma queued_message_arrives:
  assumes "sys_reachable h w s" "cbor_ok w" "c \<in> bus_live (sys_bus s)" "cl_open (sys_client s c)"
    and "m \<in> set (cl_queue (sys_client s c))"
    and "\<forall>m \<in> set (cl_queue (sys_client s c)). wi_into_cbor w m \<noteq> None"
  shows "\<exists>s' ms. sys_steps h w s s' \<and> bus_state (sys_bus s') = bus_state (sys_bus s) \<and>
    bus_queue (sys_bus s') = bus_queue (sys_bus s) @ map (dispatch c 0) ms \<and>
    sys_inbox s' = sys_inbox s \<and> m \<in> set ms"
proof -
  obtain s1 where s1: "sys_steps h w s s1" "cl_queue (sys_client s1 c) = []" "sys_bus s1 = sys_bus s"
      "sys_sent s1 = sys_sent s" "sys_got s1 = sys_got s" "sys_up_buf s1 = sys_up_buf s"
      "sys_inbox s1 = sys_inbox s"
    using client_flushes [OF assms(4,6), of h] by blast
  from fifo_reachable [OF assms(1,2)] obtain old where
    old: "sys_sent s c = sys_got s c @ old @ cl_queue (sys_client s c)"
    unfolding fifo_def by blast
  from fifo_reachable [OF sys_reachable_steps [OF s1(1) assms(1)] assms(2), of c] obtain ms where
    ms: "stream w ms (sys_up_buf s1 c @ sys_up s1 c)" "sys_sent s1 c = sys_got s1 c @ ms"
    using s1(2) by (auto simp: fifo_def)
  have "ms = old @ cl_queue (sys_client s c)" using old ms(2) s1(4,5) by simp
  with assms(5) have m: "m \<in> set ms" by simp
  let ?s2 = "s1\<lparr>sys_up_buf := (sys_up_buf s1)(c := sys_up_buf s1 c @ take (length (sys_up s1 c)) (sys_up s1 c)),
    sys_up := (sys_up s1)(c := drop (length (sys_up s1 c)) (sys_up s1 c))\<rparr>"
  have steps: "sys_steps h w s ?s2" by (rule rtranclp.rtrancl_into_rtrancl [OF s1(1) sys_read])
  have "stream w ms (sys_up_buf ?s2 c)" "c \<in> bus_live (sys_bus ?s2)"
    using ms(1) assms(3) s1(3) by simp_all
  from task_reads [OF this, of h] obtain s3 where s3: "sys_steps h w ?s2 s3"
      "bus_state (sys_bus s3) = bus_state (sys_bus s)"
      "bus_queue (sys_bus s3) = bus_queue (sys_bus s) @ map (dispatch c 0) ms"
      "sys_inbox s3 = sys_inbox s"
    using s1(3,7) by auto
  from steps s3(1) have "sys_steps h w s s3" by (rule rtranclp_trans)
  with s3(2-4) m show ?thesis by blast
qed

subsection \<open>Delivery\<close>

lemma live_small:
  assumes "bus_inv b" "bus_young b" "c \<in> bus_live b"
  shows "small c"
proof -
  have "unat c < bus_accepts b" using assms(1,3) by (auto simp: bus_inv_def counts_inv_def)
  with assms(2) show ?thesis by (simp add: small_def bus_young_def)
qed

lemma queued_about_small:
  assumes "bus_inv b" "bus_young b" "cmd \<in> set (bus_queue b)" "adds_conn cmd = Some d"
  shows "small d"
proof -
  have "tracked b d" using assms(1,3,4) by (auto simp: bus_inv_def)
  with assms(2) show ?thesis by (simp add: tracked_def small_def bus_young_def)
qed

text \<open>
  What a service publishes can always still reach the user interface: from every
  reachable state in which the message waits in the queue of a connected client and the bridge
  is subscribed to a matching topic, the system can be run until the message is in the bridge's
  channel. The state may be in the middle of anything: older messages of the client unsent, half
  a frame in the buffer, commands of other connections in the broker's queue.
\<close>

lemma publication_reaches_channel:
  assumes "sys_reachable h w s" "bus_young (sys_bus s)" "cbor_ok w" "fair_bus_order h"
    and "c \<in> bus_live (sys_bus s)" "cl_open (sys_client s c)" "m \<in> set (cl_queue (sys_client s c))"
    and "\<forall>m \<in> set (cl_queue (sys_client s c)). wi_into_cbor w m \<noteq> None"
    and "\<not> control (msg_method m)" "matches_topic m t"
    and "tuned (bus_state (sys_bus s)) t d tx" "\<not> small d" "\<forall>cmd \<in> set (bus_queue (sys_bus s)). \<not> is_direct cmd"
  shows "\<exists>s' new. sys_steps h w s s' \<and> sys_inbox s' tx = sys_inbox s tx @ new \<and> m \<in> set new"
proof -
  have inv: "bus_inv (sys_bus s)"
    by (rule bus_reachable_inv [OF sys_reachable_bus [OF assms(1)] assms(2)])
  from queued_message_arrives [OF assms(1,3,5-8)] obtain s3 ms where s3: "sys_steps h w s s3"
      "bus_state (sys_bus s3) = bus_state (sys_bus s)"
      "bus_queue (sys_bus s3) = bus_queue (sys_bus s) @ map (dispatch c 0) ms"
      "sys_inbox s3 = sys_inbox s" and m: "m \<in> set ms"
    by blast
  have c: "small c" by (rule live_small [OF inv assms(2,5)])
  have "adds_conn (dispatch c 0 x) \<noteq> Some d \<and> \<not> is_direct (dispatch c 0 x)" for x
    using c assms(12) adds_conn_dispatch [of c 0 x] by (auto simp: dispatch_def)
  then have q: "\<forall>cmd \<in> set (bus_queue (sys_bus s3)). adds_conn cmd \<noteq> Some d \<and> \<not> is_direct cmd"
    using queued_about_small [OF inv assms(2)] assms(12,13) by (auto simp: s3(3))
  have "dispatch c 0 m = Route \<lparr>env_msg = m, env_sender = c\<rparr>"
    using assms(9) by (simp add: dispatch_def control_def)
  with m have "Route \<lparr>env_msg = m, env_sender = c\<rparr> \<in> set (bus_queue (sys_bus s3))"
    unfolding s3(3) by force
  then have "Deliver tx m \<in> set (snd (run_broker h (bus_queue (sys_bus s3)) (bus_state (sys_bus s3))))"
    using run_reaches [OF _ _ assms(4) _ _ q, of "bus_state (sys_bus s3)" t tx "\<lparr>env_msg = m, env_sender = c\<rparr>"]
      assms(10,11,12) c inv s3(2)
    by (auto simp: bus_inv_def)
  then obtain new where new: "deliver (snd (run_broker h (bus_queue (sys_bus s3)) (bus_state (sys_bus s3))))
      (sys_inbox s3) tx = sys_inbox s3 tx @ new" "m \<in> set new"
    using deliver_puts [of tx m] by blast
  obtain s4 where "sys_steps h w s3 s4" "sys_inbox s4 tx = sys_inbox s tx @ new"
    using broker_drains [of s3 "bus_queue (sys_bus s3)" "[]" h w] new(1) s3(4) by auto
  with rtranclp_trans [OF s3(1)] new(2) show ?thesis by blast
qed

subsection \<open>From the request of the bridge to its channel\<close>

text \<open>A subscription that the broker has handled is in place, under an id no connection has.\<close>

lemma subscription_in_place:
  "tuned (fst (run_broker_cmd h (SubscribeDirect t ch) st)) t (synthetic_id st) ch"
  by (auto simp: tuned_def hashmap_simps Let_def split: option.splits)

lemma request_reaches_channel:
  assumes "sys_reachable h w s" "bus_accepts (sys_bus s) + bus_directs (sys_bus s) + length (filter is_direct q) < 100000"
    and "cbor_ok w" "fair_bus_order h"
    and "bus_queue (sys_bus s) = q @ [SubscribeDirect topic ch]"
    and "c \<in> bus_live (sys_bus s)" "cl_open (sys_client s c)" "m \<in> set (cl_queue (sys_client s c))"
    and "\<forall>m \<in> set (cl_queue (sys_client s c)). wi_into_cbor w m \<noteq> None"
    and "\<not> control (msg_method m)" "matches_topic m topic"
  shows "\<exists>s' new. sys_steps h w s s' \<and> sys_inbox s' ch = sys_inbox s ch @ new \<and> m \<in> set new"
proof -
  let ?cmd = "SubscribeDirect topic ch"
  obtain s1 old where s1: "sys_steps h w s s1" "sys_inbox s1 ch = sys_inbox s ch @ old"
      "sys_client s1 = sys_client s" and bus: "bus_queue (sys_bus s1) = [?cmd]"
      "bus_accepts (sys_bus s1) + bus_directs (sys_bus s1) < 100000" "c \<in> bus_live (sys_bus s1)"
  proof -
    obtain s1 where "sys_steps h w s s1"
        "sys_inbox s1 = deliver (snd (run_broker h q (bus_state (sys_bus s)))) (sys_inbox s)"
        "sys_client s1 = sys_client s" "sys_bus s1 = (sys_bus s)
          \<lparr>bus_queue := [?cmd], bus_state := fst (run_broker h q (bus_state (sys_bus s))),
           bus_directs := bus_directs (sys_bus s) + length (filter is_direct q)\<rparr>"
      using broker_drains [OF assms(5)] by blast
    with assms(2,6) show thesis by (intro that [of s1]) (simp_all add: deliver_sent)
  qed
  have r1: "sys_reachable h w s1" by (rule sys_reachable_steps [OF s1(1) assms(1)])
  obtain st out where r: "run_broker_cmd h ?cmd (bus_state (sys_bus s1)) = (st, out)" by force
  then have st: "st = fst (run_broker_cmd h ?cmd (bus_state (sys_bus s1)))" "out = []"
    by (auto simp: Let_def split: option.splits)
  note step = sys_broker [OF refl bus(1) r, of w]
  let ?s = "s1\<lparr>sys_bus := (sys_bus s1)\<lparr>bus_queue := [], bus_state := st,
      bus_directs := bus_directs (sys_bus s1) + (if is_direct ?cmd then 1 else 0)\<rparr>,
    sys_inbox := deliver out (sys_inbox s1)\<rparr>"
  have "bus_inv (sys_bus s1)"
    by (rule bus_reachable_inv [OF sys_reachable_bus [OF r1]]) (use bus(2) in \<open>simp add: bus_young_def\<close>)
  then have "length (connections (bus_state (sys_bus s1))) \<le> 100000"
    using bus(2) by (simp add: bus_inv_def counts_inv_def)
  then have d: "\<not> small (synthetic_id (bus_state (sys_bus s1)))" by (rule synthetic_not_small)
  have "\<exists>s' new. sys_steps h w ?s s' \<and> sys_inbox s' ch = sys_inbox ?s ch @ new \<and> m \<in> set new"
    by (rule publication_reaches_channel [OF sys_more [OF r1 step] _ assms(3,4) _ _ _ _ assms(10,11) _ d])
      (use assms(6-9) bus s1(3) subscription_in_place in \<open>simp_all add: bus_young_def st(1)\<close>)
  then obtain s' new where s': "sys_steps h w ?s s'" "sys_inbox s' ch = sys_inbox s1 ch @ new" "m \<in> set new"
    by (auto simp: st(2))
  from s1(1) step s'(1) have "sys_steps h w s s'" by (meson rtranclp.rtrancl_into_rtrancl rtranclp_trans)
  with s'(2,3) s1(2) show ?thesis by auto
qed

end
