(* ===== verification/StardustRoutes.thy ===== *)
theory StardustRoutes
  imports StardustDelivery
begin

section \<open>Stardust: what a channel is owed\<close>

text \<open>
  How often the broker (\<open>broker.rs\<close>, the arm of \<open>Route\<close>) puts a routed message into a channel,
  from the connections that write to the channel and what each of them is owed. This does not
  depend on the order in which the hash maps are visited.
\<close>

subsection \<open>The connections a message goes to\<close>

definition direct_targets :: "broker_state \<Rightarrow> envelope \<Rightarrow> conn_id list" where
  "direct_targets st env =
     (case map_of (services st) (msg_dst (env_msg env)) of
        None \<Rightarrow> []
      | Some d \<Rightarrow> if msg_dst (env_msg env) \<noteq> [] \<and> d \<noteq> env_sender env then [d] else [])"

definition topic_targets :: "bus_order \<Rightarrow> broker_state \<Rightarrow> envelope \<Rightarrow> conn_id list" where
  "topic_targets h st env =
     concat (map (\<lambda>p. if matches_topic (env_msg env) (fst p)
         then filter (\<lambda>c. c \<noteq> env_sender env) (ord_conns h (snd p)) else [])
       (iter_entries (ord_topics h) (subscriptions st)))"

definition send_all :: "broker_state \<Rightarrow> message \<Rightarrow> conn_id list \<Rightarrow> broker_out list" where
  "send_all st m ds = concat (map (send_to st m) ds)"

lemma send_all_simps [simp]:
  "send_all st m [] = []" "send_all st m (d # ds) = send_to st m d @ send_all st m ds"
  "send_all st m (ds @ es) = send_all st m ds @ send_all st m es"
  by (simp_all add: send_all_def)

lemma route_direct_targets: "route_direct st env = send_all st (env_msg env) (direct_targets st env)"
proof (cases "map_of (services st) (msg_dst (env_msg env))")
  case None
  then show ?thesis by (simp add: route_direct_None direct_targets_def)
next
  case (Some d)
  then show ?thesis by (simp add: route_direct_Some direct_targets_def)
qed

lemma send_all_filter:
  "concat (map (\<lambda>c. if c = s then [] else send_to st m c) cs) = send_all st m (filter (\<lambda>c. c \<noteq> s) cs)"
  by (induction cs) simp_all

lemma send_all_concat: "send_all st m (concat xss) = concat (map (send_all st m) xss)"
  by (induction xss) simp_all

lemma route_topics_targets: "route_topics h st env = send_all st (env_msg env) (topic_targets h st env)"
  unfolding route_topics_def topic_targets_def Let_def send_all_concat map_map
  by (intro arg_cong [where f = concat] map_cong refl) (auto simp: send_all_filter)

subsection \<open>Counting them\<close>

lemma send_all_into:
  "length (concat (map (sent_to ch) (send_all st m ds))) =
     length (filter (\<lambda>d. map_of (connections st) d = Some ch) ds)"
  by (induction ds) (auto simp: send_to_def split: option.split)

lemma send_all_messages: "Deliver tx m' \<in> set (send_all st m ds) \<Longrightarrow> m' = m"
  by (induction ds) (auto simp: send_to_def split: option.splits)

lemma send_all_count:
  assumes "own_channels st" "map_of (connections st) c = Some tx"
  shows "count_list (send_all st m ds) (Deliver tx m) = count_list ds c"
  using send_to_count [OF assms, of m] by (induction ds) auto

text \<open>With a channel of its own for every connection, the counts of theory \<open>StardustBroker\<close> apply.\<close>

lemma targets_owed:
  assumes "fair_bus_order h" "broker_ok st" "map_of (connections st) c \<noteq> None"
  shows "count_list (direct_targets st env @ topic_targets h st env) c = copies_owed st env c"
proof -
  define st' where "st' = st\<lparr>connections := map (\<lambda>(d, _). (d, unat d)) (connections st)\<rparr>"
  have "map_of (map (\<lambda>(d, _). (d, unat d)) m) d = map_option (\<lambda>_. unat d) (map_of m d)"
    for d and m :: "(conn_id, chan) hashmap"
    by (induction m) auto
  then have conns: "map_of (connections st') d = map_option (\<lambda>_. unat d) (map_of (connections st) d)" for d
    by (simp add: st'_def)
  have same: "direct_targets st' env = direct_targets st env" "topic_targets h st' env = topic_targets h st env"
    by (simp_all add: st'_def direct_targets_def topic_targets_def)
  have own: "own_channels st'"
    by (auto simp: own_channels_def conns inj_on_def word_unat_eq_iff)
  have ok: "broker_ok st'"
    using assms(2) by (auto simp: broker_ok_def st'_def hashmap_ok_def keys_def comp_def case_prod_beta)
  have c: "map_of (connections st') c = Some (unat c)" using assms(3) conns by auto
  show ?thesis
    using route_topics_count [OF assms(1) ok own c, of env] route_direct_count [OF own c, of env]
    unfolding route_direct_targets route_topics_targets send_all_count [OF own c] same
    by (simp add: copies_owed_def st'_def)
qed

lemma count_split:
  "finite S \<Longrightarrow> length (filter (\<lambda>d. d \<in> S) ds) = (\<Sum>c \<in> S. count_list ds c)"
proof (induction ds)
  case (Cons d ds)
  have "(\<Sum>c \<in> S. count_list (d # ds) c) = (\<Sum>c \<in> S. (if d = c then 1 else 0) + count_list ds c)"
    by (intro sum.cong) auto
  also have "\<dots> = (if d \<in> S then 1 else 0) + (\<Sum>c \<in> S. count_list ds c)"
    using Cons.prems by (simp add: sum.distrib)
  finally show ?case using Cons by simp
qed simp

text \<open>The copies of a routed message that go into a channel.\<close>

definition channel_owed :: "broker_state \<Rightarrow> envelope \<Rightarrow> chan \<Rightarrow> nat" where
  "channel_owed st env ch =
     (\<Sum>c \<leftarrow> filter (\<lambda>c. map_of (connections st) c = Some ch) (keys (connections st)). copies_owed st env c)"

lemma routed_into:
  assumes "fair_bus_order h" "broker_ok st"
  shows "concat (map (sent_to ch) (snd (run_broker_cmd h (Route env) st))) =
    replicate (channel_owed st env ch) (env_msg env)"
proof -
  let ?ds = "direct_targets st env @ topic_targets h st env"
  let ?C = "filter (\<lambda>c. map_of (connections st) c = Some ch) (keys (connections st))"
  have out: "snd (run_broker_cmd h (Route env) st) = send_all st (env_msg env) ?ds"
    by (simp add: route_direct_targets route_topics_targets)
  have C: "d \<in> set ?C \<longleftrightarrow> map_of (connections st) d = Some ch" for d
    by (auto simp: set_keys)
  have "distinct (keys (connections st))" using assms(2) by (simp add: broker_ok_def hashmap_ok_def)
  then have "channel_owed st env ch = (\<Sum>c \<in> set ?C. copies_owed st env c)"
    unfolding channel_owed_def by (subst sum_list_distinct_conv_sum_set) simp_all
  also have "\<dots> = (\<Sum>c \<in> set ?C. count_list ?ds c)"
    using targets_owed [OF assms] by (intro sum.cong) (auto simp: C simp del: set_filter)
  also have "\<dots> = length (filter (\<lambda>d. d \<in> set ?C) ?ds)"
    by (rule count_split [symmetric]) simp
  also have "\<dots> = length (concat (map (sent_to ch) (send_all st (env_msg env) ?ds)))"
    unfolding send_all_into C ..
  finally have len: "length (concat (map (sent_to ch) (snd (run_broker_cmd h (Route env) st)))) = channel_owed st env ch"
    unfolding out by simp
  have "m = env_msg env" if "m \<in> set (concat (map (sent_to ch) (send_all st (env_msg env) ?ds)))" for m
  proof -
    from that obtain x where x: "x \<in> set (send_all st (env_msg env) ?ds)" "m \<in> set (sent_to ch x)"
      by auto
    from x(2) have "x = Deliver ch m" by (cases x) (simp_all split: if_splits)
    with x(1) send_all_messages show ?thesis by blast
  qed
  then have "replicate (length (concat (map (sent_to ch) (send_all st (env_msg env) ?ds)))) (env_msg env) =
      concat (map (sent_to ch) (send_all st (env_msg env) ?ds))"
    by (intro replicate_length_same) blast
  then show ?thesis by (simp only: out len [unfolded out])
qed

text \<open>A channel that a bridge subscription in place writes to is owed every matching message.\<close>

lemma tuned_owed:
  assumes "tuned st t d ch" "broker_ok st" "matches_topic (env_msg env) t" "env_sender env \<noteq> d"
  shows "0 < channel_owed st env ch"
proof -
  from assms(1) obtain cs where cs: "map_of (subscriptions st) t = Some cs" "d \<in> set cs"
      "map_of (connections st) d = Some ch"
    by (auto simp: tuned_def)
  have "(t, cs) \<in> set (filter (\<lambda>p. matches_topic (env_msg env) (fst p) \<and> d \<in> set (snd p)) (subscriptions st))"
    using cs(1,2) assms(3) by (simp add: map_of_SomeD)
  then have "0 < length (filter (\<lambda>p. matches_topic (env_msg env) (fst p) \<and> d \<in> set (snd p)) (subscriptions st))"
    by (rule length_pos_if_in_set)
  then have "0 < copies_owed st env d" using assms(4) by (simp add: copies_owed_def)
  moreover have "d \<in> set (filter (\<lambda>c. map_of (connections st) c = Some ch) (keys (connections st)))"
    using cs(3) by (auto simp: set_keys)
  ultimately have "copies_owed st env d \<le> channel_owed st env ch"
    unfolding channel_owed_def by (intro member_le_sum_list) auto
  with \<open>0 < copies_owed st env d\<close> show ?thesis by simp
qed

text \<open>What a channel is owed of the messages that have been routed, in the states they were routed in.\<close>

definition owed_copies :: "chan \<Rightarrow> (envelope \<times> broker_state) list \<Rightarrow> message list" where
  "owed_copies ch log = concat (map (\<lambda>(env, st). replicate (channel_owed st env ch) (env_msg env)) log)"

lemma owed_copies_simps [simp]:
  "owed_copies ch [] = []"
  "owed_copies ch (log @ [(env, st)]) = owed_copies ch log @ replicate (channel_owed st env ch) (env_msg env)"
  by (simp_all add: owed_copies_def)

subsection \<open>The broker's maps stay well-formed\<close>

lemma sys_broker_ok: "sys_reachable h w s \<Longrightarrow> broker_ok (bus_state (sys_bus s))"
proof (induction rule: sys_reachable.induct)
  case sys_start
  show ?case by (simp add: sys_init_def bus_init_def broker_ok_init)
next
  case (sys_more s s')
  from sys_more(2,3) show ?case
  proof cases
    case (sys_broker b cmd q st out)
    with broker_ok_step [OF sys_more(3), of h cmd] show ?thesis by simp
  qed (auto simp: broker_ok_def hashmap_simps)
qed

end
