(* ===== verification/StardustWs.thy ===== *)
theory StardustWs
  imports StardustBroker
begin

section \<open>Stardust: the WebSocket bridge\<close>

text \<open>
  \<open>crates/stardust/src/ws.rs\<close>: the requests of the Luna UI, the events sent back, and one
  client of the bridge: what it queues at the broker, which channels its forwarding tasks
  read, what it sends to the WebSocket. JSON and CBOR are parameters. Channels are numbers, those
  of the bridge odd ones; the fresh channel of a subscription is the next unused one.
\<close>

datatype 'j ws_request =
    WsSubscribe string
  | WsUnsubscribe string
  | WsPublish string 'j
  | WsCall string 'j string
  | WsRegister string

datatype 'j ws_event =
    WsEvent string 'j
  | WsResponse string string 'j
  | WsError "string option" string
  | WsConnected string string

record 'j ws_api =
  wa_request :: "string \<Rightarrow> 'j ws_request option"
  wa_to_vec :: "'j \<Rightarrow> bytes option"
  wa_from_slice :: "bytes \<Rightarrow> 'j option"
  wa_from_cbor :: "bytes \<Rightarrow> 'j option"
  wa_null :: 'j
  wa_string :: "string \<Rightarrow> 'j"
  wa_error_text :: "stardust_error \<Rightarrow> string"
  wa_to_string :: "'j ws_event \<Rightarrow> string option"

record 'j ws_client =
  ws_cmds :: "broker_cmd list"
  ws_events :: "'j ws_event list"
  ws_forwarders :: "chan list"
  ws_sub_chan :: chan
  ws_next_chan :: chan

definition ws_connected :: "chan \<Rightarrow> 'j ws_client" where
  "ws_connected ch =
     \<lparr>ws_cmds = [], ws_events = [], ws_forwarders = [], ws_sub_chan = ch, ws_next_chan = ch + 2\<rparr>"

definition ws_send :: "'j ws_event \<Rightarrow> 'j ws_client \<Rightarrow> 'j ws_client" where
  "ws_send ev w = w\<lparr>ws_events := ws_events w @ [ev]\<rparr>"

definition ws_queue :: "broker_cmd \<Rightarrow> 'j ws_client \<Rightarrow> 'j ws_client" where
  "ws_queue cmd w = w\<lparr>ws_cmds := ws_cmds w @ [cmd]\<rparr>"

text \<open>JSON first, then CBOR, then null.\<close>

definition parse_params_to_value :: "'j ws_api \<Rightarrow> bytes \<Rightarrow> 'j" where
  "parse_params_to_value api params =
     (case wa_from_slice api params of
        Some v \<Rightarrow> v
      | None \<Rightarrow> (case wa_from_cbor api params of Some v \<Rightarrow> v | None \<Rightarrow> wa_null api))"

text \<open>A request as a message of the bridge.\<close>

definition ws_message :: "uuid \<Rightarrow> u64 \<Rightarrow> string \<Rightarrow> bytes \<Rightarrow> message" where
  "ws_message uid now hm raw = params_raw raw (with_src ''luna-ui'' (message_new uid now hm))"

definition ws_call_event ::
  "'j ws_api \<Rightarrow> string \<Rightarrow> stardust_error + response \<Rightarrow> 'j ws_event" where
  "ws_call_event api req_id r =
     (case r of
        Inr response \<Rightarrow>
          (case resp_result response of
             Inr b \<Rightarrow> WsResponse req_id ''ok''
                        (case wa_from_slice api b of None \<Rightarrow> wa_null api | Some v \<Rightarrow> v)
           | Inl err \<Rightarrow> WsResponse req_id ''error'' (wa_string api err))
      | Inl e \<Rightarrow> WsError (Some req_id) (wa_error_text api e))"

text \<open>
  \<open>handle_ws_message\<close>: \<open>None\<close> is its error (text that is no request, or parameters that cannot
  be rendered). \<open>reply\<close> is what the wait for a call's answer gave, on a channel of its own.
\<close>

definition handle_ws_message ::
  "'j ws_api \<Rightarrow> uuid \<Rightarrow> u64 \<Rightarrow> (stardust_error + response) reply_wait \<Rightarrow> string \<Rightarrow>
   'j ws_client \<Rightarrow> 'j ws_client option" where
  "handle_ws_message api uid now reply text w =
     (case wa_request api text of
        None \<Rightarrow> None
      | Some (WsSubscribe topic) \<Rightarrow>
          (let ch = ws_next_chan w
           in Some ((ws_queue (handle_subscribe topic ch) w)
                \<lparr>ws_forwarders := ws_forwarders w @ [ch], ws_next_chan := ch + 2\<rparr>))
      | Some (WsUnsubscribe topic) \<Rightarrow> Some (ws_queue (handle_unsubscribe topic (ws_sub_chan w)) w)
      | Some (WsPublish hm params) \<Rightarrow>
          (case wa_to_vec api params of
             None \<Rightarrow> None
           | Some raw \<Rightarrow> Some (ws_queue (handle_publish (ws_message uid now hm raw)) w))
      | Some (WsCall hm params req_id) \<Rightarrow>
          (case wa_to_vec api params of
             None \<Rightarrow> None
           | Some raw \<Rightarrow>
               (let ch = ws_next_chan w;
                    w1 = (ws_queue (CallCmd (ws_message uid now hm raw) 5 ch) w)\<lparr>ws_next_chan := ch + 2\<rparr>
                in Some (ws_send (ws_call_event api req_id (handle_call_result reply)) w1)))
      | Some (WsRegister name) \<Rightarrow> Some (ws_queue (handle_register_service name) w))"

text \<open>A text frame; the text of the parse error is a parameter.\<close>

definition ws_text_frame ::
  "'j ws_api \<Rightarrow> uuid \<Rightarrow> u64 \<Rightarrow> (stardust_error + response) reply_wait \<Rightarrow> (string \<Rightarrow> string) \<Rightarrow>
   string \<Rightarrow> 'j ws_client \<Rightarrow> 'j ws_client" where
  "ws_text_frame api uid now reply describe text w =
     (case handle_ws_message api uid now reply text w of
        Some w' \<Rightarrow> w'
      | None \<Rightarrow> ws_send (WsError None (describe text)) w)"

text \<open>A message from the broker on one of the client's channels becomes an event.\<close>

definition ws_broker_message :: "'j ws_api \<Rightarrow> chan \<Rightarrow> message \<Rightarrow> 'j ws_client \<Rightarrow> 'j ws_client" where
  "ws_broker_message api ch msg w =
     (if ch \<in> set (ws_forwarders w) \<or> ch = ws_sub_chan w
      then ws_send (WsEvent (msg_method msg) (parse_params_to_value api (msg_params msg))) w
      else w)"

datatype ws_frame = WsText string | WsClose | WsFault | WsEnd | WsOther | WsBroker chan message

text \<open>The loop of a connection: what it has done when the stream of frames ends or a frame ends it.\<close>

fun handle_ws_client ::
  "'j ws_api \<Rightarrow> (nat \<Rightarrow> uuid) \<Rightarrow> u64 \<Rightarrow> (nat \<Rightarrow> (stardust_error + response) reply_wait) \<Rightarrow>
   (string \<Rightarrow> string) \<Rightarrow> ws_frame list \<Rightarrow> 'j ws_client \<Rightarrow> 'j ws_client" where
  "handle_ws_client api uid now reply describe [] w = w"
| "handle_ws_client api uid now reply describe (f # fs) w =
     (case f of
        WsText text \<Rightarrow>
          handle_ws_client api uid now reply describe fs
            (ws_text_frame api (uid (length fs)) now (reply (length fs)) describe text w)
      | WsBroker ch msg \<Rightarrow>
          handle_ws_client api uid now reply describe fs (ws_broker_message api ch msg w)
      | WsOther \<Rightarrow> handle_ws_client api uid now reply describe fs w
      | _ \<Rightarrow> w)"

subsection \<open>What a client of the bridge gets\<close>

lemma run_broker_snoc_unsubscribe:
  "run_broker h (cmds @ [UnsubscribeDirect t ch]) st = run_broker h cmds st"
  by (induction cmds arbitrary: st) (auto simp: Let_def split: prod.splits)

text \<open>
  Unsubscribing through the bridge has no effect: after the request the broker,
  having run everything the client queued, is in the same state with the same deliveries, and
  the client still forwards every channel it forwarded.
\<close>

lemma ws_unsubscribe_ineffective:
  assumes "wa_request api text = Some (WsUnsubscribe topic)"
    and "handle_ws_message api uid now reply text w = Some w'"
  shows "run_broker h (ws_cmds w') st = run_broker h (ws_cmds w) st \<and>
    ws_forwarders w' = ws_forwarders w \<and> ws_events w' = ws_events w"
  using assms
  by (auto simp: handle_ws_message_def ws_queue_def handle_unsubscribe_def run_broker_snoc_unsubscribe)

text \<open>
  Property C38. No call of the Luna UI is ever answered: whatever the broker replies in any run,
  and whether the reply comes, is lost or is late, the client gets an error event that carries
  the identifier of its request.
\<close>

theorem ws_call_always_an_error:
  assumes "wa_request api text = Some (WsCall hm params req_id)"
    and "handle_ws_message api uid now reply text w = Some w'"
    and "reply = TimedOut \<or> reply = SenderDropped \<or>
      (\<exists>r ch h cmds st. reply = Replied r \<and> CallReply ch r \<in> set (snd (run_broker h cmds st)))"
  shows "\<exists>t. last (ws_events w') = WsError (Some req_id) t"
proof -
  have broker_fails: "\<exists>e. handle_call_result (Replied r) = Inl e"
    if "CallReply ch r \<in> set (snd (run_broker h cmds st))" for r ch h cmds st
    using call_always_fails [OF that] by blast
  have "\<exists>e. handle_call_result reply = Inl e"
  proof (cases reply)
    case (Replied r)
    with assms(3) broker_fails show ?thesis by blast
  qed (simp_all add: handle_call_result_def)
  then obtain e where "handle_call_result reply = Inl e" by blast
  with assms(1,2) show ?thesis
    by (auto simp: handle_ws_message_def ws_call_event_def ws_send_def Let_def split: option.splits)
qed

text \<open>A JSON library of three requests.\<close>

definition demo_ws :: "unit ws_api" where
  "demo_ws =
     \<lparr>wa_request = (\<lambda>t. if t = ''u'' then Some (WsUnsubscribe ''audio.*'')
                       else if t = ''s'' then Some (WsSubscribe ''audio.*'')
                       else if t = ''c'' then Some (WsCall ''audio.get'' () ''req1'') else None),
      wa_to_vec = (\<lambda>v. Some []), wa_from_slice = (\<lambda>b. Some ()), wa_from_cbor = (\<lambda>b. None),
      wa_null = (), wa_string = (\<lambda>s. ()), wa_error_text = (\<lambda>e. ''error''),
      wa_to_string = (\<lambda>e. Some ''{}'')\<rparr>"

lemma ws_unsubscribe_ineffective_witness:
  "\<exists>w1 w2. handle_ws_message demo_ws 1 0 TimedOut ''s'' (ws_connected 5) = Some w1 \<and>
     handle_ws_message demo_ws 2 0 TimedOut ''u'' w1 = Some w2 \<and>
     run_broker h (ws_cmds w2) broker_init = run_broker h (ws_cmds w1) broker_init"
proof -
  obtain w1 where w1: "handle_ws_message demo_ws 1 0 TimedOut ''s'' (ws_connected 5) = Some w1"
    by (simp add: handle_ws_message_def demo_ws_def Let_def)
  have req: "wa_request demo_ws ''u'' = Some (WsUnsubscribe ''audio.*'')"
    by (simp add: demo_ws_def)
  obtain w2 where w2: "handle_ws_message demo_ws 2 0 TimedOut ''u'' w1 = Some w2"
    by (simp add: handle_ws_message_def req)
  from ws_unsubscribe_ineffective [OF req w2] w1 w2 show ?thesis by blast
qed

theorem ws_call_always_an_error_witness:
  "\<exists>w t. handle_ws_message demo_ws 1 0 TimedOut ''c'' (ws_connected 5) = Some w \<and>
     last (ws_events w) = WsError (Some ''req1'') t"
proof -
  have req: "wa_request demo_ws ''c'' = Some (WsCall ''audio.get'' () ''req1'')"
    by (simp add: demo_ws_def)
  obtain w where w: "handle_ws_message demo_ws 1 0 TimedOut ''c'' (ws_connected 5) = Some w"
    by (simp add: handle_ws_message_def req demo_ws_def Let_def)
  from ws_call_always_an_error [OF req w] w show ?thesis by blast
qed

end
