(* ===== verification/StardustUi.thy ===== *)
theory StardustUi
  imports StardustRoutes StardustWs "HOL-Library.Sublist"
begin

section \<open>Stardust: from a service to the screen\<close>

text \<open>
  The server side of \<open>crates/stardust/src/ws.rs\<close>: the accept loop, the handshake, and the tasks
  of one WebSocket connection (the loop that reads requests, one forwarder for each
  subscription, the task that sends) as a step relation together with the clients, the wire and
  the broker of theory \<open>StardustSystem\<close>. Other connections of the bridge are the commands that
  appear in the broker's queue.
\<close>

subsection \<open>The server\<close>

text \<open>The connections that get a task, or the error of the bind.\<close>

definition start_ws_server :: "bool \<Rightarrow> 'c accepted list \<Rightarrow> 'c list option" where
  "start_ws_server binds accepts = (if binds then Some (accept_loop accepts) else None)"

text \<open>
  One connection. The events in \<open>ui_client\<close> are those that wait for the sending task, and
  \<open>ui_written\<close> is what that task has written. \<open>ui_queued\<close> records every event that was queued
  and the channel its message came from; no rule reads it.
\<close>

record 'j ui =
  ui_client :: "'j ws_client"
  ui_reading :: bool
  ui_sending :: bool
  ui_written :: "string list"
  ui_queued :: "(chan option \<times> 'j ws_event) list"

definition ui_hello :: "'j ws_event" where
  "ui_hello = WsConnected ''luna-ui'' ''0.1.0''"

definition ws_handshake :: "'j ws_api \<Rightarrow> bool \<Rightarrow> (string \<Rightarrow> bool) \<Rightarrow> chan \<Rightarrow> 'j ui option" where
  "ws_handshake api upgrades sends ch =
     (if \<not> upgrades then None
      else case wa_to_string api ui_hello of
        None \<Rightarrow> None
      | Some t \<Rightarrow>
          if sends t
          then Some \<lparr>ui_client = ws_connected ch, ui_reading = True, ui_sending = True,
                 ui_written = [t], ui_queued = []\<rparr>
          else None)"

text \<open>
  \<open>tx.send\<close>: the events that an operation has added are queued as long as the sending task
  holds the receiver, and are lost without notice afterwards.
\<close>

definition ui_offer :: "chan option \<Rightarrow> 'j ws_client \<Rightarrow> 'j ui \<Rightarrow> 'j ui" where
  "ui_offer src v u =
     (if ui_sending u
      then u\<lparr>ui_client := v, ui_queued := ui_queued u @
             map (Pair src) (drop (length (ws_events (ui_client u))) (ws_events v))\<rparr>
      else u\<lparr>ui_client := v\<lparr>ws_events := []\<rparr>\<rparr>)"

definition ui_text ::
  "'j ws_api \<Rightarrow> uuid \<Rightarrow> u64 \<Rightarrow> (stardust_error + response) reply_wait \<Rightarrow> (string \<Rightarrow> string) \<Rightarrow>
   string \<Rightarrow> 'j ui \<Rightarrow> 'j ui" where
  "ui_text api uid now reply describe text u =
     ui_offer None (ws_text_frame api uid now reply describe text (ui_client u)) u"

definition ui_broker_message :: "'j ws_api \<Rightarrow> chan \<Rightarrow> message \<Rightarrow> 'j ui \<Rightarrow> 'j ui" where
  "ui_broker_message api ch m u = ui_offer (Some ch) (ws_broker_message api ch m (ui_client u)) u"

text \<open>
  The sending task takes the next event. One that cannot be rendered is skipped; when the socket
  refuses the text the task ends, and with its receiver go the events that still wait.
\<close>

definition ui_send_next :: "'j ws_api \<Rightarrow> bool \<Rightarrow> 'j ui \<Rightarrow> 'j ui" where
  "ui_send_next api accepts u =
     (case ws_events (ui_client u) of
        [] \<Rightarrow> u
      | e # es \<Rightarrow>
          (case wa_to_string api e of
             None \<Rightarrow> u\<lparr>ui_client := (ui_client u)\<lparr>ws_events := es\<rparr>\<rparr>
           | Some t \<Rightarrow>
               if accepts
               then u\<lparr>ui_client := (ui_client u)\<lparr>ws_events := es\<rparr>, ui_written := ui_written u @ [t]\<rparr>
               else u\<lparr>ui_client := (ui_client u)\<lparr>ws_events := []\<rparr>, ui_sending := False\<rparr>))"

subsection \<open>The connection, the bus and the clients\<close>

text \<open>
  \<open>wo_taken\<close> is the number of messages that the reader of a channel has received; the rest of
  the channel waits. \<open>wo_routed\<close> records the messages that the broker has routed since the
  connection was made, each with the state of its maps at that moment; no rule reads it.
\<close>

record 'j ui_world =
  wo_sys :: system
  wo_ui :: "'j ui"
  wo_taken :: "chan \<Rightarrow> nat"
  wo_routed :: "(envelope \<times> broker_state) list"

text \<open>The broker has taken a command exactly when its queue is shorter than before.\<close>

definition routed_since ::
  "system \<Rightarrow> system \<Rightarrow> (envelope \<times> broker_state) list \<Rightarrow> (envelope \<times> broker_state) list" where
  "routed_since s s' log =
     (if length (bus_queue (sys_bus s')) < length (bus_queue (sys_bus s))
      then (case bus_queue (sys_bus s) of
              Route env # _ \<Rightarrow> log @ [(env, bus_state (sys_bus s))]
            | _ \<Rightarrow> log)
      else log)"

definition sys_enqueue :: "broker_cmd list \<Rightarrow> system \<Rightarrow> system" where
  "sys_enqueue cmds s = s\<lparr>sys_bus := (sys_bus s)\<lparr>bus_queue := bus_queue (sys_bus s) @ cmds\<rparr>\<rparr>"

definition ui_reads :: "chan \<Rightarrow> 'j ui \<Rightarrow> bool" where
  "ui_reads ch u \<longleftrightarrow>
     ch \<in> set (ws_forwarders (ui_client u)) \<or> ch = ws_sub_chan (ui_client u) \<and> ui_reading u"

text \<open>A text frame, with the commands that its handling queues at the broker.\<close>

definition world_text ::
  "'j ws_api \<Rightarrow> uuid \<Rightarrow> u64 \<Rightarrow> (stardust_error + response) reply_wait \<Rightarrow> (string \<Rightarrow> string) \<Rightarrow>
   string \<Rightarrow> 'j ui_world \<Rightarrow> 'j ui_world" where
  "world_text api uid now reply describe text x =
     (let u' = ui_text api uid now reply describe text (wo_ui x)
      in x\<lparr>wo_ui := u', wo_sys := sys_enqueue
             (drop (length (ws_cmds (ui_client (wo_ui x)))) (ws_cmds (ui_client u'))) (wo_sys x)\<rparr>)"

text \<open>
  A text frame is one step, the wait of a call for its answer included. The premise of
  \<open>world_frame\<close> leaves out user interfaces that publish under a method that begins
  with a quotation mark. A forwarder ends when its channel has no sender any more.
\<close>

inductive world_step :: "bus_order \<Rightarrow> wire \<Rightarrow> 'j ws_api \<Rightarrow> 'j ui_world \<Rightarrow> 'j ui_world \<Rightarrow> bool" for h w api where
  world_sys:
    "sys_step h w (wo_sys x) s \<Longrightarrow>
     world_step h w api x (x\<lparr>wo_sys := s, wo_routed := routed_since (wo_sys x) s (wo_routed x)\<rparr>)"
| world_frame:
    "ui_reading (wo_ui x) \<Longrightarrow> x' = world_text api uid now reply describe text x \<Longrightarrow>
     list_all plain_bridge
       (drop (length (ws_cmds (ui_client (wo_ui x)))) (ws_cmds (ui_client (wo_ui x')))) \<Longrightarrow>
     world_step h w api x x'"
| world_forward:
    "ui_reads ch (wo_ui x) \<Longrightarrow> wo_taken x ch < length (sys_inbox (wo_sys x) ch) \<Longrightarrow>
     m = sys_inbox (wo_sys x) ch ! wo_taken x ch \<Longrightarrow>
     world_step h w api x (x\<lparr>wo_taken := (wo_taken x)(ch := Suc (wo_taken x ch)),
       wo_ui := ui_broker_message api ch m (wo_ui x)\<rparr>)"
| world_send:
    "ui_sending (wo_ui x) \<Longrightarrow>
     world_step h w api x (x\<lparr>wo_ui := ui_send_next api accepts (wo_ui x)\<rparr>)"
| world_stop_reading:
    "world_step h w api x (x\<lparr>wo_ui := (wo_ui x)\<lparr>ui_reading := False\<rparr>\<rparr>)"
| world_forwarder_ends:
    "wo_taken x ch = length (sys_inbox (wo_sys x) ch) \<Longrightarrow> ch \<notin> snd ` set (connections (bus_state (sys_bus (wo_sys x)))) \<Longrightarrow>
     \<forall>t. SubscribeDirect t ch \<notin> set (bus_queue (sys_bus (wo_sys x))) \<Longrightarrow>
     world_step h w api x (x\<lparr>wo_ui := (wo_ui x)\<lparr>ui_client := (ui_client (wo_ui x))
       \<lparr>ws_forwarders := removeAll ch (ws_forwarders (ui_client (wo_ui x)))\<rparr>\<rparr>\<rparr>)"
| world_sender_ends:
    "\<not> ui_reading (wo_ui x) \<Longrightarrow> ws_forwarders (ui_client (wo_ui x)) = [] \<Longrightarrow>
     ws_events (ui_client (wo_ui x)) = [] \<Longrightarrow>
     world_step h w api x (x\<lparr>wo_ui := (wo_ui x)\<lparr>ui_sending := False\<rparr>\<rparr>)"

text \<open>The connection is made in any reachable state of the system, on channels not yet in use.\<close>

inductive world_reachable :: "bus_order \<Rightarrow> wire \<Rightarrow> 'j ws_api \<Rightarrow> 'j ui_world \<Rightarrow> bool" for h w api where
  world_start:
    "sys_reachable h w s \<Longrightarrow> ws_handshake api upgrades sends ch = Some u \<Longrightarrow> odd ch \<Longrightarrow>
     \<forall>n \<ge> ch. odd n \<longrightarrow> sys_inbox s n = [] \<Longrightarrow>
     world_reachable h w api \<lparr>wo_sys = s, wo_ui = u, wo_taken = \<lambda>_. 0, wo_routed = []\<rparr>"
| world_more: "world_reachable h w api x \<Longrightarrow> world_step h w api x x' \<Longrightarrow> world_reachable h w api x'"

subsection \<open>Every step of the connection is a step of the system or leaves it alone\<close>

lemma ws_text_frame_extends:
  "\<exists>cmds events. ws_cmds (ws_text_frame api uid now reply describe text v) = ws_cmds v @ cmds \<and>
     ws_events (ws_text_frame api uid now reply describe text v) = ws_events v @ events \<and>
     (cmds = [] \<or> (\<exists>cmd. cmds = [cmd] \<and> bridge_cmd cmd))"
  by (auto simp: ws_text_frame_def handle_ws_message_def ws_queue_def ws_send_def Let_def
      handle_subscribe_def handle_unsubscribe_def handle_publish_def handle_register_service_def
      split: option.splits ws_request.splits)

lemma ui_offer_simps [simp]:
  "ui_reading (ui_offer src v u) = ui_reading u" "ui_sending (ui_offer src v u) = ui_sending u"
  "ui_written (ui_offer src v u) = ui_written u" "ws_cmds (ui_client (ui_offer src v u)) = ws_cmds v"
  "ws_forwarders (ui_client (ui_offer src v u)) = ws_forwarders v"
  "ws_next_chan (ui_client (ui_offer src v u)) = ws_next_chan v"
  "ws_sub_chan (ui_client (ui_offer src v u)) = ws_sub_chan v"
  by (simp_all add: ui_offer_def)

lemma world_text_sys:
  assumes "x' = world_text api uid now reply describe text x"
    and "list_all plain_bridge
       (drop (length (ws_cmds (ui_client (wo_ui x)))) (ws_cmds (ui_client (wo_ui x'))))"
  shows "wo_sys x' = wo_sys x \<or> sys_step h w (wo_sys x) (wo_sys x')"
proof -
  obtain cmds where c: "ws_cmds (ws_text_frame api uid now reply describe text (ui_client (wo_ui x))) =
      ws_cmds (ui_client (wo_ui x)) @ cmds" "cmds = [] \<or> (\<exists>cmd. cmds = [cmd] \<and> bridge_cmd cmd)"
    using ws_text_frame_extends by blast
  then have s: "wo_sys x' = sys_enqueue cmds (wo_sys x)" and plain: "list_all plain_bridge cmds"
    using assms by (simp_all add: world_text_def ui_text_def Let_def)
  from c(2) show ?thesis
  proof
    assume "cmds = []"
    with s show ?thesis by (simp add: sys_enqueue_def)
  next
    assume "\<exists>cmd. cmds = [cmd] \<and> bridge_cmd cmd"
    with plain s show ?thesis by (auto simp: sys_enqueue_def intro: sys_bridge)
  qed
qed

lemma world_step_sys:
  assumes "world_step h w api x x'"
  shows "wo_sys x' = wo_sys x \<or> sys_step h w (wo_sys x) (wo_sys x')"
  using assms
proof cases
  case (world_frame uid now reply describe req)
  with world_text_sys show ?thesis by blast
qed auto

lemma world_reachable_sys: "world_reachable h w api x \<Longrightarrow> sys_reachable h w (wo_sys x)"
proof (induction rule: world_reachable.induct)
  case (world_more x x')
  then show ?case using world_step_sys [of h w api x x'] by (auto intro: sys_more)
qed simp

text \<open>A channel of the bridge is written by the broker only.\<close>

lemma odd_inbox_grows:
  assumes "sys_step h w s s'" "odd ch"
  shows "\<exists>new. sys_inbox s' ch = sys_inbox s ch @ new"
  using assms
proof cases
  case (sys_broker b cmd q st out)
  then show ?thesis by (simp add: deliver_sent)
next
  case (sys_forward c m ms down)
  with assms(2) show ?thesis by (auto simp: conn_chan_def)
qed auto

subsection \<open>What the socket gets\<close>

text \<open>The event of a message, and what has been queued of the messages of a channel.\<close>

definition ui_event :: "'j ws_api \<Rightarrow> message \<Rightarrow> 'j ws_event" where
  "ui_event api m = WsEvent (msg_method m) (parse_params_to_value api (msg_params m))"

definition queued_from :: "chan \<Rightarrow> 'j ui \<Rightarrow> 'j ws_event list" where
  "queued_from ch u = map snd (filter (\<lambda>e. fst e = Some ch) (ui_queued u))"

definition rendered :: "'j ws_api \<Rightarrow> 'j ws_event list \<Rightarrow> string list" where
  "rendered api es = List.map_filter (wa_to_string api) es"

lemma rendered_simps [simp]:
  "rendered api [] = []" "rendered api (es @ fs) = rendered api es @ rendered api fs"
  "rendered api (e # es) = (case wa_to_string api e of None \<Rightarrow> [] | Some t \<Rightarrow> [t]) @ rendered api es"
  by (simp_all add: rendered_def List.map_filter_def split: option.split)

definition socket_inv :: "'j ws_api \<Rightarrow> 'j ui \<Rightarrow> bool" where
  "socket_inv api u \<longleftrightarrow>
     (\<exists>t. wa_to_string api ui_hello = Some t \<and>
        (if ui_sending u
         then ui_written u @ rendered api (ws_events (ui_client u)) = t # rendered api (map snd (ui_queued u))
         else ws_events (ui_client u) = [] \<and> prefix (ui_written u) (t # rendered api (map snd (ui_queued u)))))"

definition taken_inv :: "'j ws_api \<Rightarrow> 'j ui_world \<Rightarrow> chan \<Rightarrow> bool" where
  "taken_inv api x ch \<longleftrightarrow>
     wo_taken x ch \<le> length (sys_inbox (wo_sys x) ch) \<and>
     (let got = map (ui_event api) (take (wo_taken x ch) (sys_inbox (wo_sys x) ch))
      in if ui_sending (wo_ui x) then queued_from ch (wo_ui x) = got
         else prefix (queued_from ch (wo_ui x)) got)"

lemma offer_socket:
  assumes "socket_inv api u" "ws_events v = ws_events (ui_client u) @ new"
  shows "socket_inv api (ui_offer src v u)"
  using assms by (auto simp: socket_inv_def ui_offer_def comp_def)

lemma append_eq_prefix: "xs @ ys = zs \<Longrightarrow> prefix xs zs"
  by (metis prefixI)

lemma send_socket: "socket_inv api u \<Longrightarrow> ui_sending u \<Longrightarrow> socket_inv api (ui_send_next api accepts u)"
  by (auto simp: socket_inv_def ui_send_next_def split: list.split option.splits dest: append_eq_prefix)

lemma ws_broker_message_events:
  "\<exists>new. ws_events (ws_broker_message api ch m v) = ws_events v @ new"
  by (simp add: ws_broker_message_def ws_send_def)

lemma socket_step:
  assumes "world_step h w api x x'" "socket_inv api (wo_ui x)"
  shows "socket_inv api (wo_ui x')"
  using assms(1)
proof cases
  case (world_frame uid now reply describe req)
  obtain new where "ws_events (ws_text_frame api uid now reply describe req (ui_client (wo_ui x))) =
      ws_events (ui_client (wo_ui x)) @ new"
    using ws_text_frame_extends by blast
  from offer_socket [OF assms(2) this] world_frame(2) show ?thesis
    by (simp add: world_text_def ui_text_def Let_def)
next
  case (world_forward ch m)
  obtain new where "ws_events (ws_broker_message api ch m (ui_client (wo_ui x))) =
      ws_events (ui_client (wo_ui x)) @ new"
    using ws_broker_message_events by blast
  from offer_socket [OF assms(2) this] world_forward(1) show ?thesis
    by (simp add: ui_broker_message_def)
next
  case (world_send accepts)
  with send_socket [OF assms(2)] show ?thesis by simp
qed (use assms(2) in \<open>auto simp: socket_inv_def dest: append_eq_prefix split: if_splits\<close>)

lemma socket_reachable: "world_reachable h w api x \<Longrightarrow> socket_inv api (wo_ui x)"
proof (induction rule: world_reachable.induct)
  case (world_start s upgrades sends ch u)
  from world_start(2) show ?case
    by (auto simp: socket_inv_def ws_handshake_def ws_connected_def split: if_splits option.splits)
qed (blast intro: socket_step)

subsection \<open>What is taken from a channel\<close>

lemma queued_from_offer:
  assumes "ws_events v = ws_events (ui_client u) @ new"
  shows "queued_from ch (ui_offer src v u) =
    queued_from ch u @ (if ui_sending u \<and> src = Some ch then new else [])"
  using assms by (auto simp: queued_from_def ui_offer_def comp_def filter_map)

lemma taken_cong:
  "wo_taken x' ch = wo_taken x ch \<Longrightarrow> \<exists>new. sys_inbox (wo_sys x') ch = sys_inbox (wo_sys x) ch @ new \<Longrightarrow>
   queued_from ch (wo_ui x') = queued_from ch (wo_ui x) \<Longrightarrow> (ui_sending (wo_ui x') \<longrightarrow> ui_sending (wo_ui x)) \<Longrightarrow>
   taken_inv api x ch \<Longrightarrow> taken_inv api x' ch"
  by (auto simp: taken_inv_def Let_def split: if_splits)

lemma forwarded_event:
  assumes "ui_reads ch u"
  shows "ws_events (ws_broker_message api ch m (ui_client u)) = ws_events (ui_client u) @ [ui_event api m]"
  using assms by (auto simp: ui_reads_def ws_broker_message_def ws_send_def ui_event_def)

lemma taken_step:
  assumes "world_step h w api x x'" "odd ch" "taken_inv api x ch"
  shows "taken_inv api x' ch"
  using assms(1)
proof cases
  case (world_sys s)
  with odd_inbox_grows [OF world_sys(2) assms(2)] show ?thesis
    by (intro taken_cong [OF _ _ _ _ assms(3)]) auto
next
  case (world_frame uid now reply describe req)
  obtain new where "ws_events (ws_text_frame api uid now reply describe req (ui_client (wo_ui x))) =
      ws_events (ui_client (wo_ui x)) @ new"
    using ws_text_frame_extends by blast
  note q = queued_from_offer [OF this, of ch None]
  show ?thesis
    by (rule taken_cong [OF _ _ _ _ assms(3)])
      (simp_all add: world_frame(2) world_text_def ui_text_def Let_def q sys_enqueue_def)
next
  case (world_forward ch' m)
  note q = queued_from_offer [OF forwarded_event [OF world_forward(2)], of ch "Some ch'"]
  show ?thesis
  proof (cases "ch' = ch")
    case True
    with assms(3) world_forward q show ?thesis
      by (auto simp: taken_inv_def ui_broker_message_def take_Suc_conv_app_nth Let_def prefix_def split: if_splits)
  next
    case False
    then show ?thesis
      by (intro taken_cong [OF _ _ _ _ assms(3)]) (simp_all add: world_forward(1) ui_broker_message_def q)
  qed
next
  case (world_send accepts)
  then show ?thesis
    by (intro taken_cong [OF _ _ _ _ assms(3)])
      (auto simp: ui_send_next_def queued_from_def split: list.split option.split)
qed (use assms(3) in \<open>auto intro: taken_cong simp: queued_from_def\<close>)

lemma taken_reachable: "world_reachable h w api x \<Longrightarrow> odd ch \<Longrightarrow> taken_inv api x ch"
proof (induction rule: world_reachable.induct)
  case (world_start s upgrades sends ch' u)
  from world_start(2) show ?case
    by (auto simp: taken_inv_def queued_from_def ws_handshake_def split: if_splits option.splits)
qed (blast intro: taken_step)

subsection \<open>The broker keeps the order of a publisher\<close>

text \<open>The messages of a connection that wait to be routed, and those that have been read and are no control messages.\<close>

fun routes_of :: "conn_id \<Rightarrow> broker_cmd list \<Rightarrow> message list" where
  "routes_of c [] = []"
| "routes_of c (Route env # q) = (if env_sender env = c then env_msg env # routes_of c q else routes_of c q)"
| "routes_of c (_ # q) = routes_of c q"

definition published :: "message list \<Rightarrow> message list" where
  "published ms = filter (\<lambda>m. \<not> control (msg_method m)) ms"

lemma routes_of_append [simp]: "routes_of c (q @ r) = routes_of c q @ routes_of c r"
  by (induction c q rule: routes_of.induct) simp_all

lemma routes_of_Cons:
  "routes_of c (cmd # q) =
     (case cmd of Route env \<Rightarrow> (if env_sender env = c then [env_msg env] else []) | _ \<Rightarrow> []) @ routes_of c q"
  by (cases cmd) simp_all

lemma published_append [simp]: "published (xs @ ys) = published xs @ published ys"
  by (simp add: published_def)

lemma routes_of_dispatch: "routes_of c [dispatch d reply m] = (if d = c then published [m] else [])"
  by (simp add: dispatch_def published_def control_def)

lemma routes_of_bridge: "bridge_cmd cmd \<Longrightarrow> c \<noteq> 0 \<Longrightarrow> routes_of c [cmd] = []"
  by (cases cmd) auto

lemma send_to_message: "Deliver tx m \<in> set (send_to st m' c) \<Longrightarrow> m = m'"
  by (cases "map_of (connections st) c") (simp_all add: send_to_def)

lemma routed_message:
  "Deliver tx m \<in> set (snd (run_broker_cmd h cmd st)) \<Longrightarrow> \<exists>env. cmd = Route env \<and> m = env_msg env"
proof (cases cmd)
  case (Route env)
  assume "Deliver tx m \<in> set (snd (run_broker_cmd h cmd st))"
  then have "Deliver tx m \<in> set (route_direct st env) \<or> Deliver tx m \<in> set (route_topics h st env)"
    by (simp add: Route)
  moreover have "Deliver tx m \<in> set (route_direct st env) \<Longrightarrow> m = env_msg env"
    by (cases "map_of (services st) (msg_dst (env_msg env))")
      (auto simp: route_direct_None route_direct_Some split: if_splits dest: send_to_message)
  moreover have "Deliver tx m \<in> set (route_topics h st env) \<Longrightarrow> m = env_msg env"
    by (auto simp: route_topics_def Let_def split: if_splits dest: send_to_message)
  ultimately show ?thesis using Route by blast
qed (auto simp: Let_def split: option.splits)

lemma unrouted:
  assumes "\<And>env. cmd \<noteq> Route env"
  shows "concat (map (sent_to ch) (snd (run_broker_cmd h cmd st))) = []"
  using assms by (cases cmd) (auto simp: Let_def split: option.splits)

text \<open>What has been routed of a publisher.\<close>

definition routed_by :: "conn_id \<Rightarrow> (envelope \<times> broker_state) list \<Rightarrow> message list" where
  "routed_by c log = map (\<lambda>p. env_msg (fst p)) (filter (\<lambda>p. env_sender (fst p) = c) log)"

lemma routed_by_simps [simp]:
  "routed_by c [] = []"
  "routed_by c (log @ [(env, st)]) = routed_by c log @ (if env_sender env = c then [env_msg env] else [])"
  by (simp_all add: routed_by_def)

lemma routed_since_same:
  "length (bus_queue (sys_bus s)) \<le> length (bus_queue (sys_bus s')) \<Longrightarrow> routed_since s s' log = log"
  by (simp add: routed_since_def)

lemma routed_since_broker:
  assumes "bus_queue (sys_bus s) = cmd # q" "bus_queue (sys_bus s') = q"
  shows "routed_since s s' log =
    (case cmd of Route env \<Rightarrow> log @ [(env, bus_state (sys_bus s))] | _ \<Rightarrow> log)"
  using assms by (cases cmd) (simp_all add: routed_since_def)

definition publish_order :: "conn_id \<Rightarrow> system \<Rightarrow> (envelope \<times> broker_state) list \<Rightarrow> bool" where
  "publish_order c s log \<longleftrightarrow>
     (\<exists>old. old @ routed_by c log @ routes_of c (bus_queue (sys_bus s)) = published (sys_got s c))"

lemma publish_order_cong:
  "publish_order c s log \<Longrightarrow>
   routes_of c (bus_queue (sys_bus s')) = routes_of c (bus_queue (sys_bus s)) @ new \<Longrightarrow>
   published (sys_got s' c) = published (sys_got s c) @ new \<Longrightarrow> publish_order c s' log"
  unfolding publish_order_def by (metis append.assoc)

lemma order_step:
  assumes "sys_step h w s s'" "c \<noteq> 0" "publish_order c s log"
  shows "publish_order c s' (routed_since s s' log)"
  using assms(1)
proof cases
  case (sys_incoming b d m rest reply)
  then show ?thesis
    by (subst routed_since_same)
      (auto intro: publish_order_cong [OF assms(3), where new = "if d = c then published [m] else []"]
        simp: routes_of_dispatch)
next
  case (sys_close b d)
  then show ?thesis
    by (subst routed_since_same) (auto intro: publish_order_cong [OF assms(3), where new = "[]"])
next
  case (sys_bridge b cmd)
  then show ?thesis
    by (subst routed_since_same)
      (auto intro: publish_order_cong [OF assms(3), where new = "[]"] simp: routes_of_bridge [OF _ assms(2)])
next
  case (sys_broker b cmd q st out)
  then have "routed_since s s' log = (case cmd of Route env \<Rightarrow> log @ [(env, bus_state (sys_bus s))] | _ \<Rightarrow> log)"
    by (intro routed_since_broker) simp_all
  moreover from assms(3) sys_broker obtain old where
    "old @ routed_by c log @ routes_of c (cmd # q) = published (sys_got s c)"
    by (auto simp: publish_order_def)
  ultimately show ?thesis
    unfolding publish_order_def using sys_broker
    by (intro exI [of _ old]) (cases cmd; auto split: if_splits)
qed (subst routed_since_same, simp, rule publish_order_cong [OF assms(3), where new = "[]"], simp_all)+

lemma order_forget: "publish_order c s log \<Longrightarrow> publish_order c s []"
  unfolding publish_order_def by (metis append.assoc append_Nil routed_by_simps(1))

lemma order_start: "sys_reachable h w s \<Longrightarrow> c \<noteq> 0 \<Longrightarrow> publish_order c s []"
proof (induction rule: sys_reachable.induct)
  case sys_start
  show ?case
    unfolding publish_order_def
    by (intro exI [of _ "[]"]) (simp add: sys_init_def bus_init_def published_def)
next
  case (sys_more s s')
  with order_forget order_step show ?case by blast
qed

text \<open>A text frame of the connection adds to the broker's queue and to nothing else of the system.\<close>

lemma world_text_frame:
  assumes "x' = world_text api uid now reply describe text x"
  shows "wo_routed x' = wo_routed x" "sys_inbox (wo_sys x') = sys_inbox (wo_sys x)"
    "routed_since (wo_sys x) (wo_sys x') log = log"
  using assms by (simp_all add: world_text_def Let_def sys_enqueue_def routed_since_same)

lemma world_order:
  assumes "world_step h w api x x'" "c \<noteq> 0" "publish_order c (wo_sys x) (wo_routed x)"
  shows "publish_order c (wo_sys x') (wo_routed x')"
  using assms(1)
proof cases
  case (world_sys s)
  with order_step [OF world_sys(2) assms(2,3)] show ?thesis by simp
next
  case (world_frame uid now reply describe req)
  note frame = world_text_frame [OF world_frame(2)]
  from world_text_sys [OF world_frame(2,3), of h w] show ?thesis
  proof
    assume step: "sys_step h w (wo_sys x) (wo_sys x')"
    from order_step [OF step assms(2,3)] show ?thesis by (simp add: frame)
  qed (use assms(3) frame in simp)
qed (use assms(3) in auto)

lemma order_reachable: "world_reachable h w api x \<Longrightarrow> c \<noteq> 0 \<Longrightarrow> publish_order c (wo_sys x) (wo_routed x)"
proof (induction rule: world_reachable.induct)
  case (world_start s upgrades sends ch' u)
  then show ?case by (simp add: order_start)
qed (blast intro: world_order)

text \<open>In the channels of the connection is what they are owed of the messages routed since.\<close>

lemma sub_chan_frame [simp]:
  "ws_sub_chan (ws_text_frame api uid now reply describe req v) = ws_sub_chan v"
  "ws_sub_chan (ws_broker_message api d m v) = ws_sub_chan v"
  by (auto simp: ws_text_frame_def handle_ws_message_def ws_queue_def ws_send_def Let_def
      ws_broker_message_def split: option.split ws_request.split)

lemma sub_chan_step:
  "world_step h w api x x' \<Longrightarrow> ws_sub_chan (ui_client (wo_ui x')) = ws_sub_chan (ui_client (wo_ui x))"
  by (induction rule: world_step.induct)
    (auto simp: world_text_def ui_text_def ui_broker_message_def ui_send_next_def Let_def
      split: list.split option.split)

lemma sub_chan_steps:
  "(world_step h w api)\<^sup>*\<^sup>* x x' \<Longrightarrow> ws_sub_chan (ui_client (wo_ui x')) = ws_sub_chan (ui_client (wo_ui x))"
  by (induction rule: rtranclp_induct) (simp_all add: sub_chan_step)

lemma owed_step:
  assumes "sys_step h w s s'" "fair_bus_order h" "broker_ok (bus_state (sys_bus s))" "odd ch"
    and "sys_inbox s ch = owed_copies ch log"
  shows "sys_inbox s' ch = owed_copies ch (routed_since s s' log)"
  using assms(1)
proof cases
  case (sys_broker b cmd q st out)
  then have log: "routed_since s s' log = (case cmd of Route env \<Rightarrow> log @ [(env, bus_state (sys_bus s))] | _ \<Rightarrow> log)"
    by (intro routed_since_broker) simp_all
  have new: "sys_inbox s' ch = sys_inbox s ch @ concat (map (sent_to ch) (snd (run_broker_cmd h cmd (bus_state (sys_bus s)))))"
    using sys_broker by (simp add: deliver_sent)
  show ?thesis
  proof (cases "\<exists>env. cmd = Route env")
    case True
    then obtain env where "cmd = Route env" by blast
    with log new show ?thesis
      using routed_into [OF assms(2,3), of ch env] assms(5) by simp
  next
    case False
    then have "routed_since s s' log = log" using log by (cases cmd) simp_all
    with new False show ?thesis using unrouted [of cmd ch h] assms(5) by simp
  qed
next
  case (sys_forward d m ms down)
  have "ch \<noteq> conn_chan d" using assms(4) by (auto simp: conn_chan_def)
  with sys_forward assms(5) show ?thesis by (simp add: routed_since_same)
qed (use assms(5) in \<open>simp_all add: routed_since_same\<close>)

lemma owed_reachable:
  "world_reachable h w api x \<Longrightarrow> fair_bus_order h \<Longrightarrow> odd ch \<Longrightarrow> ws_sub_chan (ui_client (wo_ui x)) \<le> ch \<Longrightarrow>
   sys_inbox (wo_sys x) ch = owed_copies ch (wo_routed x)"
proof (induction rule: world_reachable.induct)
  case (world_start s upgrades sends ch' u)
  then show ?case by (auto simp: ws_handshake_def ws_connected_def split: if_splits option.splits)
next
  case (world_more x x')
  have "ws_sub_chan (ui_client (wo_ui x)) \<le> ch"
    using world_more.prems(3) sub_chan_step [OF world_more(2)] by simp
  with world_more have IH: "sys_inbox (wo_sys x) ch = owed_copies ch (wo_routed x)" by blast
  note step = owed_step [OF _ world_more.prems(1) sys_broker_ok [OF world_reachable_sys [OF world_more(1)]]
      world_more.prems(2) IH]
  from world_more(2) show ?case
  proof cases
    case (world_sys s)
    with step [OF world_sys(2)] show ?thesis by simp
  next
    case (world_frame uid now reply describe req)
    show ?thesis unfolding world_text_frame(1,2) [OF world_frame(2)] by (rule IH)
  qed (use IH in simp_all)
qed

subsection \<open>Runs of the connection\<close>

abbreviation world_steps :: "bus_order \<Rightarrow> wire \<Rightarrow> 'j ws_api \<Rightarrow> 'j ui_world \<Rightarrow> 'j ui_world \<Rightarrow> bool" where
  "world_steps h w api \<equiv> (world_step h w api)\<^sup>*\<^sup>*"

lemma world_reachable_steps:
  "world_steps h w api x x' \<Longrightarrow> world_reachable h w api x \<Longrightarrow> world_reachable h w api x'"
  by (induction rule: rtranclp_induct) (auto intro: world_more)

lemma world_lift:
  "sys_steps h w (wo_sys x) s \<Longrightarrow> \<exists>log. world_steps h w api x (x\<lparr>wo_sys := s, wo_routed := log\<rparr>)"
proof (induction rule: rtranclp_induct)
  case base
  show ?case by (rule exI [of _ "wo_routed x"]) simp
next
  case (step s s')
  then obtain log where steps: "world_steps h w api x (x\<lparr>wo_sys := s, wo_routed := log\<rparr>)" by blast
  have "world_step h w api (x\<lparr>wo_sys := s, wo_routed := log\<rparr>)
      (x\<lparr>wo_sys := s', wo_routed := routed_since s s' log\<rparr>)"
    using world_sys [where x = "x\<lparr>wo_sys := s, wo_routed := log\<rparr>" and s = s'] step.hyps(2) by simp
  with steps show ?case by (blast intro: rtranclp.rtrancl_into_rtrancl)
qed

lemma channel_drains:
  assumes "ui_reads ch (wo_ui x)" "ui_sending (wo_ui x)"
  shows "\<exists>x'. world_steps h w api x x' \<and> ui_sending (wo_ui x') \<and> ui_written (wo_ui x') = ui_written (wo_ui x) \<and>
     ws_events (ui_client (wo_ui x')) = ws_events (ui_client (wo_ui x)) @
       map (ui_event api) (drop (wo_taken x ch) (sys_inbox (wo_sys x) ch))"
  using assms
proof (induction "length (sys_inbox (wo_sys x) ch) - wo_taken x ch" arbitrary: x)
  case 0
  then show ?case by (intro exI [of _ x]) simp
next
  case (Suc n)
  let ?m = "sys_inbox (wo_sys x) ch ! wo_taken x ch"
  let ?x = "x\<lparr>wo_taken := (wo_taken x)(ch := Suc (wo_taken x ch)), wo_ui := ui_broker_message api ch ?m (wo_ui x)\<rparr>"
  from Suc.hyps(2) have less: "wo_taken x ch < length (sys_inbox (wo_sys x) ch)" by linarith
  have step: "world_step h w api x ?x" by (rule world_forward [OF Suc.prems(1) less refl])
  have events: "ws_events (ui_client (wo_ui ?x)) = ws_events (ui_client (wo_ui x)) @ [ui_event api ?m]"
    using forwarded_event [OF Suc.prems(1)] Suc.prems(2) by (simp add: ui_broker_message_def ui_offer_def)
  have reads: "ui_reads ch (wo_ui ?x)"
    using Suc.prems(1) by (auto simp: ui_reads_def ui_broker_message_def ws_broker_message_def ws_send_def)
  have "ui_sending (wo_ui ?x)" "n = length (sys_inbox (wo_sys ?x) ch) - wo_taken ?x ch"
    using Suc.prems(2) Suc.hyps(2) by (simp_all add: ui_broker_message_def)
  from Suc.hyps(1) [OF this(2) reads this(1)] obtain x' where x': "world_steps h w api ?x x'"
      "ui_sending (wo_ui x')" "ui_written (wo_ui x') = ui_written (wo_ui x)"
      "ws_events (ui_client (wo_ui x')) = ws_events (ui_client (wo_ui ?x)) @
         map (ui_event api) (drop (Suc (wo_taken x ch)) (sys_inbox (wo_sys x) ch))"
    by (auto simp: ui_broker_message_def)
  from step x'(1) have "world_steps h w api x x'" by (rule converse_rtranclp_into_rtranclp)
  with x'(2-4) show ?case
    unfolding events using less by (intro exI [of _ x']) (simp add: Cons_nth_drop_Suc [symmetric])
qed

lemma events_drain:
  "ui_sending (wo_ui x) \<Longrightarrow> \<exists>x'. world_steps h w api x x' \<and> ui_sending (wo_ui x') \<and>
     ui_written (wo_ui x') = ui_written (wo_ui x) @ rendered api (ws_events (ui_client (wo_ui x)))"
proof (induction "ws_events (ui_client (wo_ui x))" arbitrary: x)
  case Nil
  then show ?case by (intro exI [of _ x]) simp
next
  case (Cons e es)
  let ?x = "x\<lparr>wo_ui := ui_send_next api True (wo_ui x)\<rparr>"
  have step: "world_step h w api x ?x" by (rule world_send [OF Cons.prems])
  have sent: "ws_events (ui_client (wo_ui ?x)) = es" "ui_sending (wo_ui ?x)"
    "ui_written (wo_ui ?x) = ui_written (wo_ui x) @ rendered api [e]"
    using Cons.hyps(2) [symmetric] Cons.prems by (simp_all add: ui_send_next_def split: option.split)
  from Cons.hyps(1) [OF sent(1) [symmetric] sent(2)] obtain x' where x': "world_steps h w api ?x x'"
      "ui_written (wo_ui x') = ui_written (wo_ui ?x) @ rendered api es" "ui_sending (wo_ui x')"
    unfolding sent(1) by blast
  from step x'(1) have "world_steps h w api x x'" by (rule converse_rtranclp_into_rtranclp)
  with x'(2,3) show ?case unfolding sent(3) Cons.hyps(2) [symmetric] by (intro exI [of _ x']) simp
qed

lemma next_chan_odd: "world_reachable h w api x \<Longrightarrow> odd (ws_next_chan (ui_client (wo_ui x)))"
proof (induction rule: world_reachable.induct)
  case (world_start s upgrades sends ch u)
  then show ?case by (auto simp: ws_handshake_def ws_connected_def split: if_splits option.splits)
next
  case (world_more x x')
  have odds: "odd (ws_next_chan v) \<Longrightarrow> odd (ws_next_chan (ws_text_frame api uid now reply describe req v))"
    "ws_next_chan (ws_broker_message api d m v) = ws_next_chan v" for uid now reply describe req d m v
    by (auto simp: ws_text_frame_def handle_ws_message_def ws_queue_def ws_send_def Let_def
        ws_broker_message_def split: option.split ws_request.split)
  from world_more(2) show ?case
  proof cases
    case (world_send accepts)
    with world_more show ?thesis by (auto simp: ui_send_next_def split: list.splits option.splits)
  qed (use world_more odds in \<open>auto simp: world_text_def ui_text_def ui_broker_message_def Let_def\<close>)
qed

text \<open>A subscription: its channel gets a forwarder, and its command is queued.\<close>

lemma subscribe_frame:
  assumes "world_reachable h w api x" "ui_reading (wo_ui x)" "wa_request api req = Some (WsSubscribe topic)"
    and "x' = world_text api uid now reply describe req x" "ch = ws_next_chan (ui_client (wo_ui x))"
  shows "world_step h w api x x'" "ui_reads ch (wo_ui x')"
    "wo_sys x' = sys_enqueue [SubscribeDirect topic ch] (wo_sys x)"
    "ui_sending (wo_ui x') = ui_sending (wo_ui x)" "ui_written (wo_ui x') = ui_written (wo_ui x)"
    "wo_taken x' = wo_taken x"
proof -
  have frame: "ws_text_frame api uid now reply describe req v = ws_queue (SubscribeDirect topic (ws_next_chan v)) v
      \<lparr>ws_forwarders := ws_forwarders v @ [ws_next_chan v], ws_next_chan := ws_next_chan v + 2\<rparr>" for v
    using assms(3) by (simp add: ws_text_frame_def handle_ws_message_def handle_subscribe_def Let_def)
  note defs = assms(4,5) world_text_def ui_text_def Let_def frame ws_queue_def
  show "ui_reads ch (wo_ui x')" "wo_sys x' = sys_enqueue [SubscribeDirect topic ch] (wo_sys x)"
    "ui_sending (wo_ui x') = ui_sending (wo_ui x)" "ui_written (wo_ui x') = ui_written (wo_ui x)"
    "wo_taken x' = wo_taken x"
    by (simp_all add: defs ui_reads_def)
  show "world_step h w api x x'"
    by (rule world_frame [OF assms(2,4)]) (use next_chan_odd [OF assms(1)] in \<open>simp add: defs\<close>)
qed

subsection \<open>What a closed connection leaves behind\<close>

lemma tuned_sys_step:
  assumes "sys_step h w s s'" "bus_inv (sys_bus s)" "bus_young (sys_bus s)"
    and "tuned (bus_state (sys_bus s)) t d ch" "\<not> small d"
    and "bus_directs (sys_bus s') = bus_directs (sys_bus s)"
  shows "tuned (bus_state (sys_bus s')) t d ch"
  using assms(1)
proof cases
  case (sys_connect b c)
  then have "unat c < bus_accepts (sys_bus s)" using assms(2) by (auto simp: bus_inv_def counts_inv_def)
  with assms(3) have "small c" by (simp add: bus_young_def small_def)
  with assms(5) have "c \<noteq> d" by blast
  with assms(4) sys_connect(1,2) show ?thesis by (auto simp: tuned_def hashmap_simps)
next
  case (sys_broker b cmd q st out)
  have "\<not> is_direct cmd" using assms(6) sys_broker by (auto split: if_splits)
  moreover have "adds_conn cmd \<noteq> Some d"
    using queued_about_small [OF assms(2,3), of cmd d] assms(5) sys_broker by auto
  moreover have "broker_ok (bus_state (sys_bus s))" using assms(2) by (simp add: bus_inv_def)
  ultimately show ?thesis
    using tuned_step [OF assms(4), of cmd h] sys_broker by simp
qed (use assms(4) in simp_all)

text \<open>
  Nothing ends a subscription of the bridge. As long as no other direct subscription is handled
  (which could take its connection id), it stays in place and its forwarder stays, also when the
  user interface has closed the connection and neither the reader nor the sending task is left:
  the broker goes on filling the channel, and the forwarder throws the events away.
\<close>

lemma subscription_outlives_connection:
  assumes "world_reachable h w api x" "bus_young (sys_bus (wo_sys x))" "world_step h w api x x'"
    and "tuned (bus_state (sys_bus (wo_sys x))) t d ch" "\<not> small d"
    and "bus_directs (sys_bus (wo_sys x')) = bus_directs (sys_bus (wo_sys x))"
  shows "tuned (bus_state (sys_bus (wo_sys x'))) t d ch"
    and "ch \<in> set (ws_forwarders (ui_client (wo_ui x))) \<Longrightarrow> ch \<in> set (ws_forwarders (ui_client (wo_ui x')))"
proof -
  have inv: "bus_inv (sys_bus (wo_sys x))"
    by (rule bus_reachable_inv [OF sys_reachable_bus [OF world_reachable_sys [OF assms(1)]] assms(2)])
  from world_step_sys [OF assms(3)] show "tuned (bus_state (sys_bus (wo_sys x'))) t d ch"
  proof
    assume "sys_step h w (wo_sys x) (wo_sys x')"
    from tuned_sys_step [OF this inv assms(2,4,5,6)] show ?thesis .
  qed (use assms(4) in simp)
  have kept: "ch \<in> set (ws_forwarders v) \<Longrightarrow> ch \<in> set (ws_forwarders (ws_text_frame api uid now reply describe req v))"
    "ws_forwarders (ws_broker_message api e m v) = ws_forwarders v" for uid now reply describe req e m v
    by (auto simp: ws_text_frame_def handle_ws_message_def ws_queue_def ws_send_def Let_def
        ws_broker_message_def split: option.split ws_request.split)
  assume fw: "ch \<in> set (ws_forwarders (ui_client (wo_ui x)))"
  from assms(3) show "ch \<in> set (ws_forwarders (ui_client (wo_ui x')))"
  proof cases
    case (world_send accepts)
    with fw show ?thesis by (auto simp: ui_send_next_def split: list.split option.split)
  next
    case (world_forwarder_ends e)
    from assms(4) have "ch \<in> snd ` set (connections (bus_state (sys_bus (wo_sys x))))"
      by (force simp: tuned_def dest: map_of_SomeD)
    with world_forwarder_ends fw show ?thesis by auto
  qed (use fw kept in \<open>auto simp: world_text_def ui_text_def ui_broker_message_def Let_def\<close>)
qed

subsection \<open>From a service to the screen\<close>

lemma request_heard:
  assumes "world_reachable h w api x" "ui_reading (wo_ui x)" "ui_sending (wo_ui x)"
    and "wa_request api req = Some (WsSubscribe topic)"
    and "b = sys_bus (wo_sys x)" "bus_accepts b + bus_directs b + length (filter is_direct (bus_queue b)) < 100000"
    and "cbor_ok w" "fair_bus_order h"
    and "c \<in> bus_live b" "cl_open (sys_client (wo_sys x) c)" "m \<in> set (cl_queue (sys_client (wo_sys x) c))"
    and "\<forall>m \<in> set (cl_queue (sys_client (wo_sys x) c)). wi_into_cbor w m \<noteq> None"
    and "\<not> control (msg_method m)" "matches_topic m topic"
    and "wa_to_string api (WsEvent (msg_method m) (parse_params_to_value api (msg_params m))) = Some t"
    and "x1 = world_text api uid now reply describe req x"
  shows "world_step h w api x x1 \<and> (\<exists>x2. (world_step h w api)\<^sup>*\<^sup>* x1 x2 \<and>
    t \<in> set (drop (length (ui_written (wo_ui x1))) (ui_written (wo_ui x2))) \<and> ui_sending (wo_ui x2))"
proof -
  let ?ch = "ws_next_chan (ui_client (wo_ui x))"
  note f = subscribe_frame [OF assms(1,2,4,16) refl]
  note r1 = world_reachable_sys [OF world_more [OF assms(1) f(1)]]
  have bus: "bus_queue (sys_bus (wo_sys x1)) = bus_queue b @ [SubscribeDirect topic ?ch]"
    "bus_accepts (sys_bus (wo_sys x1)) + bus_directs (sys_bus (wo_sys x1)) + length (filter is_direct (bus_queue b)) < 100000"
    "bus_live (sys_bus (wo_sys x1)) = bus_live b" "sys_client (wo_sys x1) = sys_client (wo_sys x)"
    "sys_inbox (wo_sys x1) = sys_inbox (wo_sys x)"
    using assms(5,6) by (simp_all add: f(3) sys_enqueue_def)
  obtain s new where s: "sys_steps h w (wo_sys x1) s" "sys_inbox s ?ch = sys_inbox (wo_sys x1) ?ch @ new" "m \<in> set new"
    using request_reaches_channel [OF r1 bus(2) assms(7,8) bus(1), of c m] assms(9-14) bus(3,4)
    by auto
  obtain log where put: "world_steps h w api x1 (x1\<lparr>wo_sys := s, wo_routed := log\<rparr>)" (is "world_steps h w api x1 ?x2")
    using world_lift [OF s(1)] by blast
  have "ui_reads ?ch (wo_ui ?x2)" "ui_sending (wo_ui ?x2)" using f(2,4) assms(3) by simp_all
  then obtain x3 where x3: "world_steps h w api ?x2 x3" "ui_sending (wo_ui x3)"
      "ui_written (wo_ui x3) = ui_written (wo_ui x1)" "ws_events (ui_client (wo_ui x3)) =
        ws_events (ui_client (wo_ui x1)) @ map (ui_event api) (drop (wo_taken x1 ?ch) (sys_inbox s ?ch))"
    using channel_drains [of ?ch ?x2 h w api] by auto
  obtain x4 where x4: "world_steps h w api x3 x4" "ui_sending (wo_ui x4)"
      "ui_written (wo_ui x4) = ui_written (wo_ui x3) @ rendered api (ws_events (ui_client (wo_ui x3)))"
    using events_drain [OF x3(2)] by blast
  note written = x4(3)
  have "wo_taken x1 ?ch \<le> length (sys_inbox (wo_sys x1) ?ch)"
    using taken_reachable [OF assms(1) next_chan_odd [OF assms(1)]] by (simp add: taken_inv_def f(6) bus(5))
  with s(2,3) have "m \<in> set (drop (wo_taken x1 ?ch) (sys_inbox s ?ch))" by simp
  then have "ui_event api m \<in> set (ws_events (ui_client (wo_ui x3)))" by (simp add: x3(4))
  then have "t \<in> set (rendered api (ws_events (ui_client (wo_ui x3))))"
    using assms(15) by (force simp: rendered_def List.map_filter_def ui_event_def)
  then have "t \<in> set (drop (length (ui_written (wo_ui x1))) (ui_written (wo_ui x4)))"
    by (simp add: written x3(3))
  moreover from put x3(1) x4(1) have "world_steps h w api x1 x4" by (meson rtranclp_trans)
  ultimately show ?thesis using f(1) x4(2) by blast
qed

text \<open>
  Property C5. The user interface can hear the services. Take any reachable state in which the
  connection of the user interface reads and sends, whatever else is going on in it: half a frame
  in a buffer, older messages unsent, commands of other connections and other subscriptions of
  the bridge in the broker's queue. A service's connection is live, its client is still open, a
  message that is no control message waits in the client's queue, and every message of that queue
  can be encoded; the topic matches the message, and JSON renders the message's event. Then the
  request to subscribe to the topic is a step, and from there the system can be run until the
  text of the event has been written to the user interface: through the service's socket, the
  broker's queue, the channel of the subscription, the forwarder and the sending task. The state
  has a bound: connections accepted and bridge subscriptions, handled or waiting, are fewer than
  100000 together (beyond, the broker's invented connection ids can collide). The codec behaves
  as documented (CBOR texts read back and stay under 4 GB), and hash maps visit every key once.
\<close>

theorem ui_can_hear_services:
  assumes "world_reachable h w api x" "ui_reading (wo_ui x)" "ui_sending (wo_ui x)"
    and "wa_request api req = Some (WsSubscribe topic)"
    and "b = sys_bus (wo_sys x)" "bus_accepts b + bus_directs b + length (filter is_direct (bus_queue b)) < 100000"
    and "cbor_ok w" "fair_bus_order h"
    and "c \<in> bus_live b" "cl_open (sys_client (wo_sys x) c)" "m \<in> set (cl_queue (sys_client (wo_sys x) c))"
    and "\<forall>m \<in> set (cl_queue (sys_client (wo_sys x) c)). wi_into_cbor w m \<noteq> None"
    and "\<not> control (msg_method m)" "matches_topic m topic"
    and "wa_to_string api (WsEvent (msg_method m) (parse_params_to_value api (msg_params m))) = Some t"
    and "x1 = world_text api uid now reply describe req x"
  shows "world_step h w api x x1 \<and> (\<exists>x2. (world_step h w api)\<^sup>*\<^sup>* x1 x2 \<and>
    t \<in> set (drop (length (ui_written (wo_ui x1))) (ui_written (wo_ui x2))))"
  using request_heard [OF assms] by blast

text \<open>
  Property C6. On the way from a service to the screen nothing is invented, overtaken or left
  out while the connection lasts. As long as the sending task runs, the texts on the socket and
  the events that wait are the greeting and the events queued; the events queued for a channel of
  the connection, followed by the messages waiting in it, are exactly what the channel is owed of
  the messages routed since the connection was made, in the order of their routing, each as often
  as the connections that write to the channel were owed it when it was routed; and the messages
  routed for one service are a piece, without a gap, of what this service published: before them
  what was routed earlier, after them what waits in the broker's queue and what has not been
  read yet. The service is any but connection zero, whose number the bridge shares. The codec
  behaves as documented (CBOR texts read back and stay under 4 GB), and hash maps visit every
  key once, in any order.
\<close>

theorem ui_hears_in_order:
  assumes "world_reachable h w api x" "cbor_ok w" "fair_bus_order h"
    and "odd ch" "ws_sub_chan (ui_client (wo_ui x)) \<le> ch" "c \<noteq> 0" "ui_sending (wo_ui x)"
  shows "\<exists>t old unread. wa_to_string api ui_hello = Some t \<and>
    ui_written (wo_ui x) @ rendered api (ws_events (ui_client (wo_ui x))) =
      t # rendered api (map snd (ui_queued (wo_ui x))) \<and>
    queued_from ch (wo_ui x) @ map (ui_event api) (drop (wo_taken x ch) (sys_inbox (wo_sys x) ch)) =
      map (ui_event api) (owed_copies ch (wo_routed x)) \<and>
    published (sys_sent (wo_sys x) c) =
      old @ routed_by c (wo_routed x) @ routes_of c (bus_queue (sys_bus (wo_sys x))) @ published unread \<and>
    sys_sent (wo_sys x) c = sys_got (wo_sys x) c @ unread"
proof -
  from socket_reachable [OF assms(1)] assms(7) obtain t where t: "wa_to_string api ui_hello = Some t"
      "ui_written (wo_ui x) @ rendered api (ws_events (ui_client (wo_ui x))) =
        t # rendered api (map snd (ui_queued (wo_ui x)))"
    by (auto simp: socket_inv_def)
  have "queued_from ch (wo_ui x) = map (ui_event api) (take (wo_taken x ch) (sys_inbox (wo_sys x) ch))"
    using taken_reachable [OF assms(1,4)] assms(7) by (simp add: taken_inv_def)
  then have queued: "queued_from ch (wo_ui x) @ map (ui_event api) (drop (wo_taken x ch) (sys_inbox (wo_sys x) ch)) =
      map (ui_event api) (owed_copies ch (wo_routed x))"
    by (simp add: owed_reachable [OF assms(1,3,4,5), symmetric] flip: map_append)
  obtain old where old: "old @ routed_by c (wo_routed x) @ routes_of c (bus_queue (sys_bus (wo_sys x))) =
      published (sys_got (wo_sys x) c)"
    using order_reachable [OF assms(1,6)] by (auto simp: publish_order_def)
  obtain unread where unread: "sys_sent (wo_sys x) c = sys_got (wo_sys x) c @ unread"
    using fifo_reachable [OF world_reachable_sys [OF assms(1)] assms(2), of c] by (auto simp: fifo_def)
  then have "published (sys_sent (wo_sys x) c) =
      old @ routed_by c (wo_routed x) @ routes_of c (bus_queue (sys_bus (wo_sys x))) @ published unread"
    using old by (simp flip: append_assoc)
  with t queued unread show ?thesis by blast
qed

text \<open>
  A service has published, under connection one, when the request of the user interface arrives.
  The JSON library of the example shows the method of an event.
\<close>

definition demo_ui :: "unit ws_api" where
  "demo_ui = demo_ws\<lparr>wa_request := \<lambda>_. Some (WsSubscribe ''*''),
     wa_to_string := (\<lambda>e. case e of WsEvent hm _ \<Rightarrow> Some hm | _ \<Rightarrow> Some ''{}'')\<rparr>"

lemma sample_published:
  "\<exists>s. sys_reachable plain_order sample_wire s \<and> cl_queue (sys_client s 1) = [sample_pub] \<and>
     cl_open (sys_client s 1) \<and> sys_inbox s = (\<lambda>_. []) \<and> sys_bus s =
       \<lparr>bus_state = broker_init\<lparr>connections := [(1, 2)]\<rparr>, bus_queue = [],
        bus_next = 2, bus_accepted = {0}, bus_live = {1}, bus_accepts = 2, bus_directs = 0\<rparr>"
proof -
  note r = sys_more [of plain_order sample_wire]
  note 1 = r [OF sys_start sys_accept [OF refl]]
  note 2 = r [OF 1 sys_accept [OF refl]]
  note 3 = r [OF 2 sys_connect [OF refl, where c = 1]]
  note 4 = r [OF 3 sys_program [OF _ refl, where c = 1 and oper = "OpPublish sample_pub"]]
  show ?thesis
    by (rule exI, rule conjI, rule 4)
      (auto simp: sys_init_def bus_init_def broker_init_def client_op_def client_publish_def
        client_send_def client_connected_def plain_message_def quote_led_def control_def message_new_def
        conn_chan_def)
qed

lemma sample_world:
  "\<exists>x. world_reachable plain_order sample_wire demo_ui x \<and> wo_ui x = \<lparr>ui_client = ws_connected 1,
       ui_reading = True, ui_sending = True, ui_written = [''{}''], ui_queued = []\<rparr> \<and>
     cl_queue (sys_client (wo_sys x) 1) = [sample_pub] \<and> cl_open (sys_client (wo_sys x) 1) \<and>
     sys_bus (wo_sys x) = \<lparr>bus_state = broker_init\<lparr>connections := [(1, 2)]\<rparr>, bus_queue = [],
        bus_next = 2, bus_accepted = {0}, bus_live = {1}, bus_accepts = 2, bus_directs = 0\<rparr>"
proof -
  obtain s where s: "sys_reachable plain_order sample_wire s" "sys_inbox s = (\<lambda>_. [])"
      "cl_queue (sys_client s 1) = [sample_pub] \<and> cl_open (sys_client s 1) \<and> sys_bus s =
       \<lparr>bus_state = broker_init\<lparr>connections := [(1, 2)]\<rparr>, bus_queue = [],
        bus_next = 2, bus_accepted = {0}, bus_live = {1}, bus_accepts = 2, bus_directs = 0\<rparr>"
    using sample_published by blast
  have "ws_handshake demo_ui True (\<lambda>_. True) 1 = Some \<lparr>ui_client = ws_connected 1, ui_reading = True,
      ui_sending = True, ui_written = [''{}''], ui_queued = []\<rparr>"
    by (simp add: ws_handshake_def demo_ui_def ui_hello_def)
  from world_start [OF s(1) this] s(2) have "world_reachable plain_order sample_wire demo_ui
      \<lparr>wo_sys = s, wo_ui = \<lparr>ui_client = ws_connected 1, ui_reading = True, ui_sending = True,
         ui_written = [''{}''], ui_queued = []\<rparr>, wo_taken = \<lambda>_. 0, wo_routed = []\<rparr>"
    by simp
  with s(3) show ?thesis by (intro exI, intro conjI) (assumption, simp_all)
qed

lemma sample_message:
  "wa_request demo_ui ''s'' = Some (WsSubscribe ''*'')" "fair_bus_order plain_order"
  "\<not> control (msg_method sample_pub)" "matches_topic sample_pub ''*''" "msg_method sample_pub = ''a''"
  "wi_into_cbor sample_wire sample_pub \<noteq> None" "wa_to_string demo_ui (WsEvent ''a'' v) = Some ''a''"
  by (simp_all add: control_def message_new_def matches_topic_def sample_wire_def fair_bus_order_def demo_ui_def)

theorem ui_can_hear_services_witness:
  "\<exists>x x2. world_reachable plain_order sample_wire demo_ui x \<and> ui_written (wo_ui x) = [''{}''] \<and>
     (world_step plain_order sample_wire demo_ui)\<^sup>*\<^sup>* (world_text demo_ui 5 0 TimedOut id ''s'' x) x2 \<and>
     ''a'' \<in> set (ui_written (wo_ui x2))"
proof -
  obtain x where x: "world_reachable plain_order sample_wire demo_ui x"
      "wo_ui x = \<lparr>ui_client = ws_connected 1, ui_reading = True, ui_sending = True, ui_written = [''{}''], ui_queued = []\<rparr>"
      "cl_queue (sys_client (wo_sys x) 1) = [sample_pub]" "cl_open (sys_client (wo_sys x) 1)"
      "sys_bus (wo_sys x) = \<lparr>bus_state = broker_init\<lparr>connections := [(1, 2)]\<rparr>, bus_queue = [],
        bus_next = 2, bus_accepted = {0}, bus_live = {1}, bus_accepts = 2, bus_directs = 0\<rparr>"
    using sample_world by blast
  let ?x1 = "world_text demo_ui 5 0 TimedOut id ''s'' x"
  have "world_step plain_order sample_wire demo_ui x ?x1 \<and>
      (\<exists>x2. (world_step plain_order sample_wire demo_ui)\<^sup>*\<^sup>* ?x1 x2 \<and>
        ''a'' \<in> set (drop (length (ui_written (wo_ui ?x1))) (ui_written (wo_ui x2))))"
    by (rule ui_can_hear_services [OF x(1) _ _ sample_message(1) refl, where c = 1 and m = sample_pub])
      (use x sample_message sample_wire_ok(2) in simp_all)
  then obtain x2 where "(world_step plain_order sample_wire demo_ui)\<^sup>*\<^sup>* ?x1 x2" "''a'' \<in> set (ui_written (wo_ui x2))"
    by (blast dest: in_set_dropD)
  with x(1,2) show ?thesis by (intro exI [of _ x] exI [of _ x2]) simp
qed

theorem ui_hears_in_order_witness:
  "\<exists>x old rest. world_reachable plain_order sample_wire demo_ui x \<and> ''a'' \<in> set (ui_written (wo_ui x)) \<and>
     queued_from 3 (wo_ui x) @ map (ui_event demo_ui) (drop (wo_taken x 3) (sys_inbox (wo_sys x) 3)) =
       map (ui_event demo_ui) (owed_copies 3 (wo_routed x)) \<and>
     published (sys_sent (wo_sys x) 1) = old @ routed_by 1 (wo_routed x) @ rest"
proof -
  obtain x where x: "world_reachable plain_order sample_wire demo_ui x"
      "wo_ui x = \<lparr>ui_client = ws_connected 1, ui_reading = True, ui_sending = True, ui_written = [''{}''], ui_queued = []\<rparr>"
      "cl_queue (sys_client (wo_sys x) 1) = [sample_pub]" "cl_open (sys_client (wo_sys x) 1)"
      "sys_bus (wo_sys x) = \<lparr>bus_state = broker_init\<lparr>connections := [(1, 2)]\<rparr>, bus_queue = [],
        bus_next = 2, bus_accepted = {0}, bus_live = {1}, bus_accepts = 2, bus_directs = 0\<rparr>"
    using sample_world by blast
  let ?x1 = "world_text demo_ui 5 0 TimedOut id ''s'' x"
  have "world_step plain_order sample_wire demo_ui x ?x1 \<and>
      (\<exists>x2. (world_step plain_order sample_wire demo_ui)\<^sup>*\<^sup>* ?x1 x2 \<and>
        ''a'' \<in> set (drop (length (ui_written (wo_ui ?x1))) (ui_written (wo_ui x2))) \<and> ui_sending (wo_ui x2))"
    by (rule request_heard [OF x(1) _ _ sample_message(1) refl, where c = 1 and m = sample_pub])
      (use x sample_message sample_wire_ok(2) in simp_all)
  then obtain x2 where x2: "(world_step plain_order sample_wire demo_ui)\<^sup>*\<^sup>* x x2"
      "''a'' \<in> set (ui_written (wo_ui x2))" "ui_sending (wo_ui x2)"
    by (blast dest: in_set_dropD intro: converse_rtranclp_into_rtranclp)
  have r: "world_reachable plain_order sample_wire demo_ui x2"
    by (rule world_reachable_steps [OF x2(1) x(1)])
  have "ws_sub_chan (ui_client (wo_ui x2)) \<le> 3"
    by (simp add: sub_chan_steps [OF x2(1)] x(2) ws_connected_def)
  from ui_hears_in_order [OF r sample_wire_ok(2) sample_message(2) _ this, of 1] x2(3) r x2(2)
  show ?thesis by auto
qed

end
