(* ===== verification/MonitordManifest.thy ===== *)
theory MonitordManifest
  imports Prelude
begin

section \<open>monitord: service manifests\<close>

text \<open>
  \<open>crates/monitord/src/manifest.rs\<close>: the manifest record, what the deserializer fills in for
  absent fields, the loader that reads a directory of manifests, and the eleven services that
  are built in. The YAML parser (crate serde_yaml) is a parameter: it turns the text of a file
  into the fields that are present in it. The directory is the list of its entries in the order
  \<open>read_dir\<close> yields them.
\<close>

datatype restart_policy = Always | OnFailure | Never

record security_capabilities =
  cap_keep :: "string list"
  cap_mounts :: "string list"
  cap_read_only_root :: bool

record service_manifest =
  sm_name :: string
  sm_description :: string
  sm_binary :: string
  sm_args :: "string list"
  sm_env :: "string list"
  sm_dependencies :: "string list"
  sm_after :: "string list"
  sm_restart :: restart_policy
  sm_restart_delay_ms :: u64
  sm_max_crash_count :: u32
  sm_crash_window_secs :: u64
  sm_critical :: bool
  sm_startup_timeout_secs :: u64
  sm_health_check :: "string option"
  sm_caps :: security_capabilities

datatype manifest_error =
    ManifestIo
  | ManifestYaml
  | ManifestInvalid string string
  | ManifestDuplicate string

definition security_default :: security_capabilities where
  "security_default = \<lparr>cap_keep = [], cap_mounts = [], cap_read_only_root = False\<rparr>"

definition restart_default :: restart_policy where
  "restart_default = OnFailure"

definition default_restart_delay :: u64 where "default_restart_delay = 1000"
definition default_max_crash :: u32 where "default_max_crash = 3"
definition default_crash_window :: u64 where "default_crash_window = 30"
definition default_startup_timeout :: u64 where "default_startup_timeout = 15"

subsection \<open>Deserialization\<close>

text \<open>
  The fields of a YAML document, \<open>None\<close> when absent, and the manifest they make: \<open>name\<close> and
  \<open>binary\<close> have no default, every other field has one; a restart policy is one of three words.
\<close>

record raw_manifest =
  raw_name :: "string option"
  raw_description :: "string option"
  raw_binary :: "string option"
  raw_args :: "string list option"
  raw_env :: "string list option"
  raw_dependencies :: "string list option"
  raw_after :: "string list option"
  raw_restart :: "string option"
  raw_restart_delay_ms :: "u64 option"
  raw_max_crash_count :: "u32 option"
  raw_crash_window_secs :: "u64 option"
  raw_critical :: "bool option"
  raw_startup_timeout_secs :: "u64 option"
  raw_health_check :: "string option"
  raw_caps :: "security_capabilities option"

fun or_default :: "'a \<Rightarrow> 'a option \<Rightarrow> 'a" where
  "or_default d None = d"
| "or_default d (Some x) = x"

definition restart_of :: "string option \<Rightarrow> restart_policy option" where
  "restart_of r =
     (case r of
        None \<Rightarrow> Some restart_default
      | Some w \<Rightarrow>
          if w = ''always'' then Some Always
          else if w = ''on-failure'' then Some OnFailure
          else if w = ''never'' then Some Never
          else None)"

definition manifest_of :: "raw_manifest \<Rightarrow> service_manifest option" where
  "manifest_of raw =
     (case (raw_name raw, raw_binary raw, restart_of (raw_restart raw)) of
        (Some n, Some b, Some r) \<Rightarrow>
          Some \<lparr>sm_name = n,
                sm_description = or_default [] (raw_description raw),
                sm_binary = b,
                sm_args = or_default [] (raw_args raw),
                sm_env = or_default [] (raw_env raw),
                sm_dependencies = or_default [] (raw_dependencies raw),
                sm_after = or_default [] (raw_after raw),
                sm_restart = r,
                sm_restart_delay_ms = or_default default_restart_delay (raw_restart_delay_ms raw),
                sm_max_crash_count = or_default default_max_crash (raw_max_crash_count raw),
                sm_crash_window_secs = or_default default_crash_window (raw_crash_window_secs raw),
                sm_critical = or_default False (raw_critical raw),
                sm_startup_timeout_secs =
                  or_default default_startup_timeout (raw_startup_timeout_secs raw),
                sm_health_check = raw_health_check raw,
                sm_caps = or_default security_default (raw_caps raw)\<rparr>
      | _ \<Rightarrow> None)"

definition manifest_from_str ::
  "(string \<Rightarrow> raw_manifest option) \<Rightarrow> string \<Rightarrow> manifest_error + service_manifest" where
  "manifest_from_str yaml content =
     (case Option.bind (yaml content) manifest_of of
        None \<Rightarrow> Inl ManifestYaml
      | Some m \<Rightarrow> Inr m)"

subsection \<open>Loading a directory\<close>

text \<open>
  An entry of the directory is an error or a path, its file name, and its content when it can
  be read. \<open>dir_absent\<close> is a directory that does not exist, \<open>dir_unreadable\<close> one that
  cannot be opened.
\<close>

record dir_entry =
  de_path :: string
  de_file_name :: string
  de_content :: "string option"

datatype dir_view = DirAbsent | DirUnreadable | DirEntries "dir_entry option list"

definition is_yaml :: "string \<Rightarrow> bool" where
  "is_yaml n \<longleftrightarrow> path_extension n = Some ''yaml'' \<or> path_extension n = Some ''yml''"

definition validate_manifest ::
  "string \<Rightarrow> string list \<Rightarrow> service_manifest \<Rightarrow> manifest_error + service_manifest" where
  "validate_manifest path seen m =
     (if sm_name m = [] then Inl (ManifestInvalid path ''name is required'')
      else if sm_binary m = [] then Inl (ManifestInvalid (sm_name m) ''binary path is required'')
      else if sm_name m \<in> set seen then Inl (ManifestDuplicate (sm_name m))
      else Inr m)"

fun load_entries ::
  "(string \<Rightarrow> raw_manifest option) \<Rightarrow> dir_entry option list \<Rightarrow> string list \<Rightarrow>
   service_manifest list \<Rightarrow> manifest_error + service_manifest list" where
  "load_entries yaml [] seen loaded = Inr loaded"
| "load_entries yaml (None # es) seen loaded = Inl ManifestIo"
| "load_entries yaml (Some e # es) seen loaded =
     (if \<not> is_yaml (de_file_name e) then load_entries yaml es seen loaded
      else case de_content e of
             None \<Rightarrow> Inl ManifestIo
           | Some content \<Rightarrow>
               (case manifest_from_str yaml content of
                  Inl err \<Rightarrow> Inl err
                | Inr parsed \<Rightarrow>
                    (case validate_manifest (de_path e) seen parsed of
                       Inl err \<Rightarrow> Inl err
                     | Inr m \<Rightarrow>
                         load_entries yaml es (List.insert (sm_name m) seen) (loaded @ [m]))))"

definition load_from_dir ::
  "(string \<Rightarrow> raw_manifest option) \<Rightarrow> dir_view \<Rightarrow> manifest_error + service_manifest list" where
  "load_from_dir yaml dir =
     (case dir of
        DirAbsent \<Rightarrow> Inl ManifestIo
      | DirUnreadable \<Rightarrow> Inl ManifestIo
      | DirEntries es \<Rightarrow> load_entries yaml es [] [])"

subsection \<open>The built-in services\<close>

definition svc_base :: "string \<Rightarrow> string \<Rightarrow> string \<Rightarrow> service_manifest" where
  "svc_base name bin desc =
     \<lparr>sm_name = name, sm_description = desc, sm_binary = bin, sm_args = [], sm_env = [],
      sm_dependencies = [], sm_after = [], sm_restart = Always, sm_restart_delay_ms = 1000,
      sm_max_crash_count = 3, sm_crash_window_secs = 30, sm_critical = False,
      sm_startup_timeout_secs = 10, sm_health_check = None, sm_caps = security_default\<rparr>"

definition svc_logd :: service_manifest where
  "svc_logd = (svc_base ''logd'' ''/usr/bin/logd'' ''Centralized logging daemon'')
     \<lparr>sm_startup_timeout_secs := 5, sm_health_check := Some ''logd.ping'',
      sm_restart_delay_ms := 500, sm_max_crash_count := 5\<rparr>"

definition svc_devmand :: service_manifest where
  "svc_devmand = (svc_base ''devmand'' ''/usr/bin/devmand'' ''Device manager'')
     \<lparr>sm_dependencies := [''logd''], sm_health_check := Some ''devmand.ping''\<rparr>"

definition svc_dispald :: service_manifest where
  "svc_dispald = (svc_base ''dispald'' ''/usr/bin/dispald'' ''Display manager'')
     \<lparr>sm_dependencies := [''devmand''], sm_critical := True,
      sm_health_check := Some ''dispald.ping''\<rparr>"

definition svc_inputd :: service_manifest where
  "svc_inputd = (svc_base ''inputd'' ''/usr/bin/inputd'' ''Input manager'')
     \<lparr>sm_dependencies := [''devmand''], sm_restart_delay_ms := 500,
      sm_startup_timeout_secs := 5, sm_health_check := Some ''inputd.ping''\<rparr>"

definition svc_lumind :: service_manifest where
  "svc_lumind = (svc_base ''lumind'' ''/usr/bin/lumind'' ''Wayland compositor'')
     \<lparr>sm_args := [''--tty'', ''7''], sm_env := [''WAYLAND_DISPLAY=wayland-0''],
      sm_dependencies := [''dispald'', ''inputd''], sm_restart_delay_ms := 2000,
      sm_critical := True, sm_startup_timeout_secs := 15,
      sm_health_check := Some ''lumind.ping''\<rparr>"

definition svc_audiod :: service_manifest where
  "svc_audiod = (svc_base ''audiod'' ''/usr/bin/audiod'' ''Audio manager'')
     \<lparr>sm_dependencies := [''devmand''], sm_after := [''lumind''],
      sm_health_check := Some ''audiod.ping''\<rparr>"

definition svc_netmd :: service_manifest where
  "svc_netmd = (svc_base ''netmd'' ''/usr/bin/netmd'' ''Network manager'')
     \<lparr>sm_after := [''lumind''], sm_health_check := Some ''netmd.ping''\<rparr>"

definition svc_notifd :: service_manifest where
  "svc_notifd = (svc_base ''notifd'' ''/usr/bin/notifd'' ''Notification bus'')
     \<lparr>sm_dependencies := [''logd''], sm_after := [''lumind''], sm_restart_delay_ms := 500,
      sm_startup_timeout_secs := 5, sm_health_check := Some ''notifd.ping''\<rparr>"

definition svc_powermand :: service_manifest where
  "svc_powermand = (svc_base ''powermand'' ''/usr/bin/powermand'' ''Power manager'')
     \<lparr>sm_after := [''lumind''], sm_startup_timeout_secs := 5,
      sm_health_check := Some ''powermand.ping''\<rparr>"

definition svc_pkgd :: service_manifest where
  "svc_pkgd = (svc_base ''pkgd'' ''/usr/bin/pkgd'' ''Package manager'')
     \<lparr>sm_dependencies := [''netmd''], sm_restart := OnFailure, sm_restart_delay_ms := 2000,
      sm_crash_window_secs := 60\<rparr>"

definition svc_otad :: service_manifest where
  "svc_otad = (svc_base ''otad'' ''/usr/bin/otad'' ''OTA update manager'')
     \<lparr>sm_dependencies := [''netmd''], sm_restart_delay_ms := 5000, sm_crash_window_secs := 60,
      sm_startup_timeout_secs := 15, sm_health_check := Some ''otad.ping''\<rparr>"

definition default_services :: "service_manifest list" where
  "default_services =
     [svc_logd, svc_devmand, svc_dispald, svc_inputd, svc_lumind, svc_audiod, svc_netmd,
      svc_notifd, svc_powermand, svc_pkgd, svc_otad]"

lemmas svc_defs =
  svc_base_def svc_logd_def svc_devmand_def svc_dispald_def svc_inputd_def svc_lumind_def
  svc_audiod_def svc_netmd_def svc_notifd_def svc_powermand_def svc_pkgd_def svc_otad_def

lemma default_names:
  "map sm_name default_services =
     [''logd'', ''devmand'', ''dispald'', ''inputd'', ''lumind'', ''audiod'', ''netmd'', ''notifd'',
      ''powermand'', ''pkgd'', ''otad'']"
  by (simp add: default_services_def svc_defs)

subsection \<open>What a successful load guarantees\<close>

text \<open>A set of manifests the rest of monitord may work with.\<close>

definition manifests_ok :: "service_manifest list \<Rightarrow> bool" where
  "manifests_ok ms \<longleftrightarrow> distinct (map sm_name ms) \<and>
     list_all (\<lambda>m. sm_name m \<noteq> [] \<and> sm_binary m \<noteq> []) ms"

lemma validate_manifest_Inr:
  "validate_manifest path seen m = Inr m' \<longleftrightarrow>
     m' = m \<and> sm_name m \<noteq> [] \<and> sm_binary m \<noteq> [] \<and> sm_name m \<notin> set seen"
  by (auto simp: validate_manifest_def)

lemma load_entries_ok:
  "load_entries yaml es seen loaded = Inr ms \<Longrightarrow> manifests_ok loaded \<Longrightarrow>
   set seen = sm_name ` set loaded \<Longrightarrow> manifests_ok ms"
proof (induction yaml es seen loaded rule: load_entries.induct)
  case (3 yaml e es seen loaded)
  show ?case
  proof (cases "is_yaml (de_file_name e)")
    case True
    with 3(3) obtain content m where
        "de_content e = Some content" "manifest_from_str yaml content = Inr m"
        "validate_manifest (de_path e) seen m = Inr m"
      and l: "load_entries yaml es (List.insert (sm_name m) seen) (loaded @ [m]) = Inr ms"
      by (auto simp: validate_manifest_Inr split: option.splits sum.splits)
    moreover from this 3(4,5) have "manifests_ok (loaded @ [m])"
      by (auto simp: manifests_ok_def validate_manifest_Inr)
    ultimately show ?thesis
      using 3(2) [OF _ _ _ _ l] True 3(5) by simp
  qed (use 3 in simp)
qed simp_all

text \<open>
  Property C35. When a directory loads, every manifest has a name and a binary and no two
  services share a name.
\<close>

theorem load_from_dir_ok:
  assumes "load_from_dir yaml dir = Inr ms"
  shows "manifests_ok ms"
  using assms load_entries_ok [of yaml _ "[]" "[]" ms]
  by (auto simp: load_from_dir_def manifests_ok_def split: dir_view.splits)

definition sample_raw :: raw_manifest where
  "sample_raw = \<lparr>raw_name = Some ''otad'', raw_description = None,
     raw_binary = Some ''/usr/bin/otad'', raw_args = None, raw_env = None,
     raw_dependencies = Some [''netmd''], raw_after = None, raw_restart = Some ''always'',
     raw_restart_delay_ms = None, raw_max_crash_count = None, raw_crash_window_secs = None,
     raw_critical = None, raw_startup_timeout_secs = None, raw_health_check = None,
     raw_caps = None\<rparr>"

theorem load_from_dir_ok_witness:
  "let e = \<lparr>de_path = ''/etc/otad.yml'', de_file_name = ''otad.yml'', de_content = Some ''x''\<rparr>;
       readme = \<lparr>de_path = ''/etc/README'', de_file_name = ''README'', de_content = Some ''y''\<rparr>;
       ms = [the (manifest_of sample_raw)]
   in load_from_dir (\<lambda>_. Some sample_raw) (DirEntries [Some readme, Some e]) = Inr ms \<and>
      manifests_ok ms \<and> sm_startup_timeout_secs (hd ms) = 15"
proof -
  let ?e = "\<lparr>de_path = ''/etc/otad.yml'', de_file_name = ''otad.yml'', de_content = Some ''x''\<rparr>"
  let ?r = "\<lparr>de_path = ''/etc/README'', de_file_name = ''README'', de_content = Some ''y''\<rparr>"
  let ?ms = "[the (manifest_of sample_raw)]"
  have "load_from_dir (\<lambda>_. Some sample_raw) (DirEntries [Some ?r, Some ?e]) = Inr ?ms"
    by (simp add: load_from_dir_def is_yaml_def string_defs manifest_from_str_def
        validate_manifest_def manifest_of_def sample_raw_def restart_of_def)
  from this load_from_dir_ok [OF this] show ?thesis
    by (simp add: Let_def manifest_of_def sample_raw_def restart_of_def
        default_startup_timeout_def)
qed

end
