(* ===== verification/MonitordGraph.thy ===== *)
theory MonitordGraph
  imports MonitordManifest
begin

section \<open>monitord: the dependency graph\<close>

text \<open>
  \<open>crates/monitord/src/graph.rs\<close>: building the graph of services, rejecting missing and
  circular dependencies by depth-first search, and the startup order by Kahn's algorithm.

  The iteration orders of the hash maps and sets are a parameter (\<open>graph_order\<close>). An index into
  a hash map that lacks the key and an \<open>unwrap\<close> of \<open>None\<close> are \<open>Panic\<close>. The recursion of the
  search and the loop over the queue carry fuel, the number of services; theorems show that it
  is enough and that nothing panics.
\<close>

datatype graph_error =
    CircularDependency "string list"
  | MissingDependency string string

type_synonym adjacency = "(string, string list) hashmap"

record dependency_graph =
  dg_services :: "(string, service_manifest) hashmap"
  dg_dependents :: adjacency
  dg_dependencies :: adjacency

record graph_order =
  go_services :: "string list \<Rightarrow> string list"
  go_degrees :: "string list \<Rightarrow> string list"
  go_deps :: "string \<Rightarrow> string list \<Rightarrow> string list"
  go_dependents :: "string \<Rightarrow> string list \<Rightarrow> string list"

definition fair_graph_order :: "graph_order \<Rightarrow> bool" where
  "fair_graph_order h \<longleftrightarrow> fair_order (go_services h) \<and> fair_order (go_degrees h) \<and>
     (\<forall>n. fair_order (go_deps h n)) \<and> (\<forall>n. fair_order (go_dependents h n))"

subsection \<open>Building the edges\<close>

definition service_index :: "service_manifest list \<Rightarrow> (string, service_manifest) hashmap" where
  "service_index services = fold (\<lambda>s. AList.update (sm_name s) s) services []"

definition init_adjacency :: "service_manifest list \<Rightarrow> adjacency" where
  "init_adjacency services = fold (\<lambda>s. entry_or_default (sm_name s) []) services []"

fun add_edges ::
  "(string, service_manifest) hashmap \<Rightarrow> string \<Rightarrow> string list \<Rightarrow> adjacency \<times> adjacency \<Rightarrow>
   graph_error + adjacency \<times> adjacency" where
  "add_edges service_map s [] adj = Inr adj"
| "add_edges service_map s (d # ds) (deps, dependents) =
     (if map_of service_map d = None then Inl (MissingDependency s d)
      else add_edges service_map s ds (entry_insert s d deps, entry_insert d s dependents))"

fun build_edges ::
  "(string, service_manifest) hashmap \<Rightarrow> service_manifest list \<Rightarrow> adjacency \<times> adjacency \<Rightarrow>
   graph_error + adjacency \<times> adjacency" where
  "build_edges service_map [] adj = Inr adj"
| "build_edges service_map (svc # svcs) adj =
     (case add_edges service_map (sm_name svc) (sm_dependencies svc) adj of
        Inl e \<Rightarrow> Inl e
      | Inr adj' \<Rightarrow> build_edges service_map svcs adj')"

subsection \<open>Cycle detection\<close>

text \<open>Colours: 0 unvisited, 1 in progress, 2 done. \<open>path\<close> is the stack of nodes in progress.\<close>

type_synonym colors = "(string, nat) hashmap"

fun list_position :: "'a \<Rightarrow> 'a list \<Rightarrow> nat option" where
  "list_position x [] = None"
| "list_position x (y # ys) = (if y = x then Some 0 else map_option Suc (list_position x ys))"

fun dfs_cycle_detect ::
  "graph_order \<Rightarrow> dependency_graph \<Rightarrow> nat \<Rightarrow> string \<Rightarrow> colors \<times> string list \<Rightarrow>
   (graph_error, colors \<times> string list) outcome"
and dfs_deps ::
  "graph_order \<Rightarrow> dependency_graph \<Rightarrow> nat \<Rightarrow> string list \<Rightarrow> colors \<times> string list \<Rightarrow>
   (graph_error, colors \<times> string list) outcome"
where
  "dfs_cycle_detect h g 0 node st = NoFuel"
| "dfs_cycle_detect h g (Suc fuel) node (color, path) =
     (let st = (AList.update node 1 color, path @ [node])
      in bind_outcome
           (case map_of (dg_dependencies g) node of
              None \<Rightarrow> Done st
            | Some dep_set \<Rightarrow> dfs_deps h g fuel (go_deps h node dep_set) st)
           (\<lambda>(color, path). Done (AList.update node 2 color, butlast path)))"
| "dfs_deps h g fuel [] st = Done st"
| "dfs_deps h g fuel (dep # deps) (color, path) =
     (case map_of color dep of
        None \<Rightarrow> Panic
      | Some dep_color \<Rightarrow>
          if dep_color = 1
          then (case list_position dep path of
                  None \<Rightarrow> Panic
                | Some cycle_start \<Rightarrow> Fail (CircularDependency (drop cycle_start path)))
          else if dep_color = 0
          then bind_outcome (dfs_cycle_detect h g fuel dep (color, path)) (dfs_deps h g fuel deps)
          else dfs_deps h g fuel deps (color, path))"

fun verify_from ::
  "graph_order \<Rightarrow> dependency_graph \<Rightarrow> string list \<Rightarrow> colors \<times> string list \<Rightarrow>
   (graph_error, unit) outcome" where
  "verify_from h g [] st = Done ()"
| "verify_from h g (name # names) (color, path) =
     (case map_of color name of
        None \<Rightarrow> Panic
      | Some c \<Rightarrow>
          if c = 0
          then bind_outcome (dfs_cycle_detect h g (length (dg_services g)) name (color, path))
                 (verify_from h g names)
          else verify_from h g names (color, path))"

definition verify_no_cycles :: "graph_order \<Rightarrow> dependency_graph \<Rightarrow> (graph_error, unit) outcome" where
  "verify_no_cycles h g =
     verify_from h g (go_services h (keys (dg_services g)))
       (map (\<lambda>(k, _). (k, 0)) (dg_services g), [])"

definition dependency_graph_new ::
  "graph_order \<Rightarrow> service_manifest list \<Rightarrow> (graph_error, dependency_graph) outcome" where
  "dependency_graph_new h services =
     (let service_map = service_index services;
          adj = init_adjacency services
      in case build_edges service_map services (adj, adj) of
           Inl e \<Rightarrow> Fail e
         | Inr (deps, dependents) \<Rightarrow>
             (let graph = \<lparr>dg_services = service_map, dg_dependents = dependents,
                           dg_dependencies = deps\<rparr>
              in bind_outcome (verify_no_cycles h graph) (\<lambda>_. Done graph)))"

definition dg_get :: "dependency_graph \<Rightarrow> string \<Rightarrow> service_manifest option" where
  "dg_get g name = map_of (dg_services g) name"

subsection \<open>The startup order\<close>

text \<open>The in-degree is a \<open>usize\<close>: taking one from zero wraps.\<close>

definition usize_dec :: "nat \<Rightarrow> nat" where
  "usize_dec n = (if n = 0 then 2 ^ 64 - 1 else n - 1)"

fun release_dependents ::
  "string list \<Rightarrow> string list \<Rightarrow> (string, nat) hashmap \<Rightarrow>
   (graph_error, string list \<times> (string, nat) hashmap) outcome" where
  "release_dependents [] queue in_degree = Done (queue, in_degree)"
| "release_dependents (d # ds) queue in_degree =
     (case map_of in_degree d of
        None \<Rightarrow> Panic
      | Some deg \<Rightarrow>
          (let deg' = usize_dec deg
           in release_dependents ds (if deg' = 0 then queue @ [d] else queue)
                (AList.update d deg' in_degree)))"

fun kahn_loop ::
  "graph_order \<Rightarrow> dependency_graph \<Rightarrow> nat \<Rightarrow> string list \<Rightarrow> (string, nat) hashmap \<Rightarrow>
   service_manifest list \<Rightarrow> (graph_error, service_manifest list) outcome" where
  "kahn_loop h g 0 queue in_degree result = NoFuel"
| "kahn_loop h g (Suc fuel) [] in_degree result = Done result"
| "kahn_loop h g (Suc fuel) (name # queue) in_degree result =
     (case map_of (dg_services g) name of
        None \<Rightarrow> Panic
      | Some svc \<Rightarrow>
          bind_outcome
            (case map_of (dg_dependents g) name of
               None \<Rightarrow> Done (queue, in_degree)
             | Some dep_set \<Rightarrow>
                 release_dependents (go_dependents h name dep_set) queue in_degree)
            (\<lambda>(queue, in_degree). kahn_loop h g fuel queue in_degree (result @ [svc])))"

definition initial_degrees :: "dependency_graph \<Rightarrow> (string, nat) hashmap" where
  "initial_degrees g =
     map (\<lambda>(k, _). (k, case map_of (dg_dependencies g) k of None \<Rightarrow> 0 | Some ds \<Rightarrow> length ds))
       (dg_services g)"

definition topological_sort ::
  "graph_order \<Rightarrow> dependency_graph \<Rightarrow> (graph_error, service_manifest list) outcome" where
  "topological_sort h g =
     (let in_degree = initial_degrees g;
          queue = map fst (filter (\<lambda>(_, deg). deg = 0) (iter_entries (go_degrees h) in_degree))
      in kahn_loop h g (Suc (length (dg_services g))) queue in_degree [])"

subsection \<open>Well-formed graphs\<close>

definition adj_rel :: "adjacency \<Rightarrow> (string \<times> string) set" where
  "adj_rel m = {(s, d). \<exists>ds. map_of m s = Some ds \<and> d \<in> set ds}"

definition adj_ok :: "adjacency \<Rightarrow> bool" where
  "adj_ok m \<longleftrightarrow> hashmap_ok m \<and> (\<forall>s ds. map_of m s = Some ds \<longrightarrow> distinct ds)"

definition service_names :: "service_manifest list \<Rightarrow> string set" where
  "service_names services = sm_name ` set services"

definition dep_rel :: "service_manifest list \<Rightarrow> (string \<times> string) set" where
  "dep_rel services =
     {(s, d). \<exists>svc \<in> set services. sm_name svc = s \<and> d \<in> set (sm_dependencies svc)}"

definition graph_wf :: "dependency_graph \<Rightarrow> bool" where
  "graph_wf g \<longleftrightarrow>
     hashmap_ok (dg_services g) \<and> adj_ok (dg_dependencies g) \<and> adj_ok (dg_dependents g) \<and>
     adj_rel (dg_dependents g) = (adj_rel (dg_dependencies g))\<inverse> \<and>
     adj_rel (dg_dependencies g) \<subseteq> set (keys (dg_services g)) \<times> set (keys (dg_services g))"

lemma adj_rel_entry_insert: "adj_rel (entry_insert s d m) = insert (s, d) (adj_rel m)"
  by (auto simp: adj_rel_def hashmap_simps split: option.splits if_splits)

lemma adj_ok_Nil [simp]: "adj_ok []"
  by (simp add: adj_ok_def)

lemma adj_ok_distinct: "adj_ok m \<Longrightarrow> map_of m s = Some ds \<Longrightarrow> distinct ds"
  unfolding adj_ok_def by blast

lemma adj_ok_update:
  assumes "adj_ok m" "distinct ds"
  shows "adj_ok (AList.update s ds m)"
proof -
  have "distinct ds'" if "map_of (AList.update s ds m) t = Some ds'" for t ds'
    using that assms(2) adj_ok_distinct [OF assms(1), of t ds']
    by (cases "t = s") (simp_all add: map_of_update)
  moreover have "hashmap_ok m" using assms(1) by (simp only: adj_ok_def)
  ultimately show ?thesis
    unfolding adj_ok_def by (intro conjI allI impI hashmap_ok_update)
qed

lemma adj_ok_entry_insert:
  assumes "adj_ok m"
  shows "adj_ok (entry_insert s d m)"
  unfolding entry_insert_def
proof (rule adj_ok_update [OF assms])
  show "distinct (List.insert d (case map_of m s of None \<Rightarrow> [] | Some xs \<Rightarrow> xs))"
    using adj_ok_distinct [OF assms, of s] by (cases "map_of m s") (simp_all add: distinct_insert)
qed

lemma adj_rel_Nil [simp]: "adj_rel [] = {}"
  by (simp add: adj_rel_def)

lemma adj_entry_or_default:
  "adj_ok m \<Longrightarrow> adj_ok (entry_or_default s [] m)"
  "adj_rel (entry_or_default s [] m) = adj_rel m"
  by (auto simp: entry_or_default_def adj_ok_update adj_rel_def map_of_update
      split: option.split if_splits)

lemma add_edges_Inr:
  "add_edges service_map s ds (deps, dependents) = Inr (deps', dependents') \<Longrightarrow>
   adj_ok deps \<Longrightarrow> adj_ok dependents \<Longrightarrow>
   adj_ok deps' \<and> adj_ok dependents' \<and>
   adj_rel deps' = adj_rel deps \<union> {s} \<times> set ds \<and>
   adj_rel dependents' = adj_rel dependents \<union> set ds \<times> {s} \<and>
   set ds \<subseteq> dom (map_of service_map)"
proof (induction ds arbitrary: deps dependents)
  case (Cons d ds)
  from Cons.prems(1) have d: "d \<in> dom (map_of service_map)"
    and r: "add_edges service_map s ds (entry_insert s d deps, entry_insert d s dependents) =
      Inr (deps', dependents')"
    by (auto split: if_splits)
  from Cons.IH [OF r] Cons.prems(2,3) d show ?case
    by (auto simp: adj_ok_entry_insert adj_rel_entry_insert)
qed simp

lemma add_edges_Inl:
  "add_edges service_map s ds adj = Inl e \<Longrightarrow>
   \<exists>d \<in> set ds. d \<notin> dom (map_of service_map) \<and> e = MissingDependency s d"
  by (induction service_map s ds adj rule: add_edges.induct) (auto split: if_splits)

lemma add_edges_total:
  "set ds \<subseteq> dom (map_of service_map) \<Longrightarrow> \<exists>adj'. add_edges service_map s ds adj = Inr adj'"
  using add_edges_Inl [of service_map s ds adj] by (cases "add_edges service_map s ds adj") auto

lemma build_edges_Inr:
  "build_edges service_map svcs (deps, dependents) = Inr (deps', dependents') \<Longrightarrow>
   adj_ok deps \<Longrightarrow> adj_ok dependents \<Longrightarrow>
   adj_ok deps' \<and> adj_ok dependents' \<and>
   adj_rel deps' = adj_rel deps \<union> dep_rel svcs \<and>
   adj_rel dependents' = adj_rel dependents \<union> (dep_rel svcs)\<inverse> \<and>
   snd ` dep_rel svcs \<subseteq> dom (map_of service_map)"
proof (induction svcs arbitrary: deps dependents)
  case Nil
  then show ?case by (auto simp: dep_rel_def)
next
  case (Cons svc svcs)
  from Cons.prems(1) obtain deps1 dependents1 where
      a: "add_edges service_map (sm_name svc) (sm_dependencies svc) (deps, dependents) =
        Inr (deps1, dependents1)"
      and b: "build_edges service_map svcs (deps1, dependents1) = Inr (deps', dependents')"
    by (auto split: sum.splits)
  have split: "dep_rel (svc # svcs) = {sm_name svc} \<times> set (sm_dependencies svc) \<union> dep_rel svcs"
    by (auto simp: dep_rel_def)
  from add_edges_Inr [OF a Cons.prems(2,3)] Cons.IH [OF b] show ?case
    unfolding split by auto
qed

lemma build_edges_Inl:
  "build_edges service_map svcs adj = Inl e \<Longrightarrow>
   \<exists>svc \<in> set svcs. \<exists>d \<in> set (sm_dependencies svc).
     d \<notin> dom (map_of service_map) \<and> e = MissingDependency (sm_name svc) d"
proof (induction svcs arbitrary: adj)
  case (Cons svc svcs)
  show ?case
  proof (cases "add_edges service_map (sm_name svc) (sm_dependencies svc) adj")
    case (Inl e')
    with Cons.prems add_edges_Inl [OF Inl] show ?thesis by auto
  next
    case (Inr adj')
    with Cons.prems Cons.IH [of adj'] show ?thesis by auto
  qed
qed simp

lemma service_index_gen:
  "hashmap_ok m \<Longrightarrow> hashmap_ok (fold (\<lambda>s. AList.update (sm_name s) s) services m) \<and>
   set (keys (fold (\<lambda>s. AList.update (sm_name s) s) services m)) =
     set (keys m) \<union> service_names services"
  by (induction services arbitrary: m) (auto simp: service_names_def keys_update)

lemma service_index_ok: "hashmap_ok (service_index services)"
  and service_index_keys: "set (keys (service_index services)) = service_names services"
  using service_index_gen [of "[]" services] unfolding service_index_def by (simp_all add: keys_def)

lemma init_adjacency_gen:
  "adj_ok m \<Longrightarrow> adj_ok (fold (\<lambda>s. entry_or_default (sm_name s) []) services m)"
  "adj_rel (fold (\<lambda>s. entry_or_default (sm_name s) []) services m) = adj_rel m"
  by (induction services arbitrary: m) (simp_all add: adj_entry_or_default)

lemma init_adjacency_ok: "adj_ok (init_adjacency services)" "adj_rel (init_adjacency services) = {}"
  unfolding init_adjacency_def by (simp_all add: init_adjacency_gen)

lemma built_graph_wf:
  assumes "build_edges (service_index services) services
      (init_adjacency services, init_adjacency services) = Inr (deps, dependents)"
  defines "g \<equiv> \<lparr>dg_services = service_index services, dg_dependents = dependents,
      dg_dependencies = deps\<rparr>"
  shows "graph_wf g" "adj_rel (dg_dependencies g) = dep_rel services"
    "snd ` dep_rel services \<subseteq> service_names services"
proof -
  note b = build_edges_Inr [OF assms(1) init_adjacency_ok(1) init_adjacency_ok(1),
      unfolded init_adjacency_ok(2)]
  from b show s: "snd ` dep_rel services \<subseteq> service_names services"
    by (simp add: set_keys flip: service_index_keys)
  from b show "adj_rel (dg_dependencies g) = dep_rel services" by (simp add: g_def)
  have "dep_rel services \<subseteq> service_names services \<times> service_names services"
    using s by (force simp: dep_rel_def service_names_def)
  with b show "graph_wf g"
    by (simp add: g_def graph_wf_def service_index_ok service_index_keys)
qed

subsection \<open>The search is correct\<close>

text \<open>
  The invariant of the search: the stack is a chain of dependencies and holds exactly the
  nodes in progress; finished nodes depend only on finished nodes and are on no cycle.
\<close>

abbreviation edges :: "dependency_graph \<Rightarrow> (string \<times> string) set" where
  "edges g \<equiv> adj_rel (dg_dependencies g)"

abbreviation nodes :: "dependency_graph \<Rightarrow> string set" where
  "nodes g \<equiv> set (keys (dg_services g))"

definition colored :: "nat \<Rightarrow> colors \<Rightarrow> string set" where
  "colored k color = {n. map_of color n = Some k}"

fun chain :: "('a \<times> 'a) set \<Rightarrow> 'a list \<Rightarrow> bool" where
  "chain r [] = True"
| "chain r [x] = True"
| "chain r (x # y # zs) = ((x, y) \<in> r \<and> chain r (y # zs))"

definition is_cycle :: "('a \<times> 'a) set \<Rightarrow> 'a list \<Rightarrow> bool" where
  "is_cycle r c \<longleftrightarrow> c \<noteq> [] \<and> chain r c \<and> (last c, hd c) \<in> r"

definition dfs_inv :: "dependency_graph \<Rightarrow> colors \<Rightarrow> string list \<Rightarrow> bool" where
  "dfs_inv g color path \<longleftrightarrow>
     nodes g = colored 0 color \<union> colored 1 color \<union> colored 2 color \<and>
     distinct path \<and> set path = colored 1 color \<and> chain (edges g) path \<and>
     edges g `` colored 2 color \<subseteq> colored 2 color \<and>
     acyclic (Restr (edges g) (colored 2 color))"

fun dfs_result ::
  "dependency_graph \<Rightarrow> string set \<Rightarrow> colors \<Rightarrow> string list \<Rightarrow>
   (graph_error, colors \<times> string list) outcome \<Rightarrow> bool" where
  "dfs_result g done color path (Done (color', path')) \<longleftrightarrow>
     dfs_inv g color' path' \<and> path' = path \<and> colored 0 color' \<subseteq> colored 0 color \<and>
     colored 2 color \<subseteq> colored 2 color' \<and> done \<subseteq> colored 2 color'"
| "dfs_result g done color path (Fail (CircularDependency c)) \<longleftrightarrow> is_cycle (edges g) c"
| "dfs_result g done color path _ \<longleftrightarrow> False"

lemma chain_append_one: "chain r (p @ [x]) \<longleftrightarrow> chain r p \<and> (p = [] \<or> (last p, x) \<in> r)"
  by (induction r p rule: chain.induct) auto

lemma chain_drop: "chain r p \<Longrightarrow> chain r (drop i p)"
proof (induction i arbitrary: p)
  case (Suc i)
  then show ?case by (cases p rule: list.exhaust, simp) (cases "tl p"; auto)
qed simp

lemma chain_trancl: "chain r (x # xs) \<Longrightarrow> (x, last (x # xs)) \<in> r\<^sup>*"
  by (induction xs arbitrary: x) (auto intro: converse_rtrancl_into_rtrancl)

lemma is_cycle_not_acyclic: "is_cycle r c \<Longrightarrow> \<not> acyclic r"
proof
  assume c: "is_cycle r c" and a: "acyclic r"
  then obtain x xs where x: "c = x # xs" by (cases c) (auto simp: is_cycle_def)
  with c have "(x, last c) \<in> r\<^sup>*" using chain_trancl by (fastforce simp: is_cycle_def)
  moreover have "(last c, x) \<in> r" using c x by (simp add: is_cycle_def)
  ultimately have "(x, x) \<in> r\<^sup>+" by (rule rtrancl_into_trancl1)
  with a show False by (simp add: acyclic_def)
qed

lemma list_position_Some: "list_position x xs = Some i \<Longrightarrow> i < length xs \<and> xs ! i = x"
  by (induction xs arbitrary: i) (auto split: if_splits)

lemma list_position_None: "list_position x xs = None \<longleftrightarrow> x \<notin> set xs"
  by (induction xs) auto

lemma colored_update:
  "colored k (AList.update n j color) = (if j = k then insert n (colored k color) else colored k color - {n})"
  by (auto simp: colored_def map_of_update)

lemma colored_disjoint: "n \<in> colored i color \<Longrightarrow> i \<noteq> j \<Longrightarrow> n \<notin> colored j color"
  by (simp add: colored_def)

lemma finite_colored [simp]: "finite (colored k color)"
proof (rule finite_subset)
  show "colored k color \<subseteq> dom (map_of color)" by (auto simp: colored_def)
qed (rule finite_dom_map_of)

text \<open>Adding a node all of whose edges lead into a closed acyclic set keeps it acyclic.\<close>

lemma trancl_stays: "(a, b) \<in> r\<^sup>+ \<Longrightarrow> r `` B \<subseteq> B \<Longrightarrow> a \<in> B \<Longrightarrow> b \<in> B"
  by (induction rule: trancl_induct) auto

lemma acyclic_add_node:
  assumes "acyclic (Restr r B)" "r `` B \<subseteq> B" "r `` {u} \<subseteq> B" "u \<notin> B"
  shows "acyclic (Restr r (insert u B))"
proof (rule acyclicI, rule allI, rule notI)
  let ?R = "Restr r (insert u B)"
  fix x assume x: "(x, x) \<in> ?R\<^sup>+"
  have into: "?R `` insert u B \<subseteq> B" using assms(2,3) by auto
  have "x \<in> B"
  proof -
    from x obtain y where "(x, y) \<in> ?R\<^sup>*" "(y, x) \<in> ?R" by (meson tranclD2)
    with into show ?thesis by auto
  qed
  have "(a, b) \<in> ?R\<^sup>+ \<Longrightarrow> a \<in> B \<Longrightarrow> b \<in> B \<and> (a, b) \<in> (Restr r B)\<^sup>+" for a b
  proof (induction rule: trancl_induct)
    case (base b)
    with assms(2) show ?case by auto
  next
    case (step b c)
    then have "(b, c) \<in> Restr r B" using assms(2) by auto
    with step show ?case by (auto intro: trancl_into_trancl)
  qed
  from this [OF x \<open>x \<in> B\<close>] assms(1) show False by (auto simp: acyclic_def)
qed

lemma dfs_enter:
  assumes "dfs_inv g color path" "n \<in> colored 0 color" "path = [] \<or> (last path, n) \<in> edges g"
  shows "dfs_inv g (AList.update n 1 color) (path @ [n])"
proof -
  have "n \<notin> colored 1 color" "n \<notin> colored 2 color"
    using assms(2) by (auto simp: colored_def)
  with assms show ?thesis
    by (auto simp: dfs_inv_def colored_update chain_append_one)
qed

lemma dfs_leave:
  assumes "dfs_inv g color (path @ [n])" "edges g `` {n} \<subseteq> colored 2 color"
  shows "dfs_inv g (AList.update n 2 color) path"
proof -
  have n: "n \<in> colored 1 color" "n \<notin> set path" using assms(1) by (auto simp: dfs_inv_def)
  then have "n \<notin> colored 2 color" "n \<notin> colored 0 color" by (auto simp: colored_def)
  moreover from this have "acyclic (Restr (edges g) (insert n (colored 2 color)))"
    using assms by (intro acyclic_add_node) (auto simp: dfs_inv_def)
  ultimately show ?thesis
    using assms n by (auto simp: dfs_inv_def colored_update chain_append_one)
qed

lemma dfs_back_edge:
  assumes "dfs_inv g color path" "path \<noteq> []" "d \<in> colored 1 color" "(last path, d) \<in> edges g"
  obtains i where "list_position d path = Some i" "is_cycle (edges g) (drop i path)"
proof -
  from assms(1,3) have "d \<in> set path" by (simp add: dfs_inv_def)
  then obtain i where i: "list_position d path = Some i"
    by (cases "list_position d path") (simp_all add: list_position_None)
  then have "i < length path" "path ! i = d" by (auto dest: list_position_Some)
  with assms have "is_cycle (edges g) (drop i path)"
    by (simp add: is_cycle_def dfs_inv_def chain_drop hd_drop_conv_nth)
  with i show thesis by (rule that)
qed

lemma dfs_bind:
  assumes "dfs_result g done1 color path m"
    and "\<And>color' path'. m = Done (color', path') \<Longrightarrow> dfs_result g done1 color path m \<Longrightarrow>
      dfs_result g done2 color path (f (color', path'))"
  shows "dfs_result g done2 color path (bind_outcome m f)"
proof (cases m)
  case (Done st)
  with assms show ?thesis by (cases st) auto
next
  case (Fail e)
  with assms(1) show ?thesis by (cases e) auto
qed (use assms(1) in auto)

lemma dfs_result_trans:
  assumes "dfs_result g done1 color path (Done (color', path'))"
    and "dfs_result g done2 color' path' r" "done3 \<subseteq> done1 \<union> done2"
  shows "dfs_result g done3 color path r"
proof (cases r)
  case (Done st)
  with assms show ?thesis by (cases st) (simp, blast)
next
  case (Fail e)
  with assms(2) show ?thesis by (cases e) auto
qed (use assms(2) in auto)

lemma card_white_enter: "n \<in> colored 0 color \<Longrightarrow> card (colored 0 color) \<le> Suc fuel \<Longrightarrow>
  card (colored 0 (AList.update n 1 color)) \<le> fuel"
  by (simp add: colored_update card_Diff_singleton)

lemma dfs_close:
  assumes st: "dfs_result g dset (AList.update n 1 color) (path @ [n]) m"
    and n: "n \<in> colored 0 color" and deps: "edges g `` {n} \<subseteq> dset"
  shows "dfs_result g {n} color path
    (bind_outcome m (\<lambda>(color, path). Done (AList.update n 2 color, butlast path)))"
proof (cases m)
  case (Done st')
  obtain c p where [simp]: "st' = (c, p)" by fastforce
  have n2: "n \<notin> colored 2 color" using n by (simp add: colored_def)
  from Done st have inv: "dfs_inv g c (path @ [n])" and p: "p = path @ [n]"
    and w: "colored 0 c \<subseteq> colored 0 color - {n}" and b: "colored 2 color - {n} \<subseteq> colored 2 c"
    and d: "dset \<subseteq> colored 2 c"
    by (auto simp: colored_update)
  from dfs_leave [OF inv] deps d have "dfs_inv g (AList.update n 2 c) path" by blast
  with Done p w b n2 show ?thesis by (auto simp: colored_update)
next
  case (Fail e)
  with st show ?thesis by (cases e) auto
qed (use st in auto)

lemma dfs_correct:
  assumes wf: "graph_wf g" and fair: "fair_graph_order h"
  shows "\<lbrakk>dfs_inv g (fst st) (snd st); node \<in> colored 0 (fst st);
      snd st = [] \<or> (last (snd st), node) \<in> edges g; card (colored 0 (fst st)) \<le> fuel\<rbrakk> \<Longrightarrow>
      dfs_result g {node} (fst st) (snd st) (dfs_cycle_detect h g fuel node st)"
    and "\<lbrakk>dfs_inv g (fst st) (snd st); snd st \<noteq> []; \<forall>d \<in> set ds. (last (snd st), d) \<in> edges g;
      card (colored 0 (fst st)) \<le> fuel\<rbrakk> \<Longrightarrow>
      dfs_result g (set ds) (fst st) (snd st) (dfs_deps h g fuel ds st)"
proof (induction h\<equiv>h g\<equiv>g fuel node st and h\<equiv>h g\<equiv>g fuel ds st rule: dfs_cycle_detect_dfs_deps.induct)
  case (1 node st)
  then show ?case by auto
next
  case (2 fuel node color path)
  then have n: "node \<in> colored 0 color" by simp
  let ?c = "AList.update node 1 color" and ?p = "path @ [node]"
  have enter: "dfs_inv g ?c ?p" using 2(2-4) by (intro dfs_enter) auto
  let ?m = "case map_of (dg_dependencies g) node of None \<Rightarrow> Done (?c, ?p)
    | Some dep_set \<Rightarrow> dfs_deps h g fuel (go_deps h node dep_set) (?c, ?p)"
  have "dfs_result g (edges g `` {node}) ?c ?p ?m"
  proof (cases "map_of (dg_dependencies g) node")
    case None
    with enter show ?thesis by (auto simp: adj_rel_def)
  next
    case (Some ds)
    have e: "edges g `` {node} = set (go_deps h node ds)"
      using Some fair by (auto simp: adj_rel_def fair_graph_order_def)
    then have "\<forall>d \<in> set (go_deps h node ds). (last ?p, d) \<in> edges g" by auto
    with 2(1) [OF refl Some] enter card_white_enter [OF n] 2(5)
    show ?thesis unfolding e by (simp add: Some)
  qed
  from dfs_close [OF this n] show ?case
    unfolding dfs_cycle_detect.simps Let_def fst_conv snd_conv by simp
next
  case (3 fuel st)
  then show ?case by (cases st) auto
next
  case (4 fuel d ds color path)
  then have inv: "dfs_inv g color path" and p: "path \<noteq> []" and e: "(last path, d) \<in> edges g"
    and es: "\<forall>d \<in> set ds. (last path, d) \<in> edges g" and fuel: "card (colored 0 color) \<le> fuel"
    by auto
  have "d \<in> nodes g" using wf e by (auto simp: graph_wf_def)
  with inv consider (white) "d \<in> colored 0 color" | (gray) "d \<in> colored 1 color"
    | (black) "d \<in> colored 2 color"
    by (auto simp: dfs_inv_def)
  then show ?case
  proof cases
    case white
    then have c: "map_of color d = Some 0" by (simp add: colored_def)
    have 1: "dfs_result g {d} color path (dfs_cycle_detect h g fuel d (color, path))"
      using 4(1) [OF c] inv white e fuel by simp
    have "dfs_result g (set (d # ds)) color path
        (bind_outcome (dfs_cycle_detect h g fuel d (color, path)) (dfs_deps h g fuel ds))"
    proof (rule dfs_bind [OF 1])
      fix color' path'
      assume m: "dfs_cycle_detect h g fuel d (color, path) = Done (color', path')"
      from 1 have r: "dfs_result g {d} color path (Done (color', path'))" unfolding m .
      then have inv': "dfs_inv g color' path'" "path' = path"
        and w: "colored 0 color' \<subseteq> colored 0 color"
        unfolding dfs_result.simps by blast+
      from card_mono [OF _ w] fuel have "card (colored 0 color') \<le> fuel" by simp
      then have "dfs_result g (set ds) color' path' (dfs_deps h g fuel ds (color', path'))"
        using 4(2) [OF c, of "(color', path')"] inv' p es by simp
      then show "dfs_result g (set (d # ds)) color path (dfs_deps h g fuel ds (color', path'))"
        by (rule dfs_result_trans [OF r]) simp
    qed
    with c show ?thesis by simp
  next
    case gray
    then have c: "map_of color d = Some 1" by (simp add: colored_def)
    obtain i where "list_position d path = Some i" "is_cycle (edges g) (drop i path)"
      by (rule dfs_back_edge [OF inv p gray e])
    with c show ?thesis by simp
  next
    case black
    then have c: "map_of color d = Some 2" by (simp add: colored_def)
    have 1: "dfs_result g {d} color path (Done (color, path))"
      using inv black by simp
    have 2: "dfs_result g (set ds) color path (dfs_deps h g fuel ds (color, path))"
      using 4(3) [OF c] inv p es fuel by simp
    have "dfs_result g (set (d # ds)) color path (dfs_deps h g fuel ds (color, path))"
      by (rule dfs_result_trans [OF 1 2]) simp
    with c show ?thesis by simp
  qed
qed

lemma card_white_le: "dfs_inv g color path \<Longrightarrow> card (colored 0 color) \<le> length (dg_services g)"
proof -
  assume "dfs_inv g color path"
  then have "card (colored 0 color) \<le> card (nodes g)"
    by (intro card_mono) (auto simp: dfs_inv_def)
  also have "\<dots> \<le> length (dg_services g)"
    by (metis card_length keys_def length_map)
  finally show ?thesis .
qed

lemma all_black_acyclic:
  "graph_wf g \<Longrightarrow> dfs_inv g color path \<Longrightarrow> nodes g \<subseteq> colored 2 color \<Longrightarrow> acyclic (edges g)"
  by (rule acyclic_subset [of "Restr (edges g) (colored 2 color)"])
    (auto simp: dfs_inv_def graph_wf_def)

lemma verify_from_correct:
  assumes wf: "graph_wf g" and fair: "fair_graph_order h"
  shows "dfs_inv g color [] \<Longrightarrow> set names \<subseteq> nodes g \<Longrightarrow> nodes g \<subseteq> set names \<union> colored 2 color \<Longrightarrow>
    verify_from h g names (color, []) = Done () \<and> acyclic (edges g) \<or>
    (\<exists>c. verify_from h g names (color, []) = Fail (CircularDependency c) \<and> is_cycle (edges g) c)"
proof (induction names arbitrary: color)
  case Nil
  with all_black_acyclic [OF wf] show ?case by simp
next
  case (Cons n ns)
  from Cons.prems have "n \<in> colored 0 color \<or> n \<in> colored 2 color"
    by (auto simp: dfs_inv_def)
  then show ?case
  proof
    assume n: "n \<in> colored 0 color"
    let ?r = "dfs_cycle_detect h g (length (dg_services g)) n (color, [])"
    have "dfs_result g {n} color [] ?r"
      using dfs_correct(1) [OF wf fair, of "(color, [])" n] n Cons.prems(1)
        card_white_le [OF Cons.prems(1)]
      by simp
    then consider (ok) c where "?r = Done (c, [])" "dfs_inv g c []"
        "colored 2 color \<subseteq> colored 2 c" "n \<in> colored 2 c"
      | (cyc) c where "?r = Fail (CircularDependency c)" "is_cycle (edges g) c"
      by (cases "(g, {n}, color, [] :: string list, ?r)" rule: dfs_result.cases) auto
    then show ?thesis
    proof cases
      case ok
      with Cons.prems(2,3) Cons.IH [OF ok(2)] n show ?thesis by (auto simp: colored_def)
    next
      case cyc
      with n show ?thesis by (simp add: colored_def)
    qed
  next
    assume n: "n \<in> colored 2 color"
    with Cons.prems Cons.IH [OF Cons.prems(1)] show ?thesis by (auto simp: colored_def)
  qed
qed

lemma dfs_inv_start: "dfs_inv g (map (\<lambda>(k, _). (k, 0)) (dg_services g)) []"
proof -
  have "map_of (map (\<lambda>(k, _). (k, 0)) m) n = (if n \<in> set (keys m) then Some (0 :: nat) else None)"
    for m :: "(string, service_manifest) hashmap" and n
    by (induction m) (auto simp: keys_def)
  then show ?thesis by (auto simp: dfs_inv_def colored_def acyclic_def)
qed

lemma verify_no_cycles_correct:
  assumes "graph_wf g" "fair_graph_order h"
  shows "verify_no_cycles h g = Done () \<and> acyclic (edges g) \<or>
    (\<exists>c. verify_no_cycles h g = Fail (CircularDependency c) \<and> is_cycle (edges g) c)"
  unfolding verify_no_cycles_def
  by (rule verify_from_correct [OF assms dfs_inv_start])
    (use assms(2) in \<open>auto simp: fair_graph_order_def\<close>)

text \<open>Everything construction can do: succeed, or fail with a genuine reason.\<close>

lemma dependency_graph_new_cases:
  assumes "fair_graph_order h"
  obtains
    (ok) g where "dependency_graph_new h services = Done g" "graph_wf g"
      "edges g = dep_rel services" "nodes g = service_names services"
      "acyclic (dep_rel services)" "snd ` dep_rel services \<subseteq> service_names services"
      "dg_services g = service_index services"
  | (missing) s d where "dependency_graph_new h services = Fail (MissingDependency s d)"
      "(s, d) \<in> dep_rel services" "d \<notin> service_names services"
  | (cyclic) c where "dependency_graph_new h services = Fail (CircularDependency c)"
      "is_cycle (dep_rel services) c"
proof (cases "build_edges (service_index services) services
    (init_adjacency services, init_adjacency services)")
  case (Inl e)
  from build_edges_Inl [OF Inl] obtain svc d where
      d: "svc \<in> set services" "d \<in> set (sm_dependencies svc)"
      "d \<notin> dom (map_of (service_index services))" "e = MissingDependency (sm_name svc) d"
    by blast
  then have "dependency_graph_new h services = Fail (MissingDependency (sm_name svc) d)"
    using Inl by (simp add: dependency_graph_new_def Let_def)
  moreover have "(sm_name svc, d) \<in> dep_rel services" using d by (auto simp: dep_rel_def)
  moreover have "d \<notin> service_names services"
    using d(3) by (simp add: set_keys flip: service_index_keys)
  ultimately show thesis by (rule missing)
next
  case (Inr adj)
  obtain deps dependents where adj: "adj = (deps, dependents)" by fastforce
  let ?g = "\<lparr>dg_services = service_index services, dg_dependents = dependents,
    dg_dependencies = deps\<rparr>"
  note b = built_graph_wf [OF Inr [unfolded adj]]
  have new: "dependency_graph_new h services =
      bind_outcome (verify_no_cycles h ?g) (\<lambda>_. Done ?g)"
    by (simp add: dependency_graph_new_def Let_def Inr adj)
  from verify_no_cycles_correct [OF b(1) assms] show thesis
  proof (elim disjE exE conjE)
    assume "verify_no_cycles h ?g = Done ()" "acyclic (edges ?g)"
    with b new show thesis by (intro ok [of ?g]) (simp_all add: service_index_keys)
  next
    fix c assume "verify_no_cycles h ?g = Fail (CircularDependency c)" "is_cycle (edges ?g) c"
    with b new show thesis by (intro cyclic [of c]) simp_all
  qed
qed

text \<open>
  Property C2. A graph is built exactly for the service lists whose dependencies all exist and
  form no cycle, whatever order the hash maps are visited in.
\<close>

theorem dependency_graph_new_iff:
  assumes "fair_graph_order h"
  shows "(\<exists>g. dependency_graph_new h services = Done g) \<longleftrightarrow>
     snd ` dep_rel services \<subseteq> service_names services \<and> acyclic (dep_rel services)"
proof (cases rule: dependency_graph_new_cases
    [OF assms, of services, case_names ok missing cyclic])
  case (missing s d)
  then have "\<not> snd ` dep_rel services \<subseteq> service_names services" by force
  with missing show ?thesis by simp
next
  case (cyclic c)
  with is_cycle_not_acyclic [OF cyclic(2)] show ?thesis by simp
qed simp

text \<open>
  Property C31. When construction fails, the error is true: the reported dependency is declared
  and names no service, or the reported list is a cycle of dependencies. It never panics and
  the recursion is never deeper than the number of services.
\<close>

theorem dependency_graph_errors_true:
  assumes "fair_graph_order h"
  shows "case dependency_graph_new h services of
      Done g \<Rightarrow> dg_services g = service_index services \<and> graph_wf g
    | Fail (MissingDependency s d) \<Rightarrow> (s, d) \<in> dep_rel services \<and> d \<notin> service_names services
    | Fail (CircularDependency c) \<Rightarrow> is_cycle (dep_rel services) c
    | _ \<Rightarrow> False"
  by (cases rule: dependency_graph_new_cases [OF assms, of services]) simp_all

definition id_order :: graph_order where
  "id_order = \<lparr>go_services = id, go_degrees = id, go_deps = \<lambda>_. id, go_dependents = \<lambda>_. id\<rparr>"

definition back_order :: graph_order where
  "back_order = \<lparr>go_services = rev, go_degrees = rev, go_deps = \<lambda>_. rev, go_dependents = \<lambda>_. rev\<rparr>"

lemma fair_sample_orders: "fair_graph_order id_order" "fair_graph_order back_order"
  by (simp_all add: fair_graph_order_def id_order_def back_order_def)

definition cyclic_services :: "service_manifest list" where
  "cyclic_services = [svc_logd, svc_netmd\<lparr>sm_dependencies := [''otad'']\<rparr>, svc_otad]"

lemma cyclic_services_result:
  "dependency_graph_new id_order cyclic_services = Fail (CircularDependency [''netmd'', ''otad''])"
  by code_simp

theorem dependency_graph_new_iff_witness:
  "\<not> acyclic (dep_rel cyclic_services)"
proof -
  have "snd ` dep_rel cyclic_services \<subseteq> service_names cyclic_services"
    by (auto simp: dep_rel_def service_names_def cyclic_services_def svc_defs)
  with dependency_graph_new_iff [OF fair_sample_orders(1), of cyclic_services]
  show ?thesis by (simp add: cyclic_services_result)
qed

theorem dependency_graph_errors_true_witness:
  "is_cycle (dep_rel cyclic_services) [''netmd'', ''otad'']"
  using dependency_graph_errors_true [OF fair_sample_orders(1), of cyclic_services]
  by (simp add: cyclic_services_result)

subsection \<open>The order is topological\<close>

text \<open>
  The invariant of Kahn's loop with the names already output and the queue: a node has been
  output or queued exactly when all its dependencies have been output, its degree counts those
  that have not, and every output node came after its dependencies.
\<close>

definition ordered :: "('a \<times> 'a) set \<Rightarrow> 'a list \<Rightarrow> bool" where
  "ordered r p \<longleftrightarrow> (\<forall>i < length p. r `` {p ! i} \<subseteq> set (take i p))"

definition kahn_inv ::
  "dependency_graph \<Rightarrow> string list \<Rightarrow> string list \<Rightarrow> (string, nat) hashmap \<Rightarrow> bool" where
  "kahn_inv g p q deg \<longleftrightarrow>
     distinct (p @ q) \<and> set (p @ q) \<subseteq> nodes g \<and>
     (\<forall>u \<in> nodes g. map_of deg u = Some (card (edges g `` {u} - set p))) \<and>
     (\<forall>u \<in> nodes g. u \<in> set (p @ q) \<longleftrightarrow> edges g `` {u} \<subseteq> set p) \<and>
     ordered (edges g) p"

lemma ordered_append_one: "ordered r p \<Longrightarrow> r `` {x} \<subseteq> set p \<Longrightarrow> ordered r (p @ [x])"
  by (auto simp: ordered_def nth_append less_Suc_eq)

lemma finite_edges: "finite (edges g `` {u})"
proof (cases "map_of (dg_dependencies g) u")
  case (Some ds)
  then have "edges g `` {u} = set ds" by (auto simp: adj_rel_def)
  then show ?thesis by simp
qed (simp add: adj_rel_def Image_def)

lemma release_dependents_eq:
  "distinct ds \<Longrightarrow> \<forall>d \<in> set ds. \<exists>k. map_of deg d = Some (Suc k) \<Longrightarrow>
   \<exists>deg'. release_dependents ds q deg = Done (q @ filter (\<lambda>d. map_of deg d = Some 1) ds, deg') \<and>
     (\<forall>u. map_of deg' u = (if u \<in> set ds then map_option (\<lambda>k. k - 1) (map_of deg u)
        else map_of deg u))"
proof (induction ds arbitrary: q deg)
  case (Cons d ds)
  then obtain k where k: "map_of deg d = Some (Suc k)" by auto
  let ?deg = "AList.update d k deg" and ?q = "if k = 0 then q @ [d] else q"
  have same: "map_of ?deg e = map_of deg e" if "e \<in> set ds" for e
    using that Cons.prems(1) by (auto simp: map_of_update)
  then have "\<forall>e \<in> set ds. \<exists>k. map_of ?deg e = Some (Suc k)"
    using Cons.prems(2) by simp
  from Cons.IH [OF _ this, of ?q] Cons.prems(1) obtain deg' where
      r: "release_dependents ds ?q ?deg = Done (?q @ filter (\<lambda>d. map_of ?deg d = Some 1) ds, deg')"
      and m: "\<forall>u. map_of deg' u = (if u \<in> set ds then map_option (\<lambda>k. k - 1) (map_of ?deg u)
        else map_of ?deg u)"
    by auto
  have "filter (\<lambda>d. map_of ?deg d = Some 1) ds = filter (\<lambda>d. map_of deg d = Some 1) ds"
    by (rule filter_cong) (simp_all add: same)
  with r m k Cons.prems(1) show ?case
    by (auto simp: Let_def usize_dec_def map_of_update)
qed simp

lemma dependents_set:
  assumes "graph_wf g" "fair_graph_order h" "map_of (dg_dependents g) n = Some ds"
  shows "set (go_dependents h n ds) = {u. n \<in> edges g `` {u}}" "distinct (go_dependents h n ds)"
proof -
  have "set ds = adj_rel (dg_dependents g) `` {n}"
    using assms(3) by (auto simp: adj_rel_def)
  with assms(1,2) show "set (go_dependents h n ds) = {u. n \<in> edges g `` {u}}"
    by (auto simp: fair_graph_order_def graph_wf_def)
  have "distinct ds" using assms(1,3) adj_ok_distinct by (auto simp: graph_wf_def)
  with assms(2) show "distinct (go_dependents h n ds)" by (simp add: fair_graph_order_def)
qed

lemma kahn_inv_step:
  assumes inv: "kahn_inv g p (n # q) deg"
    and ds: "distinct ds" "set ds = {u. n \<in> edges g `` {u}}" and sub: "edges g \<subseteq> nodes g \<times> nodes g"
    and deg': "\<forall>u. map_of deg' u = (if u \<in> set ds then map_option (\<lambda>k. k - 1) (map_of deg u)
        else map_of deg u)"
  shows "kahn_inv g (p @ [n]) (q @ filter (\<lambda>d. map_of deg d = Some 1) ds) deg'"
proof -
  let ?E = "\<lambda>u. edges g `` {u}" and ?qs = "filter (\<lambda>d. map_of deg d = Some 1) ds"
  have nodes: "u \<in> nodes g" if "u \<in> set ds" for u using that ds(2) sub by auto
  have n: "n \<notin> set p" "n \<in> nodes g" using inv by (auto simp: kahn_inv_def)
  have deg: "map_of deg u = Some (card (?E u - set p))" if "u \<in> nodes g" for u
    using inv that by (simp add: kahn_inv_def)
  have qs: "u \<in> set ?qs \<longleftrightarrow> u \<in> nodes g \<and> ?E u - set p = {n}" for u
  proof
    assume "u \<in> set ?qs"
    then have u: "u \<in> set ds" "card (?E u - set p) = 1" using deg nodes by auto
    with n ds(2) have "n \<in> ?E u - set p" by auto
    with u(2) have "?E u - set p = {n}" by (metis card_1_singletonE singletonD)
    with u(1) nodes show "u \<in> nodes g \<and> ?E u - set p = {n}" by simp
  next
    assume u: "u \<in> nodes g \<and> ?E u - set p = {n}"
    then have "u \<in> set ds" using ds(2) by auto
    with u deg show "u \<in> set ?qs" by simp
  qed
  have old: "u \<in> set (p @ n # q) \<longleftrightarrow> ?E u \<subseteq> set p" if "u \<in> nodes g" for u
    using inv that unfolding kahn_inv_def by blast
  have disj: "u \<notin> set ?qs" if "u \<in> set (p @ n # q)" for u
  proof
    assume "u \<in> set ?qs"
    with qs have u: "u \<in> nodes g" "?E u - set p = {n}" by blast+
    with old that have "?E u \<subseteq> set p" by blast
    with u(2) show False by blast
  qed
  have "distinct (p @ n # q)" "distinct ?qs"
    using inv ds(1) by (auto simp: kahn_inv_def)
  with disj have 1: "distinct ((p @ [n]) @ q @ ?qs)"
    by (simp del: set_filter) blast
  have 2: "set ((p @ [n]) @ q @ ?qs) \<subseteq> nodes g"
    using inv qs by (auto simp: kahn_inv_def)
  have 3: "map_of deg' u = Some (card (?E u - set (p @ [n])))" if u: "u \<in> nodes g" for u
  proof (cases "u \<in> set ds")
    case True
    then have "n \<in> ?E u - set p" using ds(2) n by auto
    moreover have "?E u - set (p @ [n]) = (?E u - set p) - {n}" by auto
    ultimately have "card (?E u - set (p @ [n])) = card (?E u - set p) - 1"
      using finite_edges [of g u] by (simp add: card_Diff_singleton)
    with True deg [OF u] deg' show ?thesis by simp
  next
    case False
    then have "?E u - set (p @ [n]) = ?E u - set p" using ds(2) by auto
    with False deg [OF u] deg' show ?thesis by simp
  qed
  have 4: "u \<in> set ((p @ [n]) @ q @ ?qs) \<longleftrightarrow> ?E u \<subseteq> set (p @ [n])" if u: "u \<in> nodes g" for u
  proof -
    have "u \<in> set ((p @ [n]) @ q @ ?qs) \<longleftrightarrow> u \<in> set (p @ n # q) \<or> u \<in> set ?qs" by auto
    also have "\<dots> \<longleftrightarrow> ?E u \<subseteq> set p \<or> ?E u - set p = {n}" using old [OF u] qs u by blast
    also have "\<dots> \<longleftrightarrow> ?E u \<subseteq> set (p @ [n])" by auto
    finally show ?thesis .
  qed
  have "?E n \<subseteq> set p" using old [OF n(2)] by simp
  then have 5: "ordered (edges g) (p @ [n])"
    using inv by (intro ordered_append_one) (auto simp: kahn_inv_def)
  from 1 2 3 4 5 show ?thesis unfolding kahn_inv_def by blast
qed

lemma kahn_release:
  assumes wf: "graph_wf g" and fair: "fair_graph_order h" and inv: "kahn_inv g p (n # q) deg"
  shows "\<exists>q' deg'. (case map_of (dg_dependents g) n of None \<Rightarrow> Done (q, deg)
      | Some dep_set \<Rightarrow> release_dependents (go_dependents h n dep_set) q deg) = Done (q', deg') \<and>
    kahn_inv g (p @ [n]) q' deg'"
proof -
  have sub: "edges g \<subseteq> nodes g \<times> nodes g" using wf by (simp add: graph_wf_def)
  show ?thesis
  proof (cases "map_of (dg_dependents g) n")
    case None
    then have "(n, u) \<notin> adj_rel (dg_dependents g)" for u by (simp add: adj_rel_def)
    then have "n \<notin> edges g `` {u}" for u
      using wf by (simp add: graph_wf_def)
    with kahn_inv_step [OF inv, of "[]" deg] sub have "kahn_inv g (p @ [n]) q deg" by simp
    with None show ?thesis by simp
  next
    case (Some ds)
    let ?ds = "go_dependents h n ds"
    note d = dependents_set [OF wf fair Some]
    have "\<exists>k. map_of deg u = Some (Suc k)" if "u \<in> set ?ds" for u
    proof -
      from that d(1) sub have "u \<in> nodes g" "n \<in> edges g `` {u} - set p"
        using inv by (auto simp: kahn_inv_def)
      moreover from this(2) finite_edges [of g u] have "card (edges g `` {u} - set p) > 0"
        by (auto simp: card_gt_0_iff)
      ultimately show ?thesis using inv by (auto simp: kahn_inv_def gr0_conv_Suc)
    qed
    with release_dependents_eq [OF d(2), of deg q] obtain deg' where
        r: "release_dependents ?ds q deg = Done (q @ filter (\<lambda>d. map_of deg d = Some 1) ?ds, deg')"
        and m: "\<forall>u. map_of deg' u = (if u \<in> set ?ds then map_option (\<lambda>k. k - 1) (map_of deg u)
          else map_of deg u)"
      by blast
    from kahn_inv_step [OF inv d(2,1) sub m] r Some show ?thesis by simp
  qed
qed

abbreviation svc_at :: "dependency_graph \<Rightarrow> string \<Rightarrow> service_manifest" where
  "svc_at g n \<equiv> the (map_of (dg_services g) n)"

lemma kahn_loop_correct:
  assumes wf: "graph_wf g" and fair: "fair_graph_order h"
  shows "kahn_inv g p q deg \<Longrightarrow> card (nodes g) < length p + fuel \<Longrightarrow>
    \<exists>p' deg'. kahn_loop h g fuel q deg (map (svc_at g) p) = Done (map (svc_at g) p') \<and>
      kahn_inv g p' [] deg'"
proof (induction fuel arbitrary: p q deg)
  case 0
  have "length p \<le> card (nodes g)"
    using 0(1) by (auto simp: kahn_inv_def card_mono simp flip: distinct_card)
  with 0(2) show ?case by simp
next
  case (Suc fuel)
  show ?case
  proof (cases q)
    case Nil
    with Suc.prems(1) show ?thesis by auto
  next
    case (Cons n q1)
    with Suc.prems(1) have "n \<in> dom (map_of (dg_services g))"
      by (auto simp: kahn_inv_def set_keys)
    then obtain svc where svc: "map_of (dg_services g) n = Some svc" by auto
    obtain q' deg' where r: "(case map_of (dg_dependents g) n of None \<Rightarrow> Done (q1, deg)
        | Some dep_set \<Rightarrow> release_dependents (go_dependents h n dep_set) q1 deg) = Done (q', deg')"
      and inv: "kahn_inv g (p @ [n]) q' deg'"
      using kahn_release [OF wf fair Suc.prems(1) [unfolded Cons]] by blast
    have "kahn_loop h g (Suc fuel) q deg (map (svc_at g) p) =
        kahn_loop h g fuel q' deg' (map (svc_at g) (p @ [n]))"
      unfolding Cons kahn_loop.simps r using svc by simp
    with Suc.IH [OF inv] Suc.prems(2) show ?thesis by simp
  qed
qed

lemma initial_degrees_lookup:
  assumes "graph_wf g" "u \<in> nodes g"
  shows "map_of (initial_degrees g) u = Some (card (edges g `` {u}))"
proof -
  have "map_of (map (\<lambda>(k, _). (k, f k)) m) u = (if u \<in> set (keys m) then Some (f u) else None)"
    for m :: "(string, service_manifest) hashmap" and f :: "string \<Rightarrow> nat"
    by (induction m) (auto simp: keys_def)
  then have "map_of (initial_degrees g) u =
      Some (case map_of (dg_dependencies g) u of None \<Rightarrow> 0 | Some ds \<Rightarrow> length ds)"
    using assms(2) by (simp add: initial_degrees_def)
  also have "(case map_of (dg_dependencies g) u of None \<Rightarrow> 0 | Some ds \<Rightarrow> length ds) =
      card (edges g `` {u})"
  proof (cases "map_of (dg_dependencies g) u")
    case (Some ds)
    then have "edges g `` {u} = set ds" by (auto simp: adj_rel_def)
    moreover have "distinct ds" using assms(1) Some adj_ok_distinct by (auto simp: graph_wf_def)
    ultimately show ?thesis using Some by (simp add: distinct_card)
  qed (simp add: adj_rel_def Image_def)
  finally show ?thesis .
qed

lemma kahn_inv_start:
  assumes wf: "graph_wf g" and fair: "fair_graph_order h"
  defines "deg \<equiv> initial_degrees g"
  shows "kahn_inv g [] (map fst (filter (\<lambda>(_, d). d = 0) (iter_entries (go_degrees h) deg))) deg"
proof -
  let ?it = "iter_entries (go_degrees h) deg"
  have f: "fair_order (go_degrees h)" using fair by (simp add: fair_graph_order_def)
  have k: "keys deg = keys (dg_services g)"
    by (simp add: deg_def initial_degrees_def keys_def case_prod_unfold comp_def)
  have ok: "hashmap_ok deg" using wf by (simp add: hashmap_ok_def k graph_wf_def)
  have it: "map fst ?it = go_degrees h (keys deg)" by (simp add: iter_entries_def comp_def)
  have zero: "u \<in> set (map fst (filter (\<lambda>(_, d). d = 0) ?it)) \<longleftrightarrow> edges g `` {u} = {}"
    if "u \<in> nodes g" for u
  proof -
    have "u \<in> set (map fst (filter (\<lambda>(_, d). d = 0) ?it)) \<longleftrightarrow> map_of deg u = Some 0"
      using set_iter_entries [OF f ok] by (force simp: hashmap_map_of_Some [OF ok])
    then show ?thesis
      using initial_degrees_lookup [OF wf that] finite_edges [of g u] by (simp add: deg_def)
  qed
  have "distinct (map fst ?it)" using f ok by (simp add: it hashmap_ok_def)
  then have "distinct (map fst (filter (\<lambda>(_, d). d = 0) ?it))"
    by (rule distinct_map_filter)
  moreover have "set (map fst (filter (\<lambda>(_, d). d = 0) ?it)) \<subseteq> nodes g"
  proof -
    have "set (map fst (filter (\<lambda>(_, d). d = 0) ?it)) \<subseteq> set (map fst ?it)" by auto
    also have "\<dots> = nodes g" using f k by (simp only: it fair_order_set)
    finally show ?thesis .
  qed
  ultimately show ?thesis
    using zero initial_degrees_lookup [OF wf] unfolding kahn_inv_def
    by (simp add: ordered_def deg_def del: set_map)
qed

lemma kahn_inv_complete:
  assumes wf: "graph_wf g" and acyc: "acyclic (edges g)" and inv: "kahn_inv g p [] deg"
  shows "set p = nodes g"
proof (rule ccontr)
  assume "set p \<noteq> nodes g"
  with inv obtain x where x: "x \<in> nodes g - set p" by (auto simp: kahn_inv_def)
  have "edges g \<subseteq> nodes g \<times> nodes g" using wf by (simp add: graph_wf_def)
  then have "finite (edges g)" by (rule finite_subset) simp
  then have "wf ((edges g)\<inverse>)" using acyc by (rule finite_acyclic_wf_converse)
  then obtain z where z: "z \<in> nodes g - set p"
      "\<And>y. (y, z) \<in> (edges g)\<inverse> \<Longrightarrow> y \<notin> nodes g - set p"
    using x by (rule wfE_min) blast
  then have "edges g `` {z} \<subseteq> set p" using wf by (auto simp: graph_wf_def)
  with inv z(1) show False by (auto simp: kahn_inv_def)
qed

lemma topological_sort_ok:
  assumes wf: "graph_wf g" and acyc: "acyclic (edges g)" and fair: "fair_graph_order h"
  obtains p where "topological_sort h g = Done (map (svc_at g) p)" "distinct p"
    "set p = nodes g" "ordered (edges g) p"
proof -
  have "card (nodes g) \<le> length (dg_services g)"
    by (metis card_length keys_def length_map)
  then have "\<exists>p deg. topological_sort h g = Done (map (svc_at g) p) \<and> kahn_inv g p [] deg"
    using kahn_loop_correct [OF wf fair kahn_inv_start [OF wf fair], of "Suc (length (dg_services g))"]
    by (simp add: topological_sort_def Let_def)
  then obtain p deg where p: "topological_sort h g = Done (map (svc_at g) p)"
    and inv: "kahn_inv g p [] deg" by blast
  from p show thesis
    by (rule that)
      (use inv kahn_inv_complete [OF wf acyc inv] in \<open>auto simp: kahn_inv_def\<close>)
qed

subsection \<open>The interface to the supervisor\<close>

text \<open>
  What the supervisor needs of a startup plan: it exists, every service is in it once, and a
  service comes after everything it requires.
\<close>

locale startup_plan =
  fixes plan :: "'g \<Rightarrow> 'n list option"
    and requires :: "'g \<Rightarrow> ('n \<times> 'n) set"
    and members :: "'g \<Rightarrow> 'n set"
    and valid :: "'g \<Rightarrow> bool"
  assumes plan_exists: "valid g \<Longrightarrow> \<exists>p. plan g = Some p"
    and plan_complete: "valid g \<Longrightarrow> plan g = Some p \<Longrightarrow> distinct p \<and> set p = members g"
    and plan_ordered: "valid g \<Longrightarrow> plan g = Some p \<Longrightarrow> ordered (requires g) p"
begin

lemma required_before:
  assumes "valid g" "plan g = Some (xs @ s # ys)" "(s, d) \<in> requires g"
  shows "d \<in> set xs"
proof -
  have "ordered (requires g) (xs @ s # ys)" by (rule plan_ordered) fact+
  then have "requires g `` {s} \<subseteq> set xs"
    unfolding ordered_def by (auto dest!: spec [of _ "length xs"])
  with assms(3) show ?thesis by auto
qed

lemma required_transitively_before:
  assumes "(s, d) \<in> (requires g)\<^sup>+" "valid g" "plan g = Some (xs @ s # ys)"
  shows "d \<in> set xs"
  using assms(1)
proof (induction rule: trancl_induct)
  case (base d)
  then show ?case by (rule required_before [OF assms(2,3)])
next
  case (step c d)
  then obtain us vs where "xs = us @ c # vs" by (meson split_list)
  with assms(3) have "plan g = Some (us @ c # (vs @ s # ys))" by simp
  from required_before [OF assms(2) this step(2)] \<open>xs = us @ c # vs\<close> show ?case by simp
qed

lemma not_required_by_later:
  assumes "valid g" "plan g = Some (xs @ s # ys)" "d \<in> set ys"
  shows "(s, d) \<notin> (requires g)\<^sup>+"
proof
  assume "(s, d) \<in> (requires g)\<^sup>+"
  from required_transitively_before [OF this assms(1,2)] have "d \<in> set xs" .
  with plan_complete [OF assms(1,2)] assms(3) show False by auto
qed

end

definition sorted_names :: "graph_order \<times> dependency_graph \<Rightarrow> string list option" where
  "sorted_names hg =
     (case topological_sort (fst hg) (snd hg) of
        Done ms \<Rightarrow> Some (map sm_name ms)
      | _ \<Rightarrow> None)"

definition graph_valid :: "dependency_graph \<Rightarrow> bool" where
  "graph_valid g \<longleftrightarrow> graph_wf g \<and> acyclic (edges g) \<and>
     (\<forall>n \<in> nodes g. sm_name (svc_at g n) = n)"

lemma sorted_names_ok:
  assumes "fair_graph_order h" "graph_valid g"
  obtains p where "sorted_names (h, g) = Some p" "distinct p" "set p = nodes g"
    "ordered (edges g) p"
proof -
  from assms obtain p where p: "topological_sort h g = Done (map (svc_at g) p)" "distinct p"
      "set p = nodes g" "ordered (edges g) p"
    by (auto simp: graph_valid_def elim: topological_sort_ok)
  moreover have "map (sm_name \<circ> svc_at g) p = p"
    using p(3) assms(2) by (intro map_idI) (simp add: graph_valid_def)
  ultimately show thesis by (intro that [of p]) (simp_all add: sorted_names_def)
qed

interpretation startup: startup_plan sorted_names "\<lambda>hg. edges (snd hg)" "\<lambda>hg. nodes (snd hg)"
  "\<lambda>hg. fair_graph_order (fst hg) \<and> graph_valid (snd hg)"
proof
  fix hg p
  assume v: "fair_graph_order (fst hg) \<and> graph_valid (snd hg)"
  then obtain q where q: "sorted_names hg = Some q" "distinct q" "set q = nodes (snd hg)"
      "ordered (edges (snd hg)) q"
    by (metis prod.collapse sorted_names_ok)
  then show "\<exists>p. sorted_names hg = Some p" by blast
  assume "sorted_names hg = Some p"
  with q show "distinct p \<and> set p = nodes (snd hg)" "ordered (edges (snd hg)) p" by simp_all
qed

lemma service_index_named_gen:
  "map_of (fold (\<lambda>s. AList.update (sm_name s) s) services acc) n = Some m \<Longrightarrow>
   sm_name m = n \<and> m \<in> set services \<or> map_of acc n = Some m"
proof (induction services arbitrary: acc)
  case (Cons s services)
  from Cons.prems have "map_of (fold (\<lambda>s. AList.update (sm_name s) s) services
      (AList.update (sm_name s) s acc)) n = Some m" by simp
  from Cons.IH [OF this] show ?case
    by (cases "n = sm_name s") (auto simp: map_of_update)
qed simp

lemma service_index_named:
  "map_of (service_index services) n = Some m \<Longrightarrow> sm_name m = n \<and> m \<in> set services"
  using service_index_named_gen [of services "[]" n m] by (simp add: service_index_def)

lemma new_graph_valid:
  assumes "fair_graph_order h" "dependency_graph_new h services = Done g"
  shows "graph_valid g \<and> edges g = dep_rel services \<and> nodes g = service_names services \<and>
    dg_services g = service_index services"
proof (cases rule: dependency_graph_new_cases
    [OF assms(1), of services, case_names ok missing cyclic])
  case (ok g')
  with assms(2) have [simp]: "g' = g" by simp
  have "sm_name (svc_at g n) = n" if "n \<in> nodes g" for n
  proof -
    from that obtain m where "map_of (dg_services g) n = Some m" by (auto simp: set_keys)
    with ok(7) service_index_named [of services n m] show ?thesis by simp
  qed
  with ok show ?thesis by (simp add: graph_valid_def)
qed (use assms(2) in auto)

text \<open>
  Property C1. The startup order of a graph that was built lists every service exactly once,
  each with the manifest it was declared with, and after everything it depends on, directly or
  through other services. The sort neither panics nor runs out of fuel.
\<close>

theorem topological_sort_startup_order:
  assumes "fair_graph_order h" "fair_graph_order h'" "dependency_graph_new h services = Done g"
  shows "\<exists>ms. topological_sort h' g = Done ms \<and> set ms \<subseteq> set services \<and>
     distinct (map sm_name ms) \<and> set (map sm_name ms) = service_names services \<and>
     (\<forall>xs s ys. ms = xs @ s # ys \<longrightarrow> (\<forall>d. (sm_name s, d) \<in> (dep_rel services)\<^sup>+ \<longrightarrow>
        d \<in> sm_name ` set xs))"
proof -
  have v: "graph_valid g" "edges g = dep_rel services" "nodes g = service_names services"
    "dg_services g = service_index services"
    using new_graph_valid [OF assms(1,3)] by blast+
  from v(1) assms(2) obtain p where p: "topological_sort h' g = Done (map (svc_at g) p)"
      "set p = nodes g"
    by (auto simp: graph_valid_def elim: topological_sort_ok)
  let ?ms = "map (svc_at g) p"
  have sn: "sorted_names (h', g) = Some (map sm_name ?ms)"
    using p(1) by (simp add: sorted_names_def)
  have "set ?ms \<subseteq> set services"
  proof
    fix m assume "m \<in> set ?ms"
    then obtain n where "map_of (dg_services g) n = Some m"
      using p(2) by (auto simp: set_keys)
    then show "m \<in> set services" using v(4) service_index_named by metis
  qed
  moreover have "distinct (map sm_name ?ms) \<and> set (map sm_name ?ms) = nodes g"
    using startup.plan_complete [OF _ sn] assms(2) v(1) by simp
  moreover have "d \<in> sm_name ` set xs"
    if ms: "?ms = xs @ s # ys" and d: "(sm_name s, d) \<in> (dep_rel services)\<^sup>+" for xs s ys d
  proof -
    have "sorted_names (h', g) = Some (map sm_name xs @ sm_name s # map sm_name ys)"
      using sn unfolding ms by simp
    from startup.required_transitively_before [OF _ _ this, of d] d assms(2) v(1,2)
    show ?thesis by simp
  qed
  ultimately show ?thesis using p(1) unfolding v(3) by blast
qed

definition default_graph :: dependency_graph where
  "default_graph =
     (case dependency_graph_new id_order default_services of
        Done g \<Rightarrow> g
      | _ \<Rightarrow> \<lparr>dg_services = [], dg_dependents = [], dg_dependencies = []\<rparr>)"

lemma default_graph_new: "dependency_graph_new id_order default_services = Done default_graph"
  by code_simp

theorem topological_sort_startup_order_witness:
  "\<exists>ms. topological_sort back_order default_graph = Done ms \<and>
     set (map sm_name ms) = service_names default_services \<and>
     (\<forall>xs s ys. ms = xs @ s # ys \<longrightarrow> sm_name s = ''lumind'' \<longrightarrow> ''logd'' \<in> sm_name ` set xs)"
proof -
  have e: "(s, d) \<in> dep_rel default_services"
    if "(s, d) \<in> {(''lumind'', ''dispald''), (''dispald'', ''devmand''), (''devmand'', ''logd'')}" for s d
    using that by (auto simp: dep_rel_def default_services_def svc_defs)
  have "(''lumind'', ''logd'') \<in> (dep_rel default_services)\<^sup>+"
    by (rule trancl_into_trancl, rule trancl_into_trancl, rule r_into_trancl) (rule e, simp)+
  with topological_sort_startup_order [OF fair_sample_orders default_graph_new]
  show ?thesis by metis
qed

end
