(* ===== verification/MonitordSec.thy ===== *)
theory MonitordSec
  imports Prelude
begin

section \<open>monitord: capability bounds\<close>

text \<open>
  \<open>crates/monitord/src/sec.rs\<close>: the table of capability names, and the sequence of \<open>prctl\<close>
  calls made in the child before \<open>exec\<close>. A call is a value of the trace; its result is
  ignored by the code.
\<close>

datatype prctl_call = CapbsetDrop int | SetSecurebits nat | NoNewPrivs

definition cap_name_map :: "(string \<times> int) list" where
  "cap_name_map =
     [(''net_admin'', 12), (''net_raw'', 13), (''net_bind_service'', 10), (''sys_admin'', 21),
      (''sys_rawio'', 17), (''sys_ptrace'', 19), (''sys_nice'', 23), (''sys_time'', 25),
      (''sys_boot'', 27), (''sys_module'', 16), (''syslog'', 34), (''dac_override'', 1),
      (''dac_read_search'', 2), (''fowner'', 3), (''fsetid'', 4), (''kill'', 5), (''setgid'', 6),
      (''setuid'', 7), (''setpcap'', 8), (''linux_immutable'', 9), (''net_broadcast'', 11),
      (''ipc_lock'', 14), (''ipc_owner'', 15), (''sys_tty_config'', 26), (''sys_resource'', 24),
      (''lease'', 28), (''audit_write'', 29), (''audit_control'', 30), (''setfcap'', 31),
      (''mac_override'', 32), (''mac_admin'', 33), (''sys_chroot'', 18), (''wake_alarm'', 35),
      (''block_suspend'', 36), (''audit_read'', 37), (''perfmon'', 38), (''bpf'', 39),
      (''checkpoint_restore'', 40)]"

definition cap_last :: int where
  "cap_last = 40"

definition resolve_cap :: "string \<Rightarrow> int option" where
  "resolve_cap name = map_of cap_name_map name"

definition apply_capability_bounds :: "string list \<Rightarrow> prctl_call list" where
  "apply_capability_bounds keep_caps =
     (let keep_indices = List.map_filter resolve_cap keep_caps
      in map CapbsetDrop (filter (\<lambda>cap. cap \<notin> set keep_indices) [0..cap_last])
         @ [SetSecurebits (1 + 2 + 4), NoNewPrivs])"

definition drop_all_capabilities :: "prctl_call list" where
  "drop_all_capabilities = apply_capability_bounds []"

lemma resolve_cap_range: "resolve_cap name = Some c \<Longrightarrow> 0 < c \<and> c \<le> cap_last"
  by (auto simp: resolve_cap_def cap_name_map_def cap_last_def split: if_splits)

lemma set_map_filter_iff: "y \<in> set (List.map_filter f xs) \<longleftrightarrow> (\<exists>x \<in> set xs. f x = Some y)"
  by (induction xs) (auto simp: List.map_filter_simps split: option.splits)

text \<open>
  Property C32. A capability index is dropped from the bounding set exactly when it is one of
  the 41 known ones and no name in the keep list resolves to it; index 0 (chown) is always
  dropped. Unknown names keep nothing.
\<close>

theorem capability_bounds_exact:
  "CapbsetDrop c \<in> set (apply_capability_bounds keep) \<longleftrightarrow>
     0 \<le> c \<and> c \<le> 40 \<and> (c = 0 \<or> (\<forall>name \<in> set keep. resolve_cap name \<noteq> Some c))"
  using resolve_cap_range
  by (fastforce simp: apply_capability_bounds_def set_map_filter_iff cap_last_def Let_def)

theorem capability_bounds_exact_witness:
  "CapbsetDrop 13 \<in> set (apply_capability_bounds [''net_admin'', ''nonsense''])"
  by (subst capability_bounds_exact) (simp add: resolve_cap_def cap_name_map_def)

text \<open>
  A service that asks to keep \<open>sys_boot\<close> keeps index 27, which Linux calls
  \<open>CAP_MKNOD\<close>, and loses index 22, which is \<open>CAP_SYS_BOOT\<close>: the table has the wrong number.
\<close>

lemma sys_boot_keeps_mknod:
  "CapbsetDrop 22 \<in> set (apply_capability_bounds [''sys_boot'']) \<and>
   CapbsetDrop 27 \<notin> set (apply_capability_bounds [''sys_boot''])"
  by (auto simp: apply_capability_bounds_def set_map_filter_iff cap_last_def resolve_cap_def
      cap_name_map_def Let_def)

end
