(* ===== verification/MonitordSupervisor.thy ===== *)
theory MonitordSupervisor
  imports MonitordGraph MonitordSec StardustMessage
begin

section \<open>monitord: the supervisor\<close>

text \<open>
  \<open>crates/monitord/src/supervisor.rs\<close> and \<open>main.rs\<close>: service states, the boot sequence,
  starting and waiting for services, health checks, the monitor round with its crash-loop
  detection, and shutdown.

  Time is a number of milliseconds in the state; a sleep takes its nominal duration. What the
  operating system answers (does a file exist, does a spawn succeed, has a child exited, does
  a connection open) is a parameter, the record \<open>world\<close>, and may depend on the time.
  Everything the supervisor does to the system is appended to a trace.
\<close>

datatype service_status =
    Pending | Starting | Running | Failed string | CrashedLoop string | Stopped

record service_runtime =
  sr_manifest :: service_manifest
  sr_status :: service_status
  sr_child :: "nat option"
  sr_pid :: "u32 option"
  sr_restart_count :: u32
  sr_crash_timestamps :: "nat list"
  sr_started_at :: "nat option"

record spawn_command =
  sc_program :: string
  sc_args :: "string list"
  sc_env :: "(string, string) hashmap"
  sc_pre_exec :: "prctl_call list"

datatype signal = SIGTERM | SIGKILL

datatype sup_action =
    Spawn string spawn_command
  | Signal "u32" signal
  | StartKill nat
  | WaitChild nat
  | KickWatchdog

record supervisor =
  sv_services :: "(string, service_runtime) hashmap"
  sv_graph :: dependency_graph
  sv_startup_order :: "string list"
  sv_bus_socket :: "string option"
  sv_now :: nat
  sv_trace :: "sup_action list"

datatype wait_status = ChildExited "int option" | StillRunning | WaitError

record rpc_world =
  rw_connect :: "string option"
  rw_uuid :: uuid
  rw_timestamp :: u64
  rw_cbor :: "message \<Rightarrow> bytes option"
  rw_write :: "bytes \<Rightarrow> string option"
  rw_response :: bytes
  rw_duration :: nat

record world =
  w_exists :: "nat \<Rightarrow> string \<Rightarrow> bool"
  w_spawn :: "nat \<Rightarrow> spawn_command \<Rightarrow> string + nat \<times> u32 option"
  w_try_wait :: "nat \<Rightarrow> nat \<Rightarrow> wait_status"
  w_tcp :: "nat \<Rightarrow> string \<Rightarrow> string option \<times> nat"
  w_rpc :: "nat \<Rightarrow> rpc_world"

subsection \<open>Construction\<close>

definition service_runtime_new :: "service_manifest \<Rightarrow> service_runtime" where
  "service_runtime_new m =
     \<lparr>sr_manifest = m, sr_status = Pending, sr_child = None, sr_pid = None,
      sr_restart_count = 0, sr_crash_timestamps = [], sr_started_at = None\<rparr>"

definition supervisor_new ::
  "graph_order \<Rightarrow> service_manifest list \<Rightarrow> dependency_graph \<Rightarrow> string option \<Rightarrow>
   (graph_error, supervisor) outcome" where
  "supervisor_new h manifests graph bus_socket =
     bind_outcome (topological_sort h graph)
       (\<lambda>sorted. Done
         \<lparr>sv_services =
            fold (\<lambda>m. AList.update (sm_name m) (service_runtime_new m)) manifests [],
          sv_graph = graph, sv_startup_order = map sm_name sorted,
          sv_bus_socket = bus_socket, sv_now = 0, sv_trace = []\<rparr>)"

definition status_of :: "supervisor \<Rightarrow> string \<Rightarrow> service_status option" where
  "status_of sv name = map_option sr_status (map_of (sv_services sv) name)"

definition modify_service ::
  "string \<Rightarrow> (service_runtime \<Rightarrow> service_runtime) \<Rightarrow> supervisor \<Rightarrow> supervisor" where
  "modify_service name f sv =
     (case map_of (sv_services sv) name of
        None \<Rightarrow> sv
      | Some r \<Rightarrow> sv\<lparr>sv_services := AList.update name (f r) (sv_services sv)\<rparr>)"

definition act :: "sup_action list \<Rightarrow> supervisor \<Rightarrow> supervisor" where
  "act actions sv = sv\<lparr>sv_trace := sv_trace sv @ actions\<rparr>"

definition pass :: "nat \<Rightarrow> supervisor \<Rightarrow> supervisor" where
  "pass ms sv = sv\<lparr>sv_now := sv_now sv + ms\<rparr>"

subsection \<open>Waiting for a dependency\<close>

text \<open>
  The statuses cannot change while the loop sleeps: the supervisor is one task, and it is the
  only writer. The result comes with the time it took.
\<close>

function wait_until_running :: "supervisor \<Rightarrow> string \<Rightarrow> nat \<Rightarrow> (string + unit) \<times> nat" where
  "wait_until_running sv name elapsed =
     (if elapsed > 30000 then (Inl (''Timeout waiting for '' @ name), elapsed)
      else case (case status_of sv name of None \<Rightarrow> Failed ''not found'' | Some s \<Rightarrow> s) of
             Running \<Rightarrow> (Inr (), elapsed)
           | Failed reason \<Rightarrow>
               (Inl (''Dependency '' @ name @ '' failed: '' @ reason), elapsed)
           | CrashedLoop reason \<Rightarrow> (Inl (''Dependency '' @ name @ '' crashed-loop''), elapsed)
           | Pending \<Rightarrow> wait_until_running sv name (elapsed + 100)
           | Starting \<Rightarrow> wait_until_running sv name (elapsed + 100)
           | Stopped \<Rightarrow> wait_until_running sv name (elapsed + 100))"
  by pat_completeness auto
termination
  by (relation "measure (\<lambda>(_, _, elapsed). 30001 - elapsed)") auto

declare wait_until_running.simps [simp del]

fun wait_dependencies :: "string list \<Rightarrow> supervisor \<Rightarrow> (string + unit) \<times> supervisor" where
  "wait_dependencies [] sv = (Inr (), sv)"
| "wait_dependencies (dep # deps) sv =
     (case wait_until_running sv dep 0 of
        (Inl e, t) \<Rightarrow> (Inl e, pass t sv)
      | (Inr _, t) \<Rightarrow> wait_dependencies deps (pass t sv))"

subsection \<open>Health checks\<close>

text \<open>\<open>tokio::time::timeout\<close>: the result of something that takes a while, or \<open>None\<close>.\<close>

definition timeout :: "nat \<Rightarrow> 'a \<times> nat \<Rightarrow> 'a option \<times> nat" where
  "timeout limit rd = (if snd rd < limit then (Some (fst rd), snd rd) else (None, limit))"

definition rpc_ping :: "rpc_world \<Rightarrow> string \<Rightarrow> message" where
  "rpc_ping rw method =
     with_dst ''*'' (with_src ''monitord.health''
       (message_new (rw_uuid rw) (rw_timestamp rw) method))"

definition stardust_rpc_call :: "rpc_world \<Rightarrow> string \<Rightarrow> string + unit" where
  "stardust_rpc_call rw method =
     (case rw_connect rw of
        Some e \<Rightarrow> Inl (''stardust connect: '' @ e)
      | None \<Rightarrow>
          (case rw_cbor rw (rpc_ping rw method) of
             None \<Rightarrow> Inl ''CBOR encode failed''
           | Some cbor_bytes \<Rightarrow>
               (case rw_write rw (put_u32_le (of_nat (length cbor_bytes))) of
                  Some e \<Rightarrow> Inl e
                | None \<Rightarrow>
                    (case rw_write rw cbor_bytes of Some e \<Rightarrow> Inl e | None \<Rightarrow> Inr ()))))"

definition check_health :: "world \<Rightarrow> nat \<Rightarrow> string \<Rightarrow> (string + unit) \<times> nat" where
  "check_health w now m =
     (if starts_with m ''tcp:'' then
        let addr = drop 4 m;
            target = (if CHR '':'' \<in> set addr then addr else ''127.0.0.1:'' @ addr)
        in case timeout 2000 (w_tcp w now target) of
             (Some None, d) \<Rightarrow> (Inr (), d)
           | (Some (Some e), d) \<Rightarrow> (Inl (''TCP connect '' @ target @ '': '' @ e), d)
           | (None, d) \<Rightarrow> (Inl (''TCP connect '' @ target @ '': timeout''), d)
      else if starts_with m ''stardust.'' \<or> starts_with m ''rpc:'' then
        let rpc_method = (case strip_prefix m ''rpc:'' of Some r \<Rightarrow> r | None \<Rightarrow> m)
        in case timeout 3000 (stardust_rpc_call (w_rpc w now) rpc_method, rw_duration (w_rpc w now)) of
             (Some r, d) \<Rightarrow> (r, d)
           | (None, d) \<Rightarrow> (Inl (''RPC '' @ rpc_method @ '': timeout''), d)
      else (Inr (), 0))"

text \<open>Polling once a second until it passes or thirty seconds are over.\<close>

function wait_for_health ::
  "world \<Rightarrow> string \<Rightarrow> nat \<Rightarrow> nat \<Rightarrow> nat \<Rightarrow> (string + unit) \<times> nat" where
  "wait_for_health w method deadline failures now =
     (if now > deadline
      then (Inl (''Health check '' @ [CHR 0x27] @ method @ [CHR 0x27] @ '' timed out after '' @
              show_nat failures @ '' failures''), now)
      else case check_health w now method of
             (Inr _, d) \<Rightarrow> (Inr (), now + d)
           | (Inl e, d) \<Rightarrow>
               wait_for_health w method deadline (failures + 1) (now + d + 1000))"
  by pat_completeness auto
termination
  by (relation "measure (\<lambda>(_, _, deadline, _, now). Suc deadline - now)") auto

declare wait_for_health.simps [simp del]

text \<open>The outcome of the health wait is only logged; what matters is the time it takes.\<close>

definition startup_health :: "world \<Rightarrow> service_manifest \<Rightarrow> nat \<Rightarrow> (string + unit) option \<times> nat" where
  "startup_health w m now =
     (case sm_health_check m of
        None \<Rightarrow> (Some (Inr ()), 0)
      | Some method \<Rightarrow>
          (let (r, end) = wait_for_health w method (now + 30000) 0 now
           in timeout (unat (sm_startup_timeout_secs m) * 1000) (r, end - now)))"

subsection \<open>Starting a service\<close>

definition build_env :: "service_manifest \<Rightarrow> string option \<Rightarrow> (string, string) hashmap" where
  "build_env m bus_socket =
     (let own = fold (\<lambda>v env. case split_once CHR ''='' v of
                  Some (key, value) \<Rightarrow> AList.update key value env
                | None \<Rightarrow> env) (sm_env m) []
      in AList.update ''UOS_LOG'' ''info''
           (AList.update ''STARDUST_SOCKET'' (case bus_socket of Some s \<Rightarrow> s | None \<Rightarrow> [])
             (AList.update ''UOS_SERVICE_NAME'' (sm_name m) own)))"

definition build_command :: "service_manifest \<Rightarrow> string option \<Rightarrow> spawn_command" where
  "build_command m bus_socket =
     \<lparr>sc_program = sm_binary m, sc_args = sm_args m, sc_env = build_env m bus_socket,
      sc_pre_exec = apply_capability_bounds (cap_keep (sm_caps m))\<rparr>"

definition start_service :: "world \<Rightarrow> string \<Rightarrow> supervisor \<Rightarrow> (string + unit) \<times> supervisor" where
  "start_service w name sv =
     (case map_of (sv_services sv) name of
        None \<Rightarrow> (Inl ''service not found'', sv)
      | Some svc \<Rightarrow>
          (let m = sr_manifest svc
           in case wait_dependencies (sm_dependencies m) sv of
                (Inl e, sv1) \<Rightarrow> (Inl e, sv1)
              | (Inr _, sv1) \<Rightarrow>
                  if \<not> w_exists w (sv_now sv1) (sm_binary m)
                  then (Inl (name @ '': binary not found''),
                        modify_service name
                          (\<lambda>r. r\<lparr>sr_status := Failed (''binary not found: '' @ sm_binary m)\<rparr>) sv1)
                  else
                    let cmd = build_command m (sv_bus_socket sv1)
                    in case w_spawn w (sv_now sv1) cmd of
                         Inl e \<Rightarrow>
                           (Inl (''Failed to spawn '' @ sm_binary m @ '': '' @ e), sv1)
                       | Inr (child, pid) \<Rightarrow>
                           let sv2 = modify_service name
                                 (\<lambda>r. r\<lparr>sr_status := Starting, sr_child := Some child,
                                        sr_pid := pid, sr_started_at := Some (sv_now sv1)\<rparr>)
                                 (act [Spawn name cmd] sv1);
                               sv3 = pass (snd (startup_health w m (sv_now sv2))) sv2
                           in (Inr (), modify_service name (\<lambda>r. r\<lparr>sr_status := Running\<rparr>) sv3)))"

subsection \<open>Boot\<close>

fun boot :: "world \<Rightarrow> string list \<Rightarrow> supervisor \<Rightarrow> (string, supervisor) outcome" where
  "boot w [] sv = Done sv"
| "boot w (name # names) sv =
     (case start_service w name sv of
        (Inr _, sv') \<Rightarrow> boot w names sv'
      | (Inl e, sv') \<Rightarrow>
          (case map_of (sv_services sv') name of
             None \<Rightarrow> Panic
           | Some svc \<Rightarrow>
               if sm_critical (sr_manifest svc)
               then Fail (''Critical service '' @ [CHR 0x27] @ name @ [CHR 0x27] @
                      '' failed to start: '' @ e)
               else boot w names sv'))"

datatype main_error = BadManifests manifest_error | BadGraph graph_error | BootFailed string

definition map_fail :: "('e \<Rightarrow> 'f) \<Rightarrow> ('e, 'a) outcome \<Rightarrow> ('f, 'a) outcome" where
  "map_fail f m = (case m of Done x \<Rightarrow> Done x | Fail e \<Rightarrow> Fail (f e) | Panic \<Rightarrow> Panic | NoFuel \<Rightarrow> NoFuel)"

definition monitord_main ::
  "graph_order \<Rightarrow> (string \<Rightarrow> raw_manifest option) \<Rightarrow> dir_view \<Rightarrow> string option \<Rightarrow> world \<Rightarrow>
   (main_error, supervisor) outcome" where
  "monitord_main h yaml dir bus_socket w =
     (case load_from_dir yaml dir of
        Inl e \<Rightarrow> Fail (BadManifests e)
      | Inr services \<Rightarrow>
          bind_outcome (map_fail BadGraph (dependency_graph_new h services)) (\<lambda>graph.
          bind_outcome (map_fail BadGraph (supervisor_new h services graph bus_socket)) (\<lambda>sv.
            map_fail BootFailed (boot w (sv_startup_order sv) sv))))"

subsection \<open>What each operation changes\<close>

lemma services_act [simp]: "sv_services (act a sv) = sv_services sv"
  and services_pass [simp]: "sv_services (pass t sv) = sv_services sv"
  by (simp_all add: act_def pass_def)

lemma status_of_act [simp]: "status_of (act a sv) n = status_of sv n"
  and status_of_pass [simp]: "status_of (pass t sv) n = status_of sv n"
  by (simp_all add: status_of_def)

lemma pass_zero [simp]: "pass 0 sv = sv"
  by (simp add: pass_def)

lemma lookup_modify:
  "map_of (sv_services (modify_service n f sv)) m =
     (if m = n then map_option f (map_of (sv_services sv) n) else map_of (sv_services sv) m)"
  by (auto simp: modify_service_def map_of_update split: option.splits)

text \<open>The manifests never change: only a service's runtime data does.\<close>

definition manifest_at :: "supervisor \<Rightarrow> string \<Rightarrow> service_manifest option" where
  "manifest_at sv n = map_option sr_manifest (map_of (sv_services sv) n)"

lemma manifest_act [simp]: "manifest_at (act a sv) n = manifest_at sv n"
  and manifest_pass [simp]: "manifest_at (pass t sv) n = manifest_at sv n"
  by (simp_all add: manifest_at_def)

lemma manifest_modify:
  "(\<And>r. sr_manifest (f r) = sr_manifest r) \<Longrightarrow> manifest_at (modify_service n f sv) m = manifest_at sv m"
  by (simp add: manifest_at_def lookup_modify option.map_comp comp_def)

lemma status_modify:
  "status_of (modify_service n f sv) m =
     (if m = n then map_option (sr_status \<circ> f) (map_of (sv_services sv) n) else status_of sv m)"
  by (simp add: status_of_def lookup_modify option.map_comp)

lemma wait_running:
  "elapsed \<le> 30000 \<Longrightarrow> status_of sv n = Some Running \<Longrightarrow>
   wait_until_running sv n elapsed = (Inr (), elapsed)"
  by (simp add: wait_until_running.simps)

lemma wait_Inr: "wait_until_running sv n elapsed = (Inr u, t) \<Longrightarrow> status_of sv n = Some Running \<and> t = elapsed"
proof (induction sv n elapsed rule: wait_until_running.induct)
  case (1 sv n elapsed)
  show ?case
  proof (cases "status_of sv n")
    case None
    with 1(4) show ?thesis by (subst (asm) wait_until_running.simps) (simp split: if_splits)
  next
    case (Some s)
    with 1 show ?thesis
      by (subst (asm) (3) wait_until_running.simps)
        (cases s; fastforce split: if_splits)
  qed
qed

lemma wait_settles:
  assumes "status_of sv n \<in> {Some Pending, Some Starting, Some Stopped}"
  shows "elapsed \<le> 30000 \<Longrightarrow>
    \<exists>t. wait_until_running sv n elapsed = (Inl (''Timeout waiting for '' @ n), t) \<and> 30000 < t \<and> t \<le> 30100"
proof (induction "30001 - elapsed" arbitrary: elapsed rule: less_induct)
  case less
  have step: "wait_until_running sv n elapsed = wait_until_running sv n (elapsed + 100)"
    using assms less.prems by (subst wait_until_running.simps) auto
  show ?case
  proof (cases "elapsed + 100 \<le> 30000")
    case True
    with less.hyps [of "elapsed + 100"] show ?thesis unfolding step by simp
  next
    case False
    then show ?thesis
      unfolding step using less.prems by (subst wait_until_running.simps) simp
  qed
qed

lemma wait_dependencies_services:
  "sv_services (snd (wait_dependencies ds sv)) = sv_services sv"
  by (induction ds arbitrary: sv) (auto split: prod.splits sum.splits)

lemma wait_dependencies_Inr:
  "wait_dependencies ds sv = (Inr u, sv') \<Longrightarrow>
   sv' = sv \<and> (\<forall>d \<in> set ds. status_of sv d = Some Running)"
proof (induction ds arbitrary: sv)
  case (Cons d ds)
  then obtain t where w: "wait_until_running sv d 0 = (Inr (), t)"
    and r: "wait_dependencies ds (pass t sv) = (Inr u, sv')"
    by (auto split: prod.splits sum.splits)
  from wait_Inr [OF w] Cons.IH [OF r] show ?case by simp
qed simp

lemma wait_dependencies_running:
  "\<forall>d \<in> set ds. status_of sv d = Some Running \<Longrightarrow> wait_dependencies ds sv = (Inr (), sv)"
  by (induction ds) (simp_all add: wait_running)

lemma start_service_ok:
  assumes "start_service w n sv = (Inr u, sv')"
  shows "status_of sv' n = Some Running"
    and "m \<noteq> n \<Longrightarrow> status_of sv' m = status_of sv m"
    and "manifest_at sv' = manifest_at sv"
    and "manifest_at sv n = Some mf \<Longrightarrow> d \<in> set (sm_dependencies mf) \<Longrightarrow> status_of sv d = Some Running"
proof -
  from assms obtain svc where svc: "map_of (sv_services sv) n = Some svc"
    by (auto simp: start_service_def split: option.splits)
  with assms obtain sv1 where wd: "wait_dependencies (sm_dependencies (sr_manifest svc)) sv = (Inr (), sv1)"
    by (auto simp: start_service_def Let_def split: prod.splits sum.splits)
  from wait_dependencies_Inr [OF this] have sv1: "sv1 = sv"
    and deps: "\<forall>d \<in> set (sm_dependencies (sr_manifest svc)). status_of sv d = Some Running"
    by simp_all
  from assms svc wd sv1 obtain f t a where
      sv': "sv' = modify_service n (\<lambda>r. r\<lparr>sr_status := Running\<rparr>) (pass t (modify_service n f (act a sv)))"
      and f: "\<And>r. sr_manifest (f r) = sr_manifest r"
    by (auto simp: start_service_def Let_def split: if_splits prod.splits sum.splits)
  show "status_of sv' n = Some Running"
    using svc by (simp add: sv' status_modify lookup_modify)
  show "m \<noteq> n \<Longrightarrow> status_of sv' m = status_of sv m"
    by (simp add: sv' status_modify)
  show "manifest_at sv' = manifest_at sv"
    by (rule ext) (simp add: sv' manifest_modify f)
  show "manifest_at sv n = Some mf \<Longrightarrow> d \<in> set (sm_dependencies mf) \<Longrightarrow> status_of sv d = Some Running"
    using deps svc by (simp add: manifest_at_def)
qed

lemma start_service_err:
  assumes "start_service w n sv = (Inl e, sv')"
  shows "status_of sv' n = status_of sv n \<or> (\<exists>e'. status_of sv' n = Some (Failed e'))"
    and "m \<noteq> n \<Longrightarrow> status_of sv' m = status_of sv m"
    and "manifest_at sv' = manifest_at sv"
proof -
  have "\<exists>sv1. sv_services sv1 = sv_services sv \<and>
      (sv' = sv1 \<or> (\<exists>e'. sv' = modify_service n (\<lambda>r. r\<lparr>sr_status := Failed e'\<rparr>) sv1))"
  proof (cases "map_of (sv_services sv) n")
    case None
    with assms show ?thesis by (auto simp: start_service_def)
  next
    case (Some svc)
    obtain r sv1 where wd: "wait_dependencies (sm_dependencies (sr_manifest svc)) sv = (r, sv1)"
      by fastforce
    then have "sv_services sv1 = sv_services sv"
      by (metis snd_conv wait_dependencies_services)
    with assms Some wd show ?thesis
      by (auto simp: start_service_def Let_def split: if_splits prod.splits sum.splits)
  qed
  then obtain sv1 where sv1: "sv_services sv1 = sv_services sv"
    and sv': "sv' = sv1 \<or> (\<exists>e'. sv' = modify_service n (\<lambda>r. r\<lparr>sr_status := Failed e'\<rparr>) sv1)"
    by blast
  from sv1 have eq: "status_of sv1 = status_of sv" "manifest_at sv1 = manifest_at sv"
    by (simp_all add: status_of_def manifest_at_def fun_eq_iff)
  show "status_of sv' n = status_of sv n \<or> (\<exists>e'. status_of sv' n = Some (Failed e'))"
    using sv' by (auto simp: eq status_modify) (auto simp: status_of_def sv1)
  show "m \<noteq> n \<Longrightarrow> status_of sv' m = status_of sv m"
    using sv' by (auto simp: eq status_modify)
  have "manifest_at (modify_service n (\<lambda>r. r\<lparr>sr_status := Failed e'\<rparr>) sv1) = manifest_at sv" for e'
    by (rule ext) (simp add: manifest_modify eq)
  with sv' show "manifest_at sv' = manifest_at sv" by (auto simp: eq)
qed

subsection \<open>Boot\<close>

text \<open>No service runs without everything it depends on running.\<close>

definition deps_running :: "supervisor \<Rightarrow> bool" where
  "deps_running sv \<longleftrightarrow>
     (\<forall>n m. status_of sv n = Some Running \<longrightarrow> manifest_at sv n = Some m \<longrightarrow>
        (\<forall>d \<in> set (sm_dependencies m). status_of sv d = Some Running))"

lemma start_service_deps_running:
  assumes "start_service w n sv = (r, sv')" "deps_running sv" "status_of sv n \<noteq> Some Running"
  shows "deps_running sv'"
proof (cases r)
  case (Inl e)
  note st = start_service_err [OF assms(1) [unfolded Inl]]
  have "status_of sv' n \<noteq> Some Running" using st(1) assms(3) by auto
  with st(2,3) assms(2,3) show ?thesis unfolding deps_running_def by metis
next
  case (Inr u)
  note st = start_service_ok [OF assms(1) [unfolded Inr]]
  show ?thesis
    unfolding deps_running_def
  proof (intro allI impI ballI)
    fix x m d
    assume x: "status_of sv' x = Some Running" "manifest_at sv' x = Some m"
      "d \<in> set (sm_dependencies m)"
    have "status_of sv d = Some Running"
    proof (cases "x = n")
      case True
      with x(2,3) st(3,4) show ?thesis by simp
    next
      case False
      with x st(2,3) assms(2) show ?thesis unfolding deps_running_def by metis
    qed
    with st(1,2) show "status_of sv' d = Some Running" by (cases "d = n") simp_all
  qed
qed

definition critical_at :: "supervisor \<Rightarrow> string \<Rightarrow> bool" where
  "critical_at sv n \<longleftrightarrow> (\<exists>m. manifest_at sv n = Some m \<and> sm_critical m)"

lemma boot_Done:
  assumes "boot w names sv = Done sv'" "distinct names"
    and "deps_running sv" "\<forall>n \<in> set names. status_of sv n \<noteq> Some Running"
  shows "deps_running sv' \<and> manifest_at sv' = manifest_at sv \<and>
    (\<forall>n. n \<notin> set names \<longrightarrow> status_of sv' n = status_of sv n) \<and>
    (\<forall>n \<in> set names. critical_at sv n \<longrightarrow> status_of sv' n = Some Running)"
  using assms
proof (induction names arbitrary: sv)
  case (Cons n names)
  obtain r sv1 where start: "start_service w n sv = (r, sv1)" by fastforce
  have d1: "deps_running sv1"
    using start_service_deps_running [OF start Cons.prems(3)] Cons.prems(4) by simp
  have same: "m \<noteq> n \<Longrightarrow> status_of sv1 m = status_of sv m" for m
    using start start_service_ok(2) start_service_err(2) by (cases r; metis)
  have man: "manifest_at sv1 = manifest_at sv"
    using start start_service_ok(3) start_service_err(3) by (cases r; metis)
  have rest: "boot w names sv1 = Done sv'"
    and crit: "critical_at sv n \<Longrightarrow> status_of sv1 n = Some Running"
  proof -
    show "boot w names sv1 = Done sv'"
      using Cons.prems(1) start by (auto split: sum.splits option.splits if_splits)
    assume "critical_at sv n"
    then have "critical_at sv1 n" by (simp add: critical_at_def man)
    then obtain svc where "map_of (sv_services sv1) n = Some svc" "sm_critical (sr_manifest svc)"
      by (auto simp: critical_at_def manifest_at_def)
    with Cons.prems(1) start have "\<exists>u. r = Inr u" by (auto split: sum.splits)
    with start start_service_ok(1) show "status_of sv1 n = Some Running" by blast
  qed
  have "\<forall>m \<in> set names. status_of sv1 m \<noteq> Some Running"
    using Cons.prems(2,4) same by (metis distinct.simps(2) list.set_intros(2))
  from Cons.IH [OF rest _ d1 this] Cons.prems(2) have ih: "deps_running sv'"
      "manifest_at sv' = manifest_at sv1"
      "\<And>m. m \<notin> set names \<Longrightarrow> status_of sv' m = status_of sv1 m"
      "\<And>m. m \<in> set names \<Longrightarrow> critical_at sv1 m \<Longrightarrow> status_of sv' m = Some Running"
    by auto
  moreover have "critical_at sv1 = critical_at sv" by (simp add: critical_at_def man fun_eq_iff)
  ultimately show ?case
    using man same crit Cons.prems(2) by auto
qed simp

lemma fold_services_gen:
  "(\<And>m. m \<in> set ms \<Longrightarrow> f m = service_runtime_new m) \<Longrightarrow>
   map_of (fold (\<lambda>m. AList.update (sm_name m) (f m)) ms acc) n = Some r \<Longrightarrow>
   map_of acc n = Some r \<or> (\<exists>m \<in> set ms. sm_name m = n \<and> r = service_runtime_new m)"
proof (induction ms arbitrary: acc)
  case (Cons m ms)
  from Cons.prems(2) have "map_of (fold (\<lambda>m. AList.update (sm_name m) (f m)) ms
      (AList.update (sm_name m) (f m) acc)) n = Some r" by simp
  from Cons.IH [OF _ this] Cons.prems(1) show ?case
    by (cases "n = sm_name m") (auto simp: map_of_update)
qed simp

lemma fold_services_distinct:
  "distinct (map sm_name ms) \<Longrightarrow> m \<in> set ms \<Longrightarrow>
   map_of (fold (\<lambda>m. AList.update (sm_name m) (service_runtime_new m)) ms acc) (sm_name m) =
     Some (service_runtime_new m)"
proof -
  assume d: "distinct (map sm_name ms)" and m: "m \<in> set ms"
  let ?kvs = "map (\<lambda>m. (sm_name m, service_runtime_new m)) ms"
  have "map_of (fold (\<lambda>(k, v). AList.update k v) ?kvs acc) (sm_name m) = Some (service_runtime_new m)"
    by (rule hash_store.lookup_insert_all) (use d m in \<open>auto simp: comp_def\<close>)
  then show ?thesis by (simp add: fold_map comp_def)
qed

lemma supervisor_new_Done:
  assumes "supervisor_new h ms g sock = Done sv"
  shows "\<exists>sorted. topological_sort h g = Done sorted \<and> sv_startup_order sv = map sm_name sorted"
    and "status_of sv n = Some s \<Longrightarrow> s = Pending"
    and "distinct (map sm_name ms) \<Longrightarrow> m \<in> set ms \<Longrightarrow> manifest_at sv (sm_name m) = Some m"
    and "manifest_at sv n = Some m \<Longrightarrow> m \<in> set ms \<and> sm_name m = n"
proof -
  obtain sorted where s: "topological_sort h g = Done sorted"
    and sv: "sv = \<lparr>sv_services = fold (\<lambda>m. AList.update (sm_name m) (service_runtime_new m)) ms [],
      sv_graph = g, sv_startup_order = map sm_name sorted, sv_bus_socket = sock, sv_now = 0,
      sv_trace = []\<rparr>"
    using assms by (auto simp: supervisor_new_def bind_outcome_Done_iff)
  then show "\<exists>sorted. topological_sort h g = Done sorted \<and> sv_startup_order sv = map sm_name sorted"
    by simp
  show "status_of sv n = Some s \<Longrightarrow> s = Pending"
    using fold_services_gen [of ms service_runtime_new "[]" n]
    by (auto simp: status_of_def sv service_runtime_new_def)
  show "distinct (map sm_name ms) \<Longrightarrow> m \<in> set ms \<Longrightarrow> manifest_at sv (sm_name m) = Some m"
    using fold_services_distinct [of ms m "[]"]
    by (simp add: manifest_at_def sv service_runtime_new_def)
  show "manifest_at sv n = Some m \<Longrightarrow> m \<in> set ms \<and> sm_name m = n"
    using fold_services_gen [of ms service_runtime_new "[]" n]
    by (auto simp: manifest_at_def sv service_runtime_new_def)
qed

lemma monitord_main_Done:
  assumes "monitord_main h yaml dir sock w = Done sv"
  obtains ms g sv0 where "load_from_dir yaml dir = Inr ms" "dependency_graph_new h ms = Done g"
    "supervisor_new h ms g sock = Done sv0" "boot w (sv_startup_order sv0) sv0 = Done sv"
proof -
  have mf': "map_fail f m = Done x \<longleftrightarrow> m = Done x"
    for f :: "string \<Rightarrow> main_error" and m :: "(string, supervisor) outcome" and x
    by (cases m) (simp_all add: map_fail_def)
  have mf'': "map_fail f m = Done x \<longleftrightarrow> m = Done x"
    for f :: "graph_error \<Rightarrow> main_error" and m :: "(graph_error, supervisor) outcome" and x
    by (cases m) (simp_all add: map_fail_def)
  have mf3: "map_fail f m = Done x \<longleftrightarrow> m = Done x"
    for f :: "graph_error \<Rightarrow> main_error" and m :: "(graph_error, dependency_graph) outcome" and x
    by (cases m) (simp_all add: map_fail_def)
  from assms that show thesis
    by (auto simp: monitord_main_def bind_outcome_Done_iff mf' mf'' mf3 split: sum.splits)
qed

text \<open>
  Property C3. When monitord comes up, every service that is running has all its dependencies
  running, and every critical service is running; a critical service that cannot start stops
  the boot instead.
\<close>

theorem boot_respects_dependencies:
  assumes "fair_graph_order h" "monitord_main h yaml dir sock w = Done sv"
  shows "deps_running sv \<and> (\<forall>n. critical_at sv n \<longrightarrow> status_of sv n = Some Running)"
proof -
  obtain ms g sv0 where ms: "load_from_dir yaml dir = Inr ms"
      and g: "dependency_graph_new h ms = Done g" and sv0: "supervisor_new h ms g sock = Done sv0"
      and b: "boot w (sv_startup_order sv0) sv0 = Done sv"
    by (rule monitord_main_Done [OF assms(2)])
  note new = supervisor_new_Done [OF sv0]
  from new_graph_valid [OF assms(1) g] assms(1) obtain p where
      p: "sorted_names (h, g) = Some p" "distinct p" "set p = nodes g"
      and names: "nodes g = service_names ms"
    by (metis sorted_names_ok)
  with new(1) have order: "sv_startup_order sv0 = p" by (auto simp: sorted_names_def)
  have pending: "status_of sv0 n \<noteq> Some Running" for n using new(2) by fastforce
  then have "deps_running sv0" by (simp add: deps_running_def)
  from boot_Done [OF b _ this] pending p order have fin: "deps_running sv"
      "manifest_at sv = manifest_at sv0"
      "\<And>n. n \<in> nodes g \<Longrightarrow> critical_at sv0 n \<Longrightarrow> status_of sv n = Some Running"
    by auto
  have "n \<in> nodes g" if "critical_at sv0 n" for n
    using that new(4) by (auto simp: critical_at_def names service_names_def)
  moreover have "critical_at sv = critical_at sv0"
    by (simp add: critical_at_def fin(2) fun_eq_iff)
  ultimately show ?thesis using fin(1,3) by simp
qed

definition healthy_world :: "world \<Rightarrow> bool" where
  "healthy_world w \<longleftrightarrow> (\<forall>t p. w_exists w t p) \<and> (\<forall>t cmd. is_ok (w_spawn w t cmd))"

lemma start_service_succeeds:
  assumes "healthy_world w" "manifest_at sv n = Some m"
    and "\<forall>d \<in> set (sm_dependencies m). status_of sv d = Some Running"
  shows "\<exists>sv'. start_service w n sv = (Inr (), sv')"
proof -
  from assms(2) obtain svc where svc: "map_of (sv_services sv) n = Some svc" "sr_manifest svc = m"
    by (auto simp: manifest_at_def)
  have wd: "wait_dependencies (sm_dependencies m) sv = (Inr (), sv)"
    by (rule wait_dependencies_running [OF assms(3)])
  have "is_ok (w_spawn w (sv_now sv) (build_command m (sv_bus_socket sv)))"
    using assms(1) by (simp add: healthy_world_def)
  then obtain c pid where sp: "w_spawn w (sv_now sv) (build_command m (sv_bus_socket sv)) = Inr (c, pid)"
    by (auto elim: is_ok.elims)
  show ?thesis
    using assms(1) by (simp add: start_service_def svc wd sp healthy_world_def Let_def)
qed

lemma boot_all:
  assumes w: "healthy_world w" and r: "ordered r (pre @ names)"
  shows "\<forall>n \<in> set pre. status_of sv n = Some Running \<Longrightarrow>
    \<forall>n \<in> set names. \<exists>m. manifest_at sv n = Some m \<and> set (sm_dependencies m) \<subseteq> r `` {n} \<Longrightarrow>
    \<exists>sv'. boot w names sv = Done sv' \<and> (\<forall>n \<in> set (pre @ names). status_of sv' n = Some Running)"
  using r
proof (induction names arbitrary: pre sv)
  case (Cons n names)
  from Cons.prems(2) obtain m where m: "manifest_at sv n = Some m"
      "set (sm_dependencies m) \<subseteq> r `` {n}" by auto
  have "r `` {n} \<subseteq> set pre"
    using Cons.prems(3) unfolding ordered_def by (auto dest!: spec [of _ "length pre"])
  with m(2) Cons.prems(1) have "\<forall>d \<in> set (sm_dependencies m). status_of sv d = Some Running"
    by blast
  then obtain sv1 where start: "start_service w n sv = (Inr (), sv1)"
    using start_service_succeeds [OF w m(1)] by blast
  note st = start_service_ok [OF start]
  have 1: "\<forall>x \<in> set (pre @ [n]). status_of sv1 x = Some Running"
  proof
    fix x assume "x \<in> set (pre @ [n])"
    with Cons.prems(1) st(1,2) show "status_of sv1 x = Some Running" by (cases "x = n") auto
  qed
  have 2: "\<forall>x \<in> set names. \<exists>m. manifest_at sv1 x = Some m \<and> set (sm_dependencies m) \<subseteq> r `` {x}"
    using Cons.prems(2) st(3) by simp
  have "ordered r ((pre @ [n]) @ names)" using Cons.prems(3) by simp
  from Cons.IH [OF 1 2 this] start show ?case by simp
qed simp

lemma boot_all_up:
  assumes "fair_graph_order h" "load_from_dir yaml dir = Inr ms"
    and "snd ` dep_rel ms \<subseteq> service_names ms" "acyclic (dep_rel ms)" "healthy_world w"
  shows "\<exists>sv. monitord_main h yaml dir sock w = Done sv \<and>
    (\<forall>m \<in> set ms. status_of sv (sm_name m) = Some Running)"
proof -
  obtain g where g: "dependency_graph_new h ms = Done g"
  proof (cases rule: dependency_graph_new_cases
      [OF assms(1), of ms, case_names ok missing cyclic])
    case (missing s d)
    with assms(3) have False by (force dest: subsetD)
    then show thesis ..
  next
    case (cyclic c)
    with assms(4) is_cycle_not_acyclic show thesis by blast
  qed (rule that)
  have v: "graph_valid g" "edges g = dep_rel ms" "nodes g = service_names ms"
    using new_graph_valid [OF assms(1) g] by blast+
  obtain p where p: "sorted_names (h, g) = Some p" "distinct p" "set p = nodes g"
      "ordered (edges g) p"
    by (rule sorted_names_ok [OF assms(1) v(1)])
  then obtain sorted where sorted: "topological_sort h g = Done sorted" "map sm_name sorted = p"
    by (auto simp: sorted_names_def split: outcome.splits)
  then obtain sv0 where sv0: "supervisor_new h ms g sock = Done sv0" and order: "sv_startup_order sv0 = p"
    by (simp add: supervisor_new_def)
  have "distinct (map sm_name ms)"
    using load_entries_ok [of yaml _ "[]" "[]" ms] assms(2)
    by (auto simp: load_from_dir_def manifests_ok_def split: dir_view.splits)
  note man = supervisor_new_Done(3) [OF sv0 this]
  have "\<forall>n \<in> set p. \<exists>m. manifest_at sv0 n = Some m \<and> set (sm_dependencies m) \<subseteq> edges g `` {n}"
  proof
    fix n assume "n \<in> set p"
    then obtain m where "m \<in> set ms" "sm_name m = n"
      using p(3) v(3) by (auto simp: service_names_def)
    with man v(2) show "\<exists>m. manifest_at sv0 n = Some m \<and> set (sm_dependencies m) \<subseteq> edges g `` {n}"
      by (intro exI [of _ m]) (auto simp: dep_rel_def)
  qed
  with boot_all [OF assms(5), of "edges g" "[]" p sv0] p(4) obtain sv where
      sv: "boot w p sv0 = Done sv" "\<forall>n \<in> set p. status_of sv n = Some Running"
    by auto
  have "monitord_main h yaml dir sock w = Done sv"
    by (simp add: monitord_main_def assms(2) g sv0 order sv(1) map_fail_def)
  moreover have "\<forall>m \<in> set ms. status_of sv (sm_name m) = Some Running"
    using sv(2) p(3) v(3) by (simp add: service_names_def)
  ultimately show ?thesis by blast
qed

text \<open>
  Property C19. If the manifests load and their dependencies are sound, and every binary exists
  and spawns, then the whole boot succeeds and every service ends up running: the startup
  order never makes a service wait for one that comes later.
\<close>

theorem boot_brings_up_all:
  assumes "fair_graph_order h" "load_from_dir yaml dir = Inr ms"
    and "snd ` dep_rel ms \<subseteq> service_names ms" "acyclic (dep_rel ms)" "healthy_world w"
  shows "\<exists>sv. monitord_main h yaml dir sock w = Done sv \<and>
    (\<forall>m \<in> set ms. status_of sv (sm_name m) = Some Running)"
  using assms by (rule boot_all_up)

definition sample_yaml :: "string \<Rightarrow> raw_manifest option" where
  "sample_yaml content = Some (if content = ''otad'' then sample_raw
     else sample_raw\<lparr>raw_name := Some content, raw_dependencies := None, raw_critical := Some True\<rparr>)"

definition sample_dir :: dir_view where
  "sample_dir = DirEntries
     [Some \<lparr>de_path = ''/s/otad.yaml'', de_file_name = ''otad.yaml'', de_content = Some ''otad''\<rparr>,
      Some \<lparr>de_path = ''/s/netmd.yml'', de_file_name = ''netmd.yml'', de_content = Some ''netmd''\<rparr>]"

definition sample_world :: world where
  "sample_world = \<lparr>w_exists = \<lambda>_ _. True, w_spawn = \<lambda>t _. Inr (t, Some 7),
     w_try_wait = \<lambda>_ _. StillRunning, w_tcp = \<lambda>_ _. (None, 1),
     w_rpc = \<lambda>_. \<lparr>rw_connect = None, rw_uuid = 0, rw_timestamp = 0, rw_cbor = \<lambda>_. Some [],
       rw_write = \<lambda>_. None, rw_response = [], rw_duration = 5\<rparr>\<rparr>"

definition sample_manifests :: "service_manifest list" where
  "sample_manifests = [the (manifest_of sample_raw), the (manifest_of (sample_raw
     \<lparr>raw_name := Some ''netmd'', raw_dependencies := None, raw_critical := Some True\<rparr>))]"

lemma sample_load: "load_from_dir sample_yaml sample_dir = Inr sample_manifests"
  by code_simp

lemma sample_names: "map sm_name sample_manifests = [''otad'', ''netmd'']"
  by code_simp

lemma sample_deps: "dep_rel sample_manifests = {(''otad'', ''netmd'')}"
  by (auto simp: dep_rel_def sample_manifests_def manifest_of_def sample_raw_def restart_of_def)

lemma sample_ok:
  "snd ` dep_rel sample_manifests \<subseteq> service_names sample_manifests"
  "acyclic (dep_rel sample_manifests)" "healthy_world sample_world"
proof -
  have "service_names sample_manifests = {''otad'', ''netmd''}"
    using sample_names by (metis list.set(1,2) service_names_def set_map)
  then show "snd ` dep_rel sample_manifests \<subseteq> service_names sample_manifests"
    by (simp add: sample_deps)
  have "(x, x) \<notin> {(''otad'', ''netmd'')}\<^sup>+" for x
    by (subst trancl_unfold) (auto elim: tranclE)
  then show "acyclic (dep_rel sample_manifests)"
    by (simp add: sample_deps acyclic_def)
  show "healthy_world sample_world" by (simp add: healthy_world_def sample_world_def)
qed

lemma sample_boot: "\<exists>sv. monitord_main id_order sample_yaml sample_dir None sample_world = Done sv \<and>
    (\<forall>m \<in> set sample_manifests. status_of sv (sm_name m) = Some Running)"
  by (rule boot_all_up [OF fair_sample_orders(1) sample_load sample_ok])

theorem boot_respects_dependencies_witness:
  "\<exists>sv. monitord_main id_order sample_yaml sample_dir None sample_world = Done sv \<and>
     deps_running sv \<and> (critical_at sv ''netmd'' \<longrightarrow> status_of sv ''netmd'' = Some Running)"
  using sample_boot boot_respects_dependencies [OF fair_sample_orders(1)] by blast

theorem boot_brings_up_all_witness:
  "\<exists>sv. monitord_main id_order sample_yaml sample_dir None sample_world = Done sv \<and>
     (\<forall>m \<in> set sample_manifests. status_of sv (sm_name m) = Some Running)"
  by (rule boot_brings_up_all [OF fair_sample_orders(1) sample_load sample_ok])

subsection \<open>Startup ends\<close>

lemma wait_bounded: "elapsed \<le> 30100 \<Longrightarrow> snd (wait_until_running sv n elapsed) \<le> 30100"
proof (induction sv n elapsed rule: wait_until_running.induct)
  case (1 sv n elapsed)
  show ?case
  proof (cases "elapsed > 30000")
    case True
    with 1(4) show ?thesis by (simp add: wait_until_running.simps)
  next
    case False
    with 1 show ?thesis
      by (subst wait_until_running.simps) (simp split: option.split service_status.split)
  qed
qed

text \<open>Only the last dependency that is waited for can take time: one that has run took none.\<close>

lemma wait_dependencies_bounded: "sv_now (snd (wait_dependencies ds sv)) \<le> sv_now sv + 30100"
proof (induction ds arbitrary: sv)
  case (Cons d ds)
  obtain r t where w: "wait_until_running sv d 0 = (r, t)" by force
  with wait_bounded [of 0 sv d] have t: "t \<le> 30100" by simp
  show ?case
  proof (cases r)
    case (Inr u)
    with wait_Inr [of sv d 0 u t] w Cons.IH [of sv] show ?thesis by simp
  qed (use w t in \<open>simp add: pass_def\<close>)
qed simp

text \<open>
  What the start of a service can cost, in milliseconds: the wait for a dependency that does
  not come, or its own startup timeout.
\<close>

definition start_cost :: "service_manifest \<Rightarrow> nat" where
  "start_cost m = max 30100 (unat (sm_startup_timeout_secs m) * 1000)"

lemma startup_health_bounded: "snd (startup_health w m now) \<le> unat (sm_startup_timeout_secs m) * 1000"
  by (auto simp: startup_health_def timeout_def split: option.split prod.split)

lemma now_modify [simp]: "sv_now (modify_service n f sv) = sv_now sv"
  by (simp add: modify_service_def split: option.split)

lemma now_act [simp]: "sv_now (act a sv) = sv_now sv"
  by (simp add: act_def)

lemma start_service_bounded:
  assumes "manifest_at sv n = Some m"
  shows "sv_now (snd (start_service w n sv)) \<le> sv_now sv + start_cost m"
proof -
  from assms obtain svc where svc: "map_of (sv_services sv) n = Some svc" "sr_manifest svc = m"
    by (auto simp: manifest_at_def)
  obtain r sv1 where wd: "wait_dependencies (sm_dependencies m) sv = (r, sv1)" by force
  show ?thesis
  proof (cases r)
    case (Inl e)
    then show ?thesis
      using svc wd wait_dependencies_bounded [of "sm_dependencies m" sv]
      by (simp add: start_service_def start_cost_def)
  next
    case (Inr u)
    with wd wait_dependencies_Inr have "sv1 = sv" by blast
    with Inr svc wd startup_health_bounded [of w m] show ?thesis
      by (auto simp: start_service_def start_cost_def Let_def pass_def split: sum.split
          intro: le_trans [OF _ max.cobounded2])
  qed
qed

lemma start_service_manifests: "manifest_at (snd (start_service w n sv)) = manifest_at sv"
  using start_service_ok(3) start_service_err(3)
  by (cases "start_service w n sv"; cases "fst (start_service w n sv)") auto

lemma boot_bounded:
  "\<forall>n \<in> set names. manifest_at sv n \<noteq> None \<Longrightarrow>
   (case boot w names sv of
      Done sv' \<Rightarrow> sv_now sv' \<le> sv_now sv + (\<Sum>n \<leftarrow> names. start_cost (the (manifest_at sv n)))
    | Fail _ \<Rightarrow> True | Panic \<Rightarrow> False | NoFuel \<Rightarrow> False)"
proof (induction names arbitrary: sv)
  case (Cons n names)
  obtain r sv1 where st: "start_service w n sv = (r, sv1)" by force
  with start_service_manifests [of w n sv] have man: "manifest_at sv1 = manifest_at sv" by simp
  from Cons.prems obtain m where m: "manifest_at sv n = Some m" by auto
  have t: "sv_now sv1 \<le> sv_now sv + start_cost m"
    using start_service_bounded [OF m, of w] st by simp
  have rest: "case boot w names sv1 of
      Done sv' \<Rightarrow> sv_now sv' \<le> sv_now sv + (\<Sum>n \<leftarrow> n # names. start_cost (the (manifest_at sv n)))
    | Fail _ \<Rightarrow> True | Panic \<Rightarrow> False | NoFuel \<Rightarrow> False"
    using Cons.IH [of sv1] Cons.prems t m man by (auto split: outcome.splits)
  show ?case
  proof (cases r)
    case (Inr u)
    with st rest show ?thesis by simp
  next
    case (Inl e)
    from m have "manifest_at sv1 n = Some m" unfolding man .
    then obtain svc where "map_of (sv_services sv1) n = Some svc"
      by (auto simp: manifest_at_def)
    with Inl st rest show ?thesis by simp
  qed
qed simp

lemma load_distinct: "load_from_dir yaml dir = Inr ms \<Longrightarrow> distinct (map sm_name ms)"
  using load_entries_ok [of yaml _ "[]" "[]" ms]
  by (auto simp: load_from_dir_def manifests_ok_def split: dir_view.splits)

text \<open>
  Property C20. Startup always comes to an end: monitord either reports an error or has booted,
  whatever the manifests, the world and the iteration orders of the maps are; it never panics
  and never loops. A boot that succeeds has taken at most, for each service, the larger of its
  startup timeout and the 30.1 seconds of waiting for a dependency that does not come.
\<close>

theorem startup_ends:
  assumes "fair_graph_order h"
  shows "case monitord_main h yaml dir sock w of
      Done sv \<Rightarrow> \<exists>ms. load_from_dir yaml dir = Inr ms \<and>
        sv_now sv \<le> (\<Sum>m \<leftarrow> ms. max 30100 (unat (sm_startup_timeout_secs m) * 1000))
    | Fail _ \<Rightarrow> True | Panic \<Rightarrow> False | NoFuel \<Rightarrow> False"
proof (cases "load_from_dir yaml dir")
  case (Inl e)
  then show ?thesis by (simp add: monitord_main_def)
next
  case (Inr ms)
  show ?thesis
  proof (cases "\<exists>g. dependency_graph_new h ms = Done g")
    case False
    then obtain e where "dependency_graph_new h ms = Fail e"
      by (cases rule: dependency_graph_new_cases [OF assms, of ms]) auto
    with Inr show ?thesis by (simp add: monitord_main_def map_fail_def)
  next
    case True
    then obtain g where g: "dependency_graph_new h ms = Done g" by blast
    from new_graph_valid [OF assms g] assms obtain p where
        p: "sorted_names (h, g) = Some p" "distinct p" "set p = service_names ms"
      by (metis sorted_names_ok)
    then obtain sorted where sorted: "topological_sort h g = Done sorted" "map sm_name sorted = p"
      by (auto simp: sorted_names_def split: outcome.splits)
    then obtain sv0 where sv0: "supervisor_new h ms g sock = Done sv0" "sv_startup_order sv0 = p"
        "sv_now sv0 = 0"
      by (simp add: supervisor_new_def)
    note man = supervisor_new_Done(3) [OF sv0(1) load_distinct [OF Inr]]
    have "\<forall>n \<in> set p. manifest_at sv0 n \<noteq> None"
      using man p(3) by (auto simp: service_names_def)
    from boot_bounded [OF this, of w] have b: "case boot w p sv0 of
        Done sv' \<Rightarrow> sv_now sv' \<le> (\<Sum>n \<leftarrow> p. start_cost (the (manifest_at sv0 n)))
      | Fail _ \<Rightarrow> True | Panic \<Rightarrow> False | NoFuel \<Rightarrow> False"
      unfolding sv0(3) by (simp only: add_0)
    have "(\<Sum>n \<leftarrow> p. start_cost (the (manifest_at sv0 n))) =
        (\<Sum>n \<in> set (map sm_name ms). start_cost (the (manifest_at sv0 n)))"
      using p(2,3) by (simp add: sum_list_distinct_conv_sum_set service_names_def)
    also have "\<dots> = (\<Sum>m \<leftarrow> ms. start_cost (the (manifest_at sv0 (sm_name m))))"
      using load_distinct [OF Inr]
      by (subst sum_list_distinct_conv_sum_set [symmetric]) (simp_all add: comp_def)
    also have "\<dots> = (\<Sum>m \<leftarrow> ms. start_cost m)"
      using man by (intro arg_cong [where f = sum_list] map_cong) auto
    finally show ?thesis
      using b Inr g sv0(1,2) by (simp add: monitord_main_def map_fail_def start_cost_def split: outcome.splits)
  qed
qed

lemma sample_timeouts: "map sm_startup_timeout_secs sample_manifests = [default_startup_timeout, default_startup_timeout]"
  by code_simp

theorem startup_ends_witness:
  "case monitord_main id_order sample_yaml sample_dir None sample_world of
     Done sv \<Rightarrow> sv_now sv \<le> 2 * 30100 | _ \<Rightarrow> False"
proof -
  have "map (\<lambda>m. max 30100 (unat (sm_startup_timeout_secs m) * 1000)) sample_manifests =
      map (\<lambda>t. max 30100 (unat t * 1000)) (map sm_startup_timeout_secs sample_manifests)"
    by simp
  also have "\<dots> = [30100, 30100]"
    unfolding sample_timeouts by (simp add: default_startup_timeout_def)
  finally show ?thesis
    using startup_ends [OF fair_sample_orders(1), of sample_yaml sample_dir None sample_world]
      sample_load sample_boot
    by (auto split: outcome.splits)
qed

subsection \<open>Services that cannot start, and what their children see\<close>

lemma wait_dependencies_append:
  "\<forall>d \<in> set pre. status_of sv d = Some Running \<Longrightarrow>
   wait_dependencies (pre @ ds) sv = wait_dependencies ds sv"
  by (induction pre) (simp_all add: wait_running)

text \<open>
  A service whose dependency never got to run is not marked as failed: it stays as
  it was. So a service that depends on it in turn finds it neither running nor failed, and its
  start gives up only after more than thirty seconds of waiting.
\<close>

lemma blocked_dependency_costs_thirty_seconds:
  assumes "manifest_at sv n = Some m" "sm_dependencies m = pre @ d # post"
    and "\<forall>p \<in> set pre. status_of sv p = Some Running"
    and "status_of sv d \<in> {Some Pending, Some Starting, Some Stopped}"
  shows "\<exists>sv' e. start_service w n sv = (Inl e, sv') \<and> sv_services sv' = sv_services sv \<and>
     sv_now sv + 30000 < sv_now sv'"
proof -
  from assms(1) obtain svc where svc: "map_of (sv_services sv) n = Some svc" "sr_manifest svc = m"
    by (auto simp: manifest_at_def)
  obtain t where t: "wait_until_running sv d 0 = (Inl (''Timeout waiting for '' @ d), t)" "30000 < t"
    using wait_settles [OF assms(4), of 0] by auto
  then have "wait_dependencies (sm_dependencies m) sv =
      (Inl (''Timeout waiting for '' @ d), pass t sv)"
    unfolding assms(2) wait_dependencies_append [OF assms(3)] by simp
  then show ?thesis
    using svc t(2) by (simp add: start_service_def Let_def pass_def)
qed

lemma blocked_dependency_costs_thirty_seconds_witness:
  "let m = svc_base ''c'' ''/bin/c'' ''C''\<lparr>sm_dependencies := [''a'', ''b'']\<rparr>;
       sv = \<lparr>sv_services = [(''c'', service_runtime_new m),
               (''b'', service_runtime_new (svc_base ''b'' ''/bin/b'' ''B'')),
               (''a'', (service_runtime_new (svc_base ''a'' ''/bin/a'' ''A''))\<lparr>sr_status := Running\<rparr>)],
             sv_graph = default_graph, sv_startup_order = [], sv_bus_socket = None, sv_now = 8,
             sv_trace = []\<rparr>
   in \<exists>sv' e. start_service sample_world ''c'' sv = (Inl e, sv') \<and>
        sv_services sv' = sv_services sv \<and> 30008 < sv_now sv'"
proof -
  let ?m = "svc_base ''c'' ''/bin/c'' ''C''\<lparr>sm_dependencies := [''a'', ''b'']\<rparr>"
  let ?sv = "\<lparr>sv_services = [(''c'', service_runtime_new ?m),
      (''b'', service_runtime_new (svc_base ''b'' ''/bin/b'' ''B'')),
      (''a'', (service_runtime_new (svc_base ''a'' ''/bin/a'' ''A''))\<lparr>sr_status := Running\<rparr>)],
    sv_graph = default_graph, sv_startup_order = [], sv_bus_socket = None, sv_now = 8, sv_trace = []\<rparr>"
  show ?thesis
    using blocked_dependency_costs_thirty_seconds
      [of ?sv "''c''" ?m "[''a'']" "''b''" "[]" sample_world]
    by (simp add: manifest_at_def status_of_def service_runtime_new_def Let_def)
qed

text \<open>
  A child always sees its own service name, the bus socket and the log level in
  its environment, whatever the manifest's variables say.
\<close>

lemma child_environment_fixed:
  "map_of (sc_env (build_command m sock)) ''UOS_SERVICE_NAME'' = Some (sm_name m) \<and>
   map_of (sc_env (build_command m sock)) ''STARDUST_SOCKET'' =
     Some (case sock of Some s \<Rightarrow> s | None \<Rightarrow> []) \<and>
   map_of (sc_env (build_command m sock)) ''UOS_LOG'' = Some ''info''"
  by (simp add: build_command_def build_env_def Let_def map_of_update)

text \<open>
  The health checks of the built-in services check nothing: each of their methods
  is unknown to the checker, which then answers at once that the service is healthy.
\<close>

lemma default_health_checks_vacuous:
  "list_all (\<lambda>m. case sm_health_check m of None \<Rightarrow> True
     | Some method \<Rightarrow> check_health w t method = (Inr (), 0)) default_services"
  by (simp add: default_services_def svc_defs check_health_def starts_with_def)

text \<open>
  An RPC health check succeeds exactly when the bus accepts a connection and both
  writes: what the checked service answers, or whether it answers at all, plays no part.
\<close>

lemma rpc_health_ignores_response:
  "stardust_rpc_call (rw\<lparr>rw_response := r\<rparr>) method = stardust_rpc_call rw method \<and>
   (is_ok (stardust_rpc_call rw method) \<longleftrightarrow>
      rw_connect rw = None \<and>
      (\<exists>cbor. rw_cbor rw (rpc_ping rw method) = Some cbor \<and>
         rw_write rw (put_u32_le (of_nat (length cbor))) = None \<and> rw_write rw cbor = None))"
  by (simp add: stardust_rpc_call_def rpc_ping_def split: option.split)

end
