(* ===== verification/MonitordMonitor.thy ===== *)
theory MonitordMonitor
  imports MonitordSupervisor
begin

section \<open>monitord: monitoring, restarts and shutdown\<close>

text \<open>
  The second half of \<open>crates/monitord/src/supervisor.rs\<close>: the main loop, the monitor round
  with its crash-loop detection, the periodic health checks, killing and shutting down.

  The services live in a \<open>DashMap\<close> (crate dashmap), whose entries are guarded by locks. Whether
  a write access to an entry has to wait, given the entries the same task still holds
  references to, is a parameter (\<open>locks\<close>); a task that waits for itself is \<open>Deadlock\<close>. What the
  crate documents is the hypothesis \<open>dashmap_locks\<close>: a write access waits while any
  reference to the same entry is held, and not when none into the map is.
\<close>

type_synonym locks = "string list \<Rightarrow> string \<Rightarrow> bool"

datatype 'a task = Finished 'a | Deadlock | Panicked

primrec bind_task :: "'a task \<Rightarrow> ('a \<Rightarrow> 'b task) \<Rightarrow> 'b task" where
  "bind_task (Finished x) f = f x"
| "bind_task Deadlock f = Deadlock"
| "bind_task Panicked f = Panicked"

lemma bind_task_Finished: "bind_task m f = Finished y \<longleftrightarrow> (\<exists>x. m = Finished x \<and> f x = Finished y)"
  by (cases m) auto

definition dashmap_locks :: "locks \<Rightarrow> bool" where
  "dashmap_locks b \<longleftrightarrow> (\<forall>held k. k \<in> set held \<longrightarrow> b held k) \<and> (\<forall>k. \<not> b [] k)"

definition no_locks :: locks where
  "no_locks held k = False"

subsection \<open>A child exits\<close>

definition show_int :: "int \<Rightarrow> string" where
  "show_int i = (if i < 0 then ''-'' @ show_nat (nat (- i)) else show_nat (nat i))"

definition exit_text :: "int option \<Rightarrow> string" where
  "exit_text code =
     ''exit code: '' @ (case code of None \<Rightarrow> ''None'' | Some c \<Rightarrow> ''Some('' @ show_int c @ '')'')"

fun should_restart :: "restart_policy \<Rightarrow> int option \<Rightarrow> bool" where
  "should_restart Always code = True"
| "should_restart OnFailure code = (code \<noteq> Some 0)"
| "should_restart Never code = False"

definition crash_window :: "service_manifest \<Rightarrow> nat" where
  "crash_window m = unat (sm_crash_window_secs m) * 1000"

definition on_child_exit ::
  "nat \<Rightarrow> int option \<Rightarrow> service_runtime \<Rightarrow> service_runtime \<times> bool" where
  "on_child_exit now code r =
     (let m = sr_manifest r;
          stamps = filter (\<lambda>t. now - t < crash_window m) (sr_crash_timestamps r @ [now]);
          r' = r\<lparr>sr_status := Failed (exit_text code), sr_child := None,
                 sr_crash_timestamps := stamps\<rparr>
      in if length stamps > unat (sm_max_crash_count m)
         then (r'\<lparr>sr_status := CrashedLoop (show_nat (length stamps) @ '' crashes in '' @
                    show_nat (unat (sm_crash_window_secs m)) @ ''s'')\<rparr>, False)
         else if should_restart (sm_restart m) code then (r', True)
         else (r'\<lparr>sr_status := Stopped\<rparr>, False))"

definition needs_check :: "service_status \<Rightarrow> bool" where
  "needs_check s \<longleftrightarrow> s = Running \<or> s = Starting"

definition monitor_entry :: "world \<Rightarrow> nat \<Rightarrow> service_runtime \<Rightarrow> service_runtime \<times> bool" where
  "monitor_entry w now r =
     (case sr_child r of
        None \<Rightarrow> (r, False)
      | Some child \<Rightarrow>
          (case w_try_wait w now child of
             ChildExited code \<Rightarrow> on_child_exit now code r
           | StillRunning \<Rightarrow> (r, False)
           | WaitError \<Rightarrow> (r, False)))"

subsection \<open>The monitor round\<close>

text \<open>
  The first loop iterates over the map; while it looks at an entry it holds a reference to it,
  and \<open>get_mut\<close> of the same key is a write access. The second loop restarts what the first
  collected; the restart delay that was collected with each name is not used.
\<close>

fun monitor_scan ::
  "locks \<Rightarrow> world \<Rightarrow> string list \<Rightarrow> supervisor \<Rightarrow> (supervisor \<times> (string \<times> u64) list) task" where
  "monitor_scan b w [] sv = Finished (sv, [])"
| "monitor_scan b w (name # names) sv =
     (case map_of (sv_services sv) name of
        None \<Rightarrow> monitor_scan b w names sv
      | Some r \<Rightarrow>
          if \<not> needs_check (sr_status r) then monitor_scan b w names sv
          else if b [name] name then Deadlock
          else
            (let (r', again) = monitor_entry w (sv_now sv) r
             in bind_task (monitor_scan b w names (modify_service name (\<lambda>_. r') sv))
                  (\<lambda>(sv', to_restart).
                    Finished (sv', if again
                      then (name, sm_restart_delay_ms (sr_manifest r)) # to_restart
                      else to_restart))))"

definition restart_all :: "world \<Rightarrow> (string \<times> u64) list \<Rightarrow> supervisor \<Rightarrow> supervisor" where
  "restart_all w to_restart sv = fold (\<lambda>(name, _) sv. snd (start_service w name sv)) to_restart sv"

definition monitor_services ::
  "locks \<Rightarrow> world \<Rightarrow> (string list \<Rightarrow> string list) \<Rightarrow> supervisor \<Rightarrow> supervisor task" where
  "monitor_services b w order sv =
     bind_task (monitor_scan b w (order (keys (sv_services sv))) sv)
       (\<lambda>(sv', to_restart). Finished (restart_all w to_restart sv'))"

subsection \<open>Killing and the health round\<close>

definition kill_service :: "locks \<Rightarrow> string list \<Rightarrow> string \<Rightarrow> supervisor \<Rightarrow> supervisor task" where
  "kill_service b held name sv =
     (let sv1 = (case Option.bind (map_of (sv_services sv) name) sr_pid of
                   None \<Rightarrow> sv
                 | Some pid \<Rightarrow> act [Signal pid SIGKILL] (pass 500 (act [Signal pid SIGTERM] sv)))
      in if b held name then Deadlock
         else case map_of (sv_services sv1) name of
                None \<Rightarrow> Finished sv1
              | Some r \<Rightarrow>
                  Finished (modify_service name (\<lambda>r. r\<lparr>sr_child := None, sr_pid := None\<rparr>)
                    (case sr_child r of None \<Rightarrow> sv1 | Some c \<Rightarrow> act [StartKill c] sv1)))"

text \<open>
  When a failure count reaches three, \<open>failures.remove\<close> is called while the reference
  \<open>count\<close> to the same entry is still alive, and the services' entry is held throughout.
\<close>

fun health_round ::
  "locks \<Rightarrow> world \<Rightarrow> string list \<Rightarrow> (string, u32) hashmap \<times> supervisor \<Rightarrow>
   ((string, u32) hashmap \<times> supervisor) task" where
  "health_round b w [] st = Finished st"
| "health_round b w (name # names) (failures, sv) =
     (case map_of (sv_services sv) name of
        None \<Rightarrow> health_round b w names (failures, sv)
      | Some r \<Rightarrow>
          (case (sr_status r, sm_health_check (sr_manifest r)) of
             (Running, Some hm) \<Rightarrow>
               if hm = [] then health_round b w names (failures, sv)
               else
                 (case check_health w (sv_now sv) hm of
                    (Inr _, d) \<Rightarrow>
                      health_round b w names (AList.delete name failures, pass d sv)
                  | (Inl e, d) \<Rightarrow>
                      (let c = (case map_of failures name of None \<Rightarrow> 1 | Some c \<Rightarrow> c + 1);
                           failures1 = AList.update name c failures
                       in if c \<ge> 3 then
                            (if b [name] name then Deadlock
                             else bind_task (kill_service b [name] name (pass d sv))
                                    (\<lambda>sv1.
                                      (let sv2 = modify_service name
                                             (\<lambda>r. r\<lparr>sr_status := Failed (''health: '' @ e)\<rparr>) sv1;
                                           sv3 = pass (unat (sm_restart_delay_ms (sr_manifest r))) sv2
                                       in health_round b w names
                                            (AList.delete name failures1,
                                             snd (start_service w name sv3)))))
                          else health_round b w names (failures1, pass d sv)))
           | _ \<Rightarrow> health_round b w names (failures, sv)))"

definition health_check_all ::
  "locks \<Rightarrow> world \<Rightarrow> (string list \<Rightarrow> string list) \<Rightarrow> (string, u32) hashmap \<times> supervisor \<Rightarrow>
   ((string, u32) hashmap \<times> supervisor) task" where
  "health_check_all b w order st = health_round b w (order (keys (sv_services (snd st)))) st"

subsection \<open>Shutdown and the main loop\<close>

definition stop_service :: "world \<Rightarrow> string \<Rightarrow> service_runtime \<Rightarrow> supervisor \<Rightarrow> supervisor" where
  "stop_service w name r sv =
     (case sr_child r of
        None \<Rightarrow> sv
      | Some child \<Rightarrow>
          (let to_pid = (\<lambda>sig. case sr_pid r of None \<Rightarrow> [] | Some pid \<Rightarrow> [Signal pid sig]);
               sv1 = pass 2000 (act (to_pid SIGTERM) sv);
               sv2 = (if w_try_wait w (sv_now sv1) child = StillRunning
                      then act (to_pid SIGKILL @ [WaitChild child]) sv1 else sv1)
           in modify_service name (\<lambda>r. r\<lparr>sr_status := Stopped, sr_child := None\<rparr>) sv2))"

fun shutdown_list :: "world \<Rightarrow> string list \<Rightarrow> supervisor \<Rightarrow> supervisor task" where
  "shutdown_list w [] sv = Finished sv"
| "shutdown_list w (name # names) sv =
     (case map_of (sv_services sv) name of
        None \<Rightarrow> Panicked
      | Some r \<Rightarrow> shutdown_list w names (stop_service w name r sv))"

definition shutdown_all :: "world \<Rightarrow> supervisor \<Rightarrow> supervisor task" where
  "shutdown_all w sv = shutdown_list w (rev (sv_startup_order sv)) sv"

text \<open>The watchdog is used only when the variable is \<open>1\<close> and the device opens.\<close>

definition init_watchdog :: "string option \<Rightarrow> bool \<Rightarrow> bool" where
  "init_watchdog uos_watchdog device_opens \<longleftrightarrow>
     (case uos_watchdog of None \<Rightarrow> False | Some v \<Rightarrow> v = ''1'' \<and> device_opens)"

text \<open>What the loop waits for; \<open>Idle\<close> is the time in which nothing is ready.\<close>

datatype sup_event = ShutdownSignal | Tick | HealthTick | WatchdogTick | Idle nat

fun sup_run ::
  "locks \<Rightarrow> world \<Rightarrow> (string list \<Rightarrow> string list) \<Rightarrow> bool \<Rightarrow> sup_event list \<Rightarrow>
   (string, u32) hashmap \<times> supervisor \<Rightarrow> ((string, u32) hashmap \<times> supervisor) task" where
  "sup_run b w order watchdog [] st = Finished st"
| "sup_run b w order watchdog (ev # evs) (failures, sv) =
     (case ev of
        ShutdownSignal \<Rightarrow>
          bind_task (shutdown_all w sv) (\<lambda>sv'. Finished (failures, sv'))
      | Tick \<Rightarrow>
          bind_task (monitor_services b w order sv)
            (\<lambda>sv'. sup_run b w order watchdog evs (failures, sv'))
      | HealthTick \<Rightarrow>
          bind_task (health_check_all b w order (failures, sv)) (sup_run b w order watchdog evs)
      | WatchdogTick \<Rightarrow>
          sup_run b w order watchdog evs
            (failures, if watchdog then act [KickWatchdog] sv else sv)
      | Idle ms \<Rightarrow> sup_run b w order watchdog evs (failures, pass ms sv))"

subsection \<open>The monitor waits for itself\<close>

lemma monitor_scan_blocks:
  assumes "dashmap_locks b"
  shows "n \<in> set names \<Longrightarrow> map_of (sv_services sv) n = Some r \<Longrightarrow> needs_check (sr_status r) \<Longrightarrow>
    monitor_scan b w names sv = Deadlock"
proof (induction names)
  case (Cons m names)
  have block: "b [m] m" using assms by (simp add: dashmap_locks_def)
  show ?case
  proof (cases "map_of (sv_services sv) m")
    case None
    with Cons show ?thesis by auto
  next
    case (Some r')
    then show ?thesis using Cons block by auto
  qed
qed simp

text \<open>
  Property C22. The first monitor round after a boot in which anything is running never ends:
  the round asks for write access to an entry it holds a reference to. From then on nothing is
  monitored, restarted or checked, and the watchdog is not kicked again.
\<close>

theorem monitor_deadlocks:
  assumes "dashmap_locks b" "fair_order order" "status_of sv n \<in> {Some Running, Some Starting}"
  shows "sup_run b w order watchdog (Tick # evs) (failures, sv) = Deadlock"
proof -
  from assms(3) obtain r where r: "map_of (sv_services sv) n = Some r" "needs_check (sr_status r)"
    by (auto simp: status_of_def needs_check_def)
  then have "n \<in> set (order (keys (sv_services sv)))"
    using assms(2) by (auto simp: set_keys)
  from monitor_scan_blocks [OF assms(1) this r] show ?thesis
    by (simp add: monitor_services_def)
qed

theorem monitor_deadlocks_witness:
  "\<exists>sv. monitord_main id_order sample_yaml sample_dir None sample_world = Done sv \<and>
     sup_run (\<lambda>held k. k \<in> set held) sample_world rev True [Tick, WatchdogTick] ([], sv) = Deadlock"
proof -
  obtain sv where sv: "monitord_main id_order sample_yaml sample_dir None sample_world = Done sv"
      "\<forall>m \<in> set sample_manifests. status_of sv (sm_name m) = Some Running"
    using sample_boot by blast
  then have "status_of sv (sm_name (hd sample_manifests)) \<in> {Some Running, Some Starting}"
    by (simp add: sample_manifests_def)
  moreover have "dashmap_locks (\<lambda>held k. k \<in> set held)" by (simp add: dashmap_locks_def)
  ultimately have "sup_run (\<lambda>held k. k \<in> set held) sample_world rev True [Tick, WatchdogTick]
      ([], sv) = Deadlock"
    using monitor_deadlocks fair_order_rev(1) by blast
  with sv(1) show ?thesis by blast
qed

text \<open>
  So does the health round: when a running service fails its check for the third
  time, the count's entry is removed while a reference to it is still held.
\<close>

lemma third_health_failure_deadlocks:
  assumes "dashmap_locks b" "map_of (sv_services sv) n = Some r" "sr_status r = Running"
    and "sm_health_check (sr_manifest r) = Some hm" "hm \<noteq> []"
    and "check_health w (sv_now sv) hm = (Inl e, d)"
    and "map_of failures n = Some 2"
  shows "health_round b w (n # names) (failures, sv) = Deadlock"
proof -
  have "b [n] n" using assms(1) by (simp add: dashmap_locks_def)
  then show ?thesis using assms(2-7) by (simp add: Let_def)
qed

lemma third_health_failure_deadlocks_witness:
  "let r = (service_runtime_new (svc_netmd\<lparr>sm_health_check := Some ''tcp:80''\<rparr>))
             \<lparr>sr_status := Running\<rparr>;
       sv = \<lparr>sv_services = [(''netmd'', r)], sv_graph = default_graph, sv_startup_order = [''netmd''],
             sv_bus_socket = None, sv_now = 0, sv_trace = []\<rparr>
   in health_round (\<lambda>held k. k \<in> set held) (sample_world\<lparr>w_tcp := \<lambda>_ _. (Some ''refused'', 1)\<rparr>)
        [''netmd''] ([(''netmd'', 2)], sv) = Deadlock"
  unfolding Let_def
  by (rule third_health_failure_deadlocks [where hm = "''tcp:80''" and d = 1 and
        r = "(service_runtime_new (svc_netmd\<lparr>sm_health_check := Some ''tcp:80''\<rparr>))
          \<lparr>sr_status := Running\<rparr>"])
    (simp_all add: dashmap_locks_def service_runtime_new_def svc_defs check_health_def
      starts_with_def timeout_def sample_world_def)

subsection \<open>Failed services\<close>

lemma start_service_other: "m \<noteq> n \<Longrightarrow> status_of (snd (start_service w n sv)) m = status_of sv m"
  using start_service_ok(2) [of w n sv] start_service_err(2) [of w n sv]
  by (cases "start_service w n sv") (metis old.sum.exhaust snd_conv)

lemma restart_all_other:
  "m \<notin> fst ` set rs \<Longrightarrow> status_of (restart_all w rs sv) m = status_of sv m"
proof (induction rs arbitrary: sv)
  case (Cons p rs)
  then show ?case by (cases p) (simp add: restart_all_def start_service_other)
qed (simp add: restart_all_def)

lemma monitor_scan_other:
  "monitor_scan b w names sv = Finished (sv', rs) \<Longrightarrow>
   status_of sv n = Some s \<Longrightarrow> \<not> needs_check s \<Longrightarrow>
   status_of sv' n = Some s \<and> n \<notin> fst ` set rs"
proof (induction names arbitrary: sv rs)
  case (Cons m names)
  show ?case
  proof (cases "map_of (sv_services sv) m")
    case None
    with Cons show ?thesis by simp
  next
    case (Some r)
    show ?thesis
    proof (cases "needs_check (sr_status r)")
      case False
      with Some Cons show ?thesis by simp
    next
      case True
      then have mn: "m \<noteq> n" using Cons.prems(2,3) Some by (auto simp: status_of_def)
      obtain r' again where e: "monitor_entry w (sv_now sv) r = (r', again)" by fastforce
      from Cons.prems(1) Some True e obtain rs' where
          sc: "monitor_scan b w names (modify_service m (\<lambda>_. r') sv) = Finished (sv', rs')"
          and rs: "fst ` set rs \<subseteq> insert m (fst ` set rs')"
        by (auto simp: bind_task_Finished split: if_splits)
      have "status_of (modify_service m (\<lambda>_. r') sv) n = Some s"
        using mn Cons.prems(2) by (simp add: status_modify)
      from Cons.IH [OF sc this Cons.prems(3)] rs mn show ?thesis by auto
    qed
  qed
qed simp

lemma monitor_services_other:
  "monitor_services b w order sv = Finished sv' \<Longrightarrow> status_of sv n = Some s \<Longrightarrow>
   \<not> needs_check s \<Longrightarrow> status_of sv' n = Some s"
  by (auto simp: monitor_services_def bind_task_Finished restart_all_other
      dest!: monitor_scan_other)

lemma kill_service_status:
  "kill_service b held m sv = Finished sv' \<Longrightarrow> status_of sv' n = status_of sv n"
  by (auto simp: kill_service_def Let_def status_modify comp_def split: if_splits option.splits)
    (auto simp: status_of_def split: option.splits)

lemma health_round_other:
  "health_round b w names st = Finished st' \<Longrightarrow> status_of (snd st) n = Some s \<Longrightarrow>
   \<not> needs_check s \<Longrightarrow> status_of (snd st') n = Some s"
proof (induction names arbitrary: st)
  case (Cons m names)
  obtain failures sv where st: "st = (failures, sv)" by fastforce
  have next_round: "status_of (snd st') n = Some s"
    if "health_round b w names (f, sv1) = Finished st'" "status_of sv1 n = status_of sv n" for f sv1
    using Cons.IH [of "(f, sv1)"] that Cons.prems(2,3) by (simp add: st)
  show ?case
  proof (cases "\<exists>r hm e d. map_of (sv_services sv) m = Some r \<and> sr_status r = Running \<and>
      sm_health_check (sr_manifest r) = Some hm \<and> hm \<noteq> [] \<and>
      check_health w (sv_now sv) hm = (Inl e, d)")
    case False
    with Cons.prems(1) show ?thesis
      by (auto simp: st intro!: next_round
          split: option.splits service_status.splits if_splits sum.splits prod.splits)
  next
    case True
    then obtain r hm e d where r: "map_of (sv_services sv) m = Some r" "sr_status r = Running"
        "sm_health_check (sr_manifest r) = Some hm" "hm \<noteq> []"
        "check_health w (sv_now sv) hm = (Inl e, d)"
      by blast
    define c :: u32 where "c = (case map_of failures m of None \<Rightarrow> 1 | Some c \<Rightarrow> c + 1)"
    have mn: "m \<noteq> n"
      using r(1,2) Cons.prems(2,3) by (auto simp: st status_of_def needs_check_def)
    show ?thesis
    proof (cases "3 \<le> c")
      case False
      with Cons.prems(1) r show ?thesis
        by (auto simp: st Let_def c_def [symmetric] intro!: next_round)
    next
      case True
      with Cons.prems(1) r obtain sv1 where
          k: "kill_service b [m] m (pass d sv) = Finished sv1"
          and rest: "health_round b w names (AList.delete m (AList.update m c failures),
            snd (start_service w m (pass (unat (sm_restart_delay_ms (sr_manifest r)))
              (modify_service m (\<lambda>r. r\<lparr>sr_status := Failed (''health: '' @ e)\<rparr>) sv1)))) =
            Finished st'"
        by (auto simp: st Let_def c_def [symmetric] bind_task_Finished split: if_splits)
      from rest show ?thesis
        by (rule next_round)
          (use mn kill_service_status [OF k, of n] in
            \<open>simp add: start_service_other [of n m] status_modify\<close>)
    qed
  qed
qed simp

text \<open>
  Property C30. A service that has failed, has been declared a crash loop, or was never started
  is not started again by the main loop, however long it runs: a failed restart attempt is
  final, although \<open>Failed\<close> is documented as waiting for a restart.
\<close>

theorem failed_service_stays_down:
  assumes "sup_run b w order watchdog evs (failures, sv) = Finished (failures', sv')"
    and "status_of sv n = Some s" "\<not> needs_check s" "ShutdownSignal \<notin> set evs"
  shows "status_of sv' n = Some s"
  using assms
proof (induction evs arbitrary: failures sv)
  case (Cons ev evs)
  show ?case
  proof (cases ev)
    case Tick
    with Cons.prems obtain sv1 where sv1: "monitor_services b w order sv = Finished sv1"
        "sup_run b w order watchdog evs (failures, sv1) = Finished (failures', sv')"
      by (auto simp: bind_task_Finished)
    from Cons.IH [OF sv1(2)] monitor_services_other [OF sv1(1)] Cons.prems(2-4) show ?thesis
      by simp
  next
    case HealthTick
    with Cons.prems obtain f sv1 where sv1: "health_check_all b w order (failures, sv) = Finished (f, sv1)"
        "sup_run b w order watchdog evs (f, sv1) = Finished (failures', sv')"
      by (auto simp: bind_task_Finished)
    from sv1(1) Cons.prems(2,3) have "status_of sv1 n = Some s"
      unfolding health_check_all_def by (auto dest!: health_round_other)
    from Cons.IH [OF sv1(2) this] Cons.prems(3,4) show ?thesis by simp
  next
    case WatchdogTick
    with Cons.prems have "sup_run b w order watchdog evs
        (failures, if watchdog then act [KickWatchdog] sv else sv) = Finished (failures', sv')"
      by simp
    from Cons.IH [OF this] Cons.prems(2-4) show ?thesis by simp
  next
    case (Idle ms)
    with Cons.prems have "sup_run b w order watchdog evs (failures, pass ms sv) = Finished (failures', sv')"
      by simp
    from Cons.IH [OF this] Cons.prems(2-4) show ?thesis by simp
  qed (use Cons.prems in simp)
qed simp

theorem failed_service_stays_down_witness:
  "let r = (service_runtime_new svc_netmd)\<lparr>sr_status := Failed ''exit code: Some(1)''\<rparr>;
       sv = \<lparr>sv_services = [(''netmd'', r)], sv_graph = default_graph, sv_startup_order = [''netmd''],
             sv_bus_socket = None, sv_now = 0, sv_trace = []\<rparr>
   in \<exists>st. sup_run no_locks sample_world id False [Tick, HealthTick, Tick] ([], sv) = Finished st \<and>
        status_of (snd st) ''netmd'' = Some (Failed ''exit code: Some(1)'')"
proof -
  let ?r = "(service_runtime_new svc_netmd)\<lparr>sr_status := Failed ''exit code: Some(1)''\<rparr>"
  let ?sv = "\<lparr>sv_services = [(''netmd'', ?r)], sv_graph = default_graph,
    sv_startup_order = [''netmd''], sv_bus_socket = None, sv_now = 0, sv_trace = []\<rparr>"
  have run: "sup_run no_locks sample_world id False [Tick, HealthTick, Tick] ([], ?sv) = Finished ([], ?sv)"
    by (simp add: monitor_services_def health_check_all_def keys_def needs_check_def
        restart_all_def)
  have s: "status_of ?sv ''netmd'' = Some (Failed ''exit code: Some(1)'')"
    by (simp add: status_of_def)
  show ?thesis
    using failed_service_stays_down [OF run s] run by (simp add: needs_check_def Let_def)
qed

subsection \<open>The crash-loop detector\<close>

text \<open>
  What the detector knows of a service, and the processes that were started for it, counted in
  the supervisor's history whatever code started them.
\<close>

definition crash_data :: "supervisor \<Rightarrow> string \<Rightarrow> (service_manifest \<times> nat list) option" where
  "crash_data sv n = map_option (\<lambda>r. (sr_manifest r, sr_crash_timestamps r)) (map_of (sv_services sv) n)"

fun is_start :: "string \<Rightarrow> sup_action \<Rightarrow> bool" where
  "is_start n (Spawn m cmd) = (m = n)"
| "is_start n _ = False"

definition starts :: "string \<Rightarrow> supervisor \<Rightarrow> nat" where
  "starts n sv = length (filter (is_start n) (sv_trace sv))"

lemma crash_data_simps [simp]:
  "crash_data (pass t sv) n = crash_data sv n" "crash_data (act a sv) n = crash_data sv n"
  "starts n (pass t sv) = starts n sv" "starts n (modify_service m f sv) = starts n sv"
  "starts n (act a sv) = starts n sv + length (filter (is_start n) a)"
  "sv_now (pass t sv) = sv_now sv + t"
  by (simp_all add: crash_data_def starts_def act_def pass_def modify_service_def split: option.splits)

lemma crash_data_modify:
  assumes "\<And>r. sr_manifest (f r) = sr_manifest r" "\<And>r. sr_crash_timestamps (f r) = sr_crash_timestamps r"
  shows "crash_data (modify_service m f sv) n = crash_data sv n"
  using assms by (simp add: crash_data_def lookup_modify option.map_comp comp_def)

lemma wait_dependencies_pass: "\<exists>t. snd (wait_dependencies ds sv) = pass t sv"
proof (induction ds arbitrary: sv)
  case (Cons d ds)
  have "pass u (pass t sv) = pass (t + u) sv" for t u
    by (simp add: pass_def)
  with Cons show ?case by (auto split: prod.splits sum.splits) metis+
qed (simp add: exI [of _ 0])

text \<open>An operation that leaves the detector alone and starts at most so many processes.\<close>

definition calm_for :: "string \<Rightarrow> nat \<Rightarrow> supervisor \<Rightarrow> supervisor \<Rightarrow> bool" where
  "calm_for n k sv sv' \<longleftrightarrow> crash_data sv' n = crash_data sv n \<and> sv_now sv \<le> sv_now sv' \<and>
     starts n sv \<le> starts n sv' \<and> starts n sv' \<le> starts n sv + k"

lemma calm_refl [simp]: "calm_for n k sv sv"
  by (simp add: calm_for_def)

lemma calm_trans: "calm_for n j sv sv' \<Longrightarrow> calm_for n k sv' sv'' \<Longrightarrow> calm_for n (j + k) sv sv''"
  by (simp add: calm_for_def)

lemma calm_steps:
  "calm_for n k sv sv' \<Longrightarrow> calm_for n k sv (pass t sv')"
  "calm_for n k sv sv' \<Longrightarrow> filter (is_start n) a = [] \<Longrightarrow> calm_for n k sv (act a sv')"
  "calm_for n k sv sv' \<Longrightarrow> \<forall>r. sr_manifest (f r) = sr_manifest r \<and> sr_crash_timestamps (f r) = sr_crash_timestamps r \<Longrightarrow>
     calm_for n k sv (modify_service m f sv')"
  by (simp_all add: calm_for_def crash_data_modify)

lemma start_service_calm: "calm_for n (if m = n then 1 else 0) sv (snd (start_service w m sv))"
proof (cases "map_of (sv_services sv) m")
  case None
  then show ?thesis by (simp add: start_service_def)
next
  case (Some svc)
  obtain r sv1 where wd: "wait_dependencies (sm_dependencies (sr_manifest svc)) sv = (r, sv1)" by force
  then obtain t where "sv1 = pass t sv" using wait_dependencies_pass by (metis snd_conv)
  then have "calm_for n 0 sv sv1" by (simp add: calm_for_def)
  moreover have "calm_for n (if m = n then 1 else 0) sv1 (act [Spawn m cmd] sv1)" for cmd
    by (simp add: calm_for_def)
  ultimately have "calm_for n (if m = n then 1 else 0) sv sv1"
    "calm_for n (if m = n then 1 else 0) sv (act [Spawn m cmd] sv1)" for cmd
    using calm_trans [of n 0 sv sv1 "if m = n then 1 else 0"] by (simp_all add: calm_for_def)
  then show ?thesis
    using Some wd by (auto simp: start_service_def Let_def intro!: calm_steps(1,3) split: sum.splits prod.splits)
qed

lemma restart_all_calm: "calm_for n (length (filter (\<lambda>p. fst p = n) rs)) sv (restart_all w rs sv)"
proof (induction rs arbitrary: sv)
  case (Cons p rs)
  obtain m d where p: "p = (m, d)" by fastforce
  from calm_trans [OF start_service_calm [of n m sv w] Cons.IH]
  show ?case by (simp add: p restart_all_def) (simp add: calm_for_def split: if_splits)
qed (simp add: restart_all_def)

text \<open>The monitor round: a service that exits gets its crash times updated and is due at most once.\<close>

lemma monitor_scan_settled:
  assumes "monitor_scan b w names sv = Finished (sv', rs)" "map_of (sv_services sv) n = Some r"
    and "\<not> needs_check (sr_status r)"
  shows "map_of (sv_services sv') n = Some r \<and> filter (\<lambda>p. fst p = n) rs = []"
  using assms
proof (induction names arbitrary: sv rs)
  case (Cons m names)
  show ?case
  proof (cases "\<exists>q. map_of (sv_services sv) m = Some q \<and> needs_check (sr_status q)")
    case False
    with Cons show ?thesis by (auto split: option.splits if_splits)
  next
    case True
    then obtain q where q: "map_of (sv_services sv) m = Some q" "needs_check (sr_status q)" by blast
    with Cons.prems(2,3) have mn: "m \<noteq> n" by auto
    obtain q' again where e: "monitor_entry w (sv_now sv) q = (q', again)" by fastforce
    from Cons.prems(1) q e obtain rs' where
        sc: "monitor_scan b w names (modify_service m (\<lambda>_. q') sv) = Finished (sv', rs')"
        and rs: "rs = (if again then (m, sm_restart_delay_ms (sr_manifest q)) # rs' else rs')"
      by (auto simp: bind_task_Finished split: if_splits)
    from Cons.IH [OF sc _ Cons.prems(3)] Cons.prems(2) mn rs show ?thesis
      by (simp add: lookup_modify)
  qed
qed simp

lemma monitor_scan_frame:
  "monitor_scan b w names sv = Finished (sv', rs) \<Longrightarrow> sv_now sv' = sv_now sv \<and> sv_trace sv' = sv_trace sv"
proof (induction names arbitrary: sv rs)
  case (Cons m names)
  have tr: "sv_trace (modify_service k f u) = sv_trace u" for k f u
    by (simp add: modify_service_def split: option.splits)
  from Cons.prems show ?case
    by (auto simp: bind_task_Finished tr split: option.splits if_splits prod.splits dest!: Cons.IH)
qed simp

lemma on_child_exit_settles: "\<not> needs_check (sr_status (fst (on_child_exit now code r)))"
  by (simp add: on_child_exit_def needs_check_def Let_def)

lemma monitor_scan_exit:
  assumes "monitor_scan b w names sv = Finished (sv', rs)" "map_of (sv_services sv) n = Some r"
  shows "map_of (sv_services sv') n = Some r \<and> filter (\<lambda>p. fst p = n) rs = [] \<or>
    (\<exists>code. map_of (sv_services sv') n = Some (fst (on_child_exit (sv_now sv) code r)) \<and>
       length (filter (\<lambda>p. fst p = n) rs) = (if snd (on_child_exit (sv_now sv) code r) then 1 else 0))"
  using assms
proof (induction names arbitrary: sv rs)
  case (Cons m names)
  show ?case
  proof (cases "\<exists>q. map_of (sv_services sv) m = Some q \<and> needs_check (sr_status q)")
    case False
    with Cons.prems(1) have "monitor_scan b w names sv = Finished (sv', rs)"
      by (auto split: option.splits if_splits)
    from Cons.IH [OF this Cons.prems(2)] show ?thesis .
  next
    case True
    then obtain q where q: "map_of (sv_services sv) m = Some q" "needs_check (sr_status q)" by blast
    obtain q' again where e: "monitor_entry w (sv_now sv) q = (q', again)" by fastforce
    let ?sv1 = "modify_service m (\<lambda>_. q') sv"
    from Cons.prems(1) q e obtain rs' where
        sc: "monitor_scan b w names ?sv1 = Finished (sv', rs')"
        and rs: "rs = (if again then (m, sm_restart_delay_ms (sr_manifest q)) # rs' else rs')"
      by (auto simp: bind_task_Finished split: if_splits)
    show ?thesis
    proof (cases "m = n")
      case False
      then have "map_of (sv_services ?sv1) n = Some r"
        using Cons.prems(2) by (simp add: lookup_modify)
      from Cons.IH [OF sc this] False rs show ?thesis by (auto split: if_splits)
    next
      case True
      then have qr: "q = r" and l: "map_of (sv_services ?sv1) n = Some q'"
        using Cons.prems(2) q(1) by (simp_all add: lookup_modify)
      show ?thesis
      proof (cases "\<exists>code. on_child_exit (sv_now sv) code r = (q', again)")
        case False
        with e qr have same: "q' = r" "\<not> again"
          by (auto simp: monitor_entry_def split: option.splits wait_status.splits)
        then have "map_of (sv_services ?sv1) n = Some r" using l by simp
        from Cons.IH [OF sc this] rs same(2) show ?thesis by auto
      next
        case True
        then obtain code where x: "on_child_exit (sv_now sv) code r = (q', again)" by blast
        then have "\<not> needs_check (sr_status q')"
          using on_child_exit_settles [of "sv_now sv" code r] by simp
        from monitor_scan_settled [OF sc l this] x rs \<open>m = n\<close> show ?thesis
          by (intro disjI2 exI [of _ code]) auto
      qed
    qed
  qed
qed simp

text \<open>A service whose check never fails is left alone by the health round.\<close>

definition check_passes :: "world \<Rightarrow> service_manifest \<Rightarrow> bool" where
  "check_passes w m \<longleftrightarrow>
     (case sm_health_check m of
        None \<Rightarrow> True
      | Some hm \<Rightarrow> hm = [] \<or> (\<forall>now. fst (check_health w now hm) = Inr ()))"

lemma kill_service_calm: "kill_service b held m sv = Finished sv' \<Longrightarrow> calm_for n 0 sv sv'"
  by (auto simp: kill_service_def Let_def intro!: calm_steps split: if_splits option.splits)

lemma health_round_calm:
  assumes "health_round b w names st = Finished st'" "crash_data (snd st) n = Some (m, stamps)"
    and "check_passes w m"
  shows "calm_for n 0 (snd st) (snd st')"
  using assms
proof (induction names arbitrary: st)
  case (Cons k names)
  obtain failures sv where st: "st = (failures, sv)" by fastforce
  have next_round: "calm_for n 0 sv (snd st')"
    if "health_round b w names (f, sv1) = Finished st'" "calm_for n 0 sv sv1" for f sv1
    using Cons.IH [of "(f, sv1)"] that Cons.prems(2,3) calm_trans [of n 0 sv sv1 0 "snd st'"]
    by (simp add: st calm_for_def)
  show ?case
  proof (cases "\<exists>r hm e d. map_of (sv_services sv) k = Some r \<and> sr_status r = Running \<and>
      sm_health_check (sr_manifest r) = Some hm \<and> hm \<noteq> [] \<and>
      check_health w (sv_now sv) hm = (Inl e, d)")
    case False
    with Cons.prems(1) show ?thesis
      by (auto simp: st intro!: next_round calm_steps
          split: option.splits service_status.splits if_splits sum.splits prod.splits)
  next
    case True
    then obtain r hm e d where r: "map_of (sv_services sv) k = Some r" "sr_status r = Running"
        "sm_health_check (sr_manifest r) = Some hm" "hm \<noteq> []"
        "check_health w (sv_now sv) hm = (Inl e, d)"
      by blast
    have kn: "k \<noteq> n"
    proof
      assume "k = n"
      with r(1) Cons.prems(2) have "m = sr_manifest r" by (simp add: st crash_data_def)
      with r(3,4) Cons.prems(3) have "fst (check_health w (sv_now sv) hm) = Inr ()"
        by (simp add: check_passes_def)
      with r(5) show False by simp
    qed
    define c :: u32 where "c = (case map_of failures k of None \<Rightarrow> 1 | Some c \<Rightarrow> c + 1)"
    show ?thesis
    proof (cases "3 \<le> c")
      case False
      with Cons.prems(1) r show ?thesis
        by (auto simp: st Let_def c_def [symmetric] intro!: next_round calm_steps)
    next
      case True
      with Cons.prems(1) r obtain sv1 where
          kill: "kill_service b [k] k (pass d sv) = Finished sv1"
          and rest: "health_round b w names (AList.delete k (AList.update k c failures),
            snd (start_service w k (pass (unat (sm_restart_delay_ms (sr_manifest r)))
              (modify_service k (\<lambda>r. r\<lparr>sr_status := Failed (''health: '' @ e)\<rparr>) sv1)))) =
            Finished st'"
        by (auto simp: st Let_def c_def [symmetric] bind_task_Finished split: if_splits)
      have "calm_for n 0 sv sv1"
        using kill_service_calm [OF kill, of n] by (simp add: calm_for_def)
      then have "calm_for n 0 sv (pass (unat (sm_restart_delay_ms (sr_manifest r)))
          (modify_service k (\<lambda>r. r\<lparr>sr_status := Failed (''health: '' @ e)\<rparr>) sv1))" (is "calm_for n 0 sv ?sv2")
        by (intro calm_steps) simp_all
      from calm_trans [OF this start_service_calm [of n k ?sv2 w]] kn next_round [OF rest] show ?thesis
        by (simp add: st)
    qed
  qed
qed simp

text \<open>A shutdown starts nothing.\<close>

lemma shutdown_list_calm: "shutdown_list w names sv = Finished sv' \<Longrightarrow> calm_for n 0 sv sv'"
proof (induction names arbitrary: sv)
  case (Cons m names)
  then obtain r where r: "map_of (sv_services sv) m = Some r"
      "shutdown_list w names (stop_service w m r sv) = Finished sv'"
    by (auto split: option.splits)
  have "calm_for n 0 sv (stop_service w m r sv)"
    by (auto simp: stop_service_def Let_def intro!: calm_steps split: option.splits)
  from calm_trans [OF this Cons.IH [OF r(2)]] show ?case by simp
qed simp

text \<open>One event of the main loop, seen by the detector of one service.\<close>

lemma sup_event_cases:
  assumes run: "sup_run b w order wd [ev] st = Finished st'"
    and crash: "crash_data (snd st) n = Some (m, stamps)" and hc: "check_passes w m"
  obtains (quiet) "calm_for n 0 (snd st) (snd st')"
  | (exit) stamps' k where "crash_data (snd st') n = Some (m, stamps')"
      "stamps' = filter (\<lambda>t. sv_now (snd st) - t < crash_window m) (stamps @ [sv_now (snd st)])"
      "sv_now (snd st) \<le> sv_now (snd st')" "starts n (snd st) \<le> starts n (snd st')"
      "starts n (snd st') \<le> starts n (snd st) + k"
      "k = 0 \<or> k = 1 \<and> length stamps' \<le> unat (sm_max_crash_count m)"
proof (cases ev)
  case Tick
  obtain f sv where st: "st = (f, sv)" by fastforce
  from run Tick obtain sv1 rs where
      scan: "monitor_scan b w (order (keys (sv_services sv))) sv = Finished (sv1, rs)"
      and st': "snd st' = restart_all w rs sv1"
    by (auto simp: st monitor_services_def bind_task_Finished)
  obtain r where r: "map_of (sv_services sv) n = Some r" "sr_manifest r = m" "sr_crash_timestamps r = stamps"
    using crash by (auto simp: st crash_data_def)
  have fr: "sv_now sv1 = sv_now sv" "starts n sv1 = starts n sv"
    using monitor_scan_frame [OF scan] by (simp_all add: starts_def)
  note calm = restart_all_calm [of n rs sv1 w]
  from monitor_scan_exit [OF scan r(1)] show ?thesis
  proof (elim disjE exE conjE)
    assume a: "map_of (sv_services sv1) n = Some r" "filter (\<lambda>p. fst p = n) rs = []"
    with r have "crash_data sv1 n = crash_data sv n" by (simp add: crash_data_def)
    with calm a(2) fr show ?thesis by (intro quiet) (simp add: st st' calm_for_def)
  next
    fix code
    let ?x = "on_child_exit (sv_now sv) code r"
    assume a: "map_of (sv_services sv1) n = Some (fst ?x)"
      "length (filter (\<lambda>p. fst p = n) rs) = (if snd ?x then 1 else 0)"
    have x: "sr_manifest (fst ?x) = m" "sr_crash_timestamps (fst ?x) =
        filter (\<lambda>t. sv_now sv - t < crash_window m) (stamps @ [sv_now sv])"
      "snd ?x \<Longrightarrow> length (sr_crash_timestamps (fst ?x)) \<le> unat (sm_max_crash_count m)"
      using r by (auto simp: on_child_exit_def Let_def split: if_splits)
    then have "crash_data sv1 n = Some (m, sr_crash_timestamps (fst ?x))"
      using a(1) by (simp add: crash_data_def)
    with calm a(2) fr x show ?thesis
      by (intro exit [of "sr_crash_timestamps (fst ?x)" "if snd ?x then 1 else 0"])
        (simp_all add: st st' calm_for_def)
  qed
next
  case HealthTick
  obtain f sv where st: "st = (f, sv)" by fastforce
  from run HealthTick have "health_round b w (order (keys (sv_services sv))) st = Finished st'"
    by (auto simp: st health_check_all_def bind_task_Finished)
  from quiet [OF health_round_calm [OF this crash hc]] show ?thesis .
next
  case ShutdownSignal
  obtain f sv where st: "st = (f, sv)" by fastforce
  from run ShutdownSignal have "shutdown_list w (rev (sv_startup_order sv)) sv = Finished (snd st')"
    by (auto simp: st shutdown_all_def bind_task_Finished)
  from shutdown_list_calm [OF this, of n] show ?thesis by (intro quiet) (simp add: st)
next
  case WatchdogTick
  obtain f sv where "st = (f, sv)" by fastforce
  with run WatchdogTick show ?thesis by (intro quiet) (auto intro!: calm_steps)
next
  case (Idle ms)
  obtain f sv where "st = (f, sv)" by fastforce
  with run Idle show ?thesis by (intro quiet) (auto intro!: calm_steps)
qed

text \<open>
  The starts of a service while the main loop runs: what the history shows more after an event
  than before it, dated at the event.
\<close>

fun start_log ::
  "string \<Rightarrow> locks \<Rightarrow> world \<Rightarrow> (string list \<Rightarrow> string list) \<Rightarrow> bool \<Rightarrow> sup_event list \<Rightarrow>
   (string, u32) hashmap \<times> supervisor \<Rightarrow> nat list" where
  "start_log n b w order wd [] st = []"
| "start_log n b w order wd (ev # evs) st =
     (case sup_run b w order wd [ev] st of
        Finished st' \<Rightarrow>
          replicate (starts n (snd st') - starts n (snd st)) (sv_now (snd st)) @
          (if ev = ShutdownSignal then [] else start_log n b w order wd evs st')
      | _ \<Rightarrow> [])"

lemma filter_window_later:
  "u \<le> (t :: nat) \<Longrightarrow> filter (\<lambda>x. t - x < W) (filter (\<lambda>x. u - x < W) xs) = filter (\<lambda>x. t - x < W) xs"
  by (auto simp: filter_filter intro!: filter_cong)

lemma start_log_window:
  assumes "crash_data (snd st) n = Some (m, stamps)" "check_passes w m"
  shows "(\<forall>x \<in> set (start_log n b w order wd evs st). sv_now (snd st) \<le> x) \<and>
    sorted (start_log n b w order wd evs st) \<and>
    (\<forall>pre t post. start_log n b w order wd evs st = pre @ t # post \<longrightarrow>
       length (filter (\<lambda>x. t - x < crash_window m) (stamps @ pre @ [t])) \<le> unat (sm_max_crash_count m))"
  using assms(1)
proof (induction evs arbitrary: st stamps)
  case (Cons ev evs)
  let ?W = "crash_window m" and ?log = "start_log n b w order wd (ev # evs) st"
  show ?case
  proof (cases "sup_run b w order wd [ev] st")
    case (Finished st')
    let ?rest = "if ev = ShutdownSignal then [] else start_log n b w order wd evs st'"
    let ?u = "sv_now (snd st)"
    from Finished Cons.prems assms(2) show ?thesis
    proof (cases rule: sup_event_cases)
      case quiet
      then have log: "?log = ?rest" and now: "?u \<le> sv_now (snd st')"
        and cd: "crash_data (snd st') n = Some (m, stamps)"
        using Finished Cons.prems by (simp_all add: calm_for_def)
      from Cons.IH [OF cd] now show ?thesis
        unfolding log by (cases "ev = ShutdownSignal") (auto intro: order_trans)
    next
      case (exit stamps' k)
      note IH = Cons.IH [OF exit(1)]
      have later: "\<forall>x \<in> set ?rest. ?u \<le> x"
        using IH exit(3) by (cases "ev = ShutdownSignal") (auto intro: order_trans)
      have keep: "length (filter (\<lambda>x. t - x < ?W) (stamps @ [?u] @ pre @ [t])) \<le> unat (sm_max_crash_count m)"
        if "?rest = pre @ t # post" for pre t post
      proof -
        have "?u \<le> t" using later that by simp
        from filter_window_later [OF this] have
          "filter (\<lambda>x. t - x < ?W) stamps' = filter (\<lambda>x. t - x < ?W) (stamps @ [?u])"
          unfolding exit(2) by simp
        moreover have "length (filter (\<lambda>x. t - x < ?W) (stamps' @ pre @ [t])) \<le> unat (sm_max_crash_count m)"
          using IH [THEN conjunct2, THEN conjunct2, rule_format, of pre t post] that
          by (cases "ev = ShutdownSignal") simp_all
        ultimately show ?thesis by (simp split: if_splits)
      qed
      consider (none) "?log = ?rest"
        | (one) "?log = ?u # ?rest" "length stamps' \<le> unat (sm_max_crash_count m)"
      proof (cases "starts n (snd st') = starts n (snd st)")
        case True
        with Finished show ?thesis by (intro none) simp
      next
        case False
        then have "starts n (snd st') - starts n (snd st) = 1" "k = 1" using exit(4-6) by auto
        with Finished exit(6) show ?thesis by (intro one) simp_all
      qed
      then show ?thesis
      proof cases
        case none
        have "length (filter (\<lambda>x. t - x < ?W) (stamps @ pre @ [t])) \<le> unat (sm_max_crash_count m)"
          if "?rest = pre @ t # post" for pre t post
          using keep [OF that] by (auto split: if_splits)
        with later IH show ?thesis unfolding none by simp
      next
        case one
        have "length (filter (\<lambda>x. t - x < ?W) (stamps @ pre @ [t])) \<le> unat (sm_max_crash_count m)"
          if "?u # ?rest = pre @ t # post" for pre t post
        proof (cases pre)
          case Nil
          with that one(2) show ?thesis unfolding exit(2) by simp
        next
          case (Cons v pre')
          with that have "?rest = pre' @ t # post" "v = ?u" by simp_all
          from keep [OF this(1)] this(2) Cons show ?thesis by simp
        qed
        with later IH show ?thesis unfolding one(1) by simp
      qed
    qed
  qed simp_all
qed simp

lemma window_bound:
  fixes L :: "nat list"
  assumes "sorted L"
    and step: "\<And>pre t post. L = pre @ t # post \<Longrightarrow> length (filter (\<lambda>x. t - x < W) (pre @ [t])) \<le> k"
  shows "length (filter (\<lambda>t. from \<le> t \<and> t < from + W) L) \<le> k"
proof (cases "filter (\<lambda>t. from \<le> t \<and> t < from + W) L = []")
  case False
  let ?P = "\<lambda>t. from \<le> t \<and> t < from + W"
  define t where "t = last (filter ?P L)"
  have t: "t \<in> set L" "?P t"
    using last_in_set [OF False] by (auto simp: t_def)
  then obtain pre post where L: "L = pre @ t # post" "t \<notin> set post"
    by (meson split_list_last)
  have post: "filter ?P post = []"
  proof (rule ccontr)
    assume ne: "filter ?P post \<noteq> []"
    then have "last (filter ?P L) = last (filter ?P post)" by (simp add: L(1))
    with last_in_set [OF ne] L(2) show False by (auto simp: t_def)
  qed
  have "\<forall>x \<in> set pre. x \<le> t" using assms(1) by (auto simp: L(1) sorted_append)
  then have "filter ?P pre = filter ?P (filter (\<lambda>x. t - x < W) pre)"
    using t(2) by (auto simp: filter_filter intro!: filter_cong)
  then have "length (filter ?P pre) \<le> length (filter (\<lambda>x. t - x < W) pre)"
    by (metis length_filter_le)
  moreover have "0 < W" using t(2) by linarith
  ultimately show ?thesis using post t(2) step [OF L(1)] by (simp add: L(1))
qed simp

text \<open>
  Property C15. Crash-loop protection works where the main loop gets that far: while it runs,
  with any events in any order, any locking that does not block it and any world, in every span
  of the configured window at most \<open>max_crash_count\<close> processes are started for a service whose
  health check never fails (or that has none), counted in the supervisor's own history and dated
  at the event in which the loop starts them. A service whose check fails is started again
  without being counted; and under the locking that DashMap documents the loop blocks before it
  restarts anything.
\<close>

theorem restarts_bounded_in_window:
  assumes "map_of (sv_services sv) n = Some r" "sr_crash_timestamps r = []"
    and "check_passes w (sr_manifest r)"
  shows "length (filter (\<lambda>t. from \<le> t \<and> t < from + crash_window (sr_manifest r))
      (start_log n b w order watchdog evs (failures, sv))) \<le> unat (sm_max_crash_count (sr_manifest r))"
proof -
  have "crash_data (snd (failures, sv)) n = Some (sr_manifest r, [])"
    using assms(1,2) by (simp add: crash_data_def)
  note log = start_log_window [OF this assms(3), of b order watchdog evs]
  show ?thesis by (rule window_bound) (use log in auto)
qed

lemma kill_service_free: "\<exists>sv'. kill_service no_locks held m sv = Finished sv'"
  by (simp add: kill_service_def no_locks_def Let_def split: option.split)

text \<open>
  The restart after three failed health checks does not touch the crash times: the loop
  protection never sees it, however often it happens.
\<close>

lemma health_restarts_uncounted:
  assumes "map_of (sv_services sv) n = Some r" "sr_status r = Running"
    and "sm_health_check (sr_manifest r) = Some hm" "hm \<noteq> []"
    and "check_health w (sv_now sv) hm = (Inl e, d)" "map_of failures n = Some 2"
  shows "\<exists>f sv2. health_round no_locks w [n] (failures, sv) = Finished (f, snd (start_service w n sv2)) \<and>
    crash_data (snd (start_service w n sv2)) n = crash_data sv n"
proof -
  obtain sv1 where k: "kill_service no_locks [n] n (pass d sv) = Finished sv1"
    using kill_service_free by blast
  let ?sv2 = "pass (unat (sm_restart_delay_ms (sr_manifest r)))
    (modify_service n (\<lambda>r. r\<lparr>sr_status := Failed (''health: '' @ e)\<rparr>) sv1)"
  have "health_round no_locks w [n] (failures, sv) =
      Finished (AList.delete n (AList.update n 3 failures), snd (start_service w n ?sv2))"
    using assms k by (simp add: Let_def no_locks_def)
  moreover have "crash_data (snd (start_service w n ?sv2)) n = crash_data sv n"
    using start_service_calm [of n n ?sv2 w] kill_service_calm [OF k, of n]
    by (simp add: calm_for_def crash_data_modify)
  ultimately show ?thesis by blast
qed

text \<open>A service that ends whenever it is looked at: three restarts, then the loop protection.\<close>

definition dying_world :: world where
  "dying_world = sample_world\<lparr>w_try_wait := \<lambda>_ _. ChildExited (Some 1)\<rparr>"

definition netmd_at :: "nat \<Rightarrow> service_runtime \<Rightarrow> sup_action list \<Rightarrow> supervisor" where
  "netmd_at now r trace =
     \<lparr>sv_services = [(''netmd'', r)], sv_graph = default_graph, sv_startup_order = [''netmd''],
      sv_bus_socket = None, sv_now = now, sv_trace = trace\<rparr>"

definition netmd_up :: "nat \<Rightarrow> nat list \<Rightarrow> service_runtime" where
  "netmd_up started stamps =
     (service_runtime_new svc_netmd)\<lparr>sr_status := Running, sr_child := Some started, sr_pid := Some 7,
        sr_started_at := Some started, sr_crash_timestamps := stamps\<rparr>"

lemma netmd_health: "startup_health dying_world svc_netmd now = (Some (Inr ()), 0)"
  by (simp add: startup_health_def svc_defs wait_for_health.simps check_health_def starts_with_def timeout_def)

lemma netmd_start:
  assumes "sr_manifest r = svc_netmd" "sr_crash_timestamps r = stamps" "sr_restart_count r = 0"
  shows "snd (start_service dying_world ''netmd'' (netmd_at now r trace)) =
    netmd_at now (netmd_up now stamps) (trace @ [Spawn ''netmd'' (build_command svc_netmd None)])"
proof -
  have "sm_dependencies svc_netmd = []" by (simp add: svc_defs)
  moreover have "w_exists dying_world t p" "w_spawn dying_world t cmd = Inr (t, Some 7)" for t p cmd
    by (simp_all add: dying_world_def sample_world_def)
  ultimately show ?thesis using assms
    by (simp add: start_service_def netmd_at_def netmd_up_def netmd_health modify_service_def act_def
        pass_def service_runtime_new_def Let_def)
qed

lemma netmd_tick:
  assumes "length (filter (\<lambda>t. now - t < 30000) (stamps @ [now])) \<le> 3"
  shows "sup_run no_locks dying_world id False [Tick] (f, netmd_at now (netmd_up c stamps) trace) =
    Finished (f, netmd_at now (netmd_up now (filter (\<lambda>t. now - t < 30000) (stamps @ [now])))
      (trace @ [Spawn ''netmd'' (build_command svc_netmd None)]))"
proof -
  let ?st = "filter (\<lambda>t. now - t < 30000) (stamps @ [now])"
  have man: "sm_restart svc_netmd = Always" "sm_max_crash_count svc_netmd = 3" "crash_window svc_netmd = 30000"
    by (simp_all add: svc_defs crash_window_def)
  let ?r = "(netmd_up c stamps)\<lparr>sr_status := Failed (exit_text (Some 1)), sr_child := None, sr_crash_timestamps := ?st\<rparr>"
  have "on_child_exit now (Some 1) (netmd_up c stamps) = (?r, True)"
    using assms man by (simp add: on_child_exit_def netmd_up_def service_runtime_new_def Let_def)
  then have "monitor_entry dying_world now (netmd_up c stamps) = (?r, True)"
    by (simp add: monitor_entry_def netmd_up_def dying_world_def)
  moreover have "needs_check (sr_status (netmd_up c stamps))"
    by (simp add: netmd_up_def needs_check_def)
  ultimately have "monitor_scan no_locks dying_world [''netmd''] (netmd_at now (netmd_up c stamps) trace) =
      Finished (netmd_at now ?r trace, [(''netmd'', sm_restart_delay_ms (sr_manifest (netmd_up c stamps)))])"
    by (simp add: netmd_at_def no_locks_def modify_service_def)
  moreover have "snd (start_service dying_world ''netmd'' (netmd_at now ?r trace)) =
      netmd_at now (netmd_up now ?st) (trace @ [Spawn ''netmd'' (build_command svc_netmd None)])"
    by (rule netmd_start) (simp_all add: netmd_up_def service_runtime_new_def)
  ultimately show ?thesis
    by (simp add: monitor_services_def restart_all_def keys_def netmd_at_def)
qed

theorem restarts_bounded_in_window_witness:
  "start_log ''netmd'' no_locks dying_world id False [Tick, Idle 5, Tick, Idle 4, Tick]
     ([], netmd_at 0 (netmd_up 0 []) []) = [0, 5, 9] \<and>
   length (filter (\<lambda>t. 0 \<le> t \<and> t < 0 + 30000) (start_log ''netmd'' no_locks dying_world id False
     [Tick, Idle 5, Tick, Idle 4, Tick, Tick] ([], netmd_at 0 (netmd_up 0 []) []))) \<le> 3"
proof -
  let ?sv = "netmd_at 0 (netmd_up 0 []) []"
  have st: "starts ''netmd'' (netmd_at now r tr) = length (filter (is_start ''netmd'') tr)"
    "sv_now (netmd_at now r tr) = now" "pass d (netmd_at now r tr) = netmd_at (now + d) r tr" for now r tr d
    by (simp_all add: starts_def netmd_at_def pass_def)
  have idle: "sup_run b w order wd [Idle d] (f, sv) = Finished (f, pass d sv)" for b w order wd d f sv
    by simp
  have "start_log ''netmd'' no_locks dying_world id False [Tick, Idle 5, Tick, Idle 4, Tick] ([], ?sv) = [0, 5, 9]"
    by (simp add: netmd_tick idle st del: sup_run.simps)
  moreover have "map_of (sv_services ?sv) ''netmd'' = Some (netmd_up 0 [])" "sr_crash_timestamps (netmd_up 0 []) = []"
    "sr_manifest (netmd_up 0 []) = svc_netmd"
    by (simp_all add: netmd_at_def netmd_up_def service_runtime_new_def)
  moreover have "check_passes dying_world svc_netmd" "crash_window svc_netmd = 30000" "sm_max_crash_count svc_netmd = 3"
    by (simp_all add: check_passes_def check_health_def starts_with_def svc_defs crash_window_def)
  ultimately show ?thesis
    using restarts_bounded_in_window [of ?sv "''netmd''" "netmd_up 0 []" dying_world 0 no_locks id False
      "[Tick, Idle 5, Tick, Idle 4, Tick, Tick]" "[]"] by simp
qed

subsection \<open>Shutdown\<close>

definition child_at :: "supervisor \<Rightarrow> string \<Rightarrow> nat option option" where
  "child_at sv n = map_option sr_child (map_of (sv_services sv) n)"

lemma child_at_dom: "n \<in> dom (map_of (sv_services sv)) \<longleftrightarrow> child_at sv n \<noteq> None"
  by (auto simp: child_at_def)

lemma child_at_stop:
  assumes "map_of (sv_services sv) n = Some r"
  shows "child_at (stop_service w n r sv) m = (if m = n then Some None else child_at sv m)"
  using assms
  by (auto simp: child_at_def stop_service_def Let_def lookup_modify split: option.splits)

lemma shutdown_list_children:
  "set names \<subseteq> dom (map_of (sv_services sv)) \<Longrightarrow>
   \<exists>sv'. shutdown_list w names sv = Finished sv' \<and>
     (\<forall>m. child_at sv' m = (if m \<in> set names then Some None else child_at sv m))"
proof (induction names arbitrary: sv)
  case (Cons n names)
  then obtain r where r: "map_of (sv_services sv) n = Some r" by auto
  have "set names \<subseteq> dom (map_of (sv_services (stop_service w n r sv)))"
    using Cons.prems by (auto simp only: child_at_dom child_at_stop [OF r] subset_iff) auto
  from Cons.IH [OF this] obtain sv' where
      "shutdown_list w names (stop_service w n r sv) = Finished sv'"
      "\<forall>m. child_at sv' m =
        (if m \<in> set names then Some None else child_at (stop_service w n r sv) m)"
    by blast
  with r show ?case
    by (intro exI [of _ sv']) (simp add: child_at_stop [OF r])
qed simp

text \<open>
  A shutdown over services that all exist ends, and leaves no service with a child
  process: each one was stopped, in the reverse of the startup order.
\<close>

lemma shutdown_leaves_no_child:
  assumes "set (sv_startup_order sv) = dom (map_of (sv_services sv))"
  shows "\<exists>sv'. shutdown_all w sv = Finished sv' \<and>
     (\<forall>n r. map_of (sv_services sv') n = Some r \<longrightarrow> sr_child r = None)"
proof -
  obtain sv' where sv': "shutdown_all w sv = Finished sv'"
      and ch: "\<And>m. child_at sv' m =
        (if m \<in> dom (map_of (sv_services sv)) then Some None else child_at sv m)"
    using shutdown_list_children [of "rev (sv_startup_order sv)" sv w] assms
    by (auto simp: shutdown_all_def)
  have "sr_child r = None" if r: "map_of (sv_services sv') n = Some r" for n r
  proof -
    have "child_at sv' n = Some (sr_child r)" using r by (simp add: child_at_def)
    with ch [of n] show ?thesis by (simp only: child_at_dom split: if_splits) auto
  qed
  with sv' show ?thesis by blast
qed

lemma shutdown_leaves_no_child_witness:
  "let r = (service_runtime_new svc_netmd)\<lparr>sr_status := Running, sr_child := Some 4, sr_pid := Some 9\<rparr>;
       sv = \<lparr>sv_services = [(''netmd'', r)], sv_graph = default_graph, sv_startup_order = [''netmd''],
             sv_bus_socket = None, sv_now = 0, sv_trace = []\<rparr>
   in \<exists>sv'. shutdown_all sample_world sv = Finished sv' \<and>
        sv_trace sv' = [Signal 9 SIGTERM, Signal 9 SIGKILL, WaitChild 4] \<and>
        (\<forall>n r. map_of (sv_services sv') n = Some r \<longrightarrow> sr_child r = None)"
proof -
  let ?r = "(service_runtime_new svc_netmd)\<lparr>sr_status := Running, sr_child := Some 4, sr_pid := Some 9\<rparr>"
  let ?sv = "\<lparr>sv_services = [(''netmd'', ?r)], sv_graph = default_graph,
    sv_startup_order = [''netmd''], sv_bus_socket = None, sv_now = 0, sv_trace = []\<rparr>"
  have "\<exists>sv'. shutdown_all sample_world ?sv = Finished sv' \<and>
      (\<forall>n r. map_of (sv_services sv') n = Some r \<longrightarrow> sr_child r = None)"
    by (rule shutdown_leaves_no_child) simp
  moreover have "\<forall>sv'. shutdown_all sample_world ?sv = Finished sv' \<longrightarrow>
      sv_trace sv' = [Signal 9 SIGTERM, Signal 9 SIGKILL, WaitChild 4]"
    by (simp add: shutdown_all_def stop_service_def sample_world_def act_def pass_def
        modify_service_def Let_def)
  ultimately show ?thesis by (simp only: Let_def) blast
qed

end
