(* ===== verification/CasyncChunker.thy ===== *)
theory CasyncChunker
  imports Prelude
begin

section \<open>casync-rs: cutting data into chunks\<close>

text \<open>
  \<open>crates/casync-rs/src/chunker.rs\<close> and the constants of \<open>lib.rs\<close>: chunks, fixed-size cutting
  and content-defined cutting by the gear hash. SHA-256 (crate sha2) is the parameter \<open>sha\<close>.
  A \<open>usize\<close> is a natural number here; offsets and sizes are words of the width the code
  stores them in.
\<close>

unbundle bit_operations_syntax

type_synonym chunk_hash = bytes

record chunk =
  ck_offset :: u64
  ck_size :: u32
  ck_data :: bytes
  ck_hash :: chunk_hash

datatype chunking_strategy =
    Fixed nat
  | GearHash nat nat u64

definition default_chunk_size :: nat where "default_chunk_size = 65536"
definition min_chunk_size :: nat where "min_chunk_size = 32768"
definition max_chunk_size :: nat where "max_chunk_size = 131072"

definition gear_table :: "u64 list" where
  "gear_table = map (\<lambda>i. of_nat i * 0x9E3779B97F4A7C15) [0..<256]"

definition chunk_new :: "(bytes \<Rightarrow> chunk_hash) \<Rightarrow> u64 \<Rightarrow> bytes \<Rightarrow> chunk" where
  "chunk_new sha offset d =
     \<lparr>ck_offset = offset, ck_size = of_nat (length d), ck_data = d, ck_hash = sha d\<rparr>"

definition strategy_default :: chunking_strategy where
  "strategy_default = GearHash min_chunk_size max_chunk_size (push_bit 16 1 - 1)"

definition chunker_fixed :: "nat \<Rightarrow> chunking_strategy" where
  "chunker_fixed chunk_size = Fixed chunk_size"

definition chunker_new :: chunking_strategy where
  "chunker_new = strategy_default"

text \<open>The shift count is a \<open>u32\<close>; a shift by 64 or more uses its low six bits.\<close>

definition chunker_gear_hash :: "nat \<Rightarrow> nat \<Rightarrow> u32 \<Rightarrow> chunking_strategy" where
  "chunker_gear_hash mn mx mask_bits =
     GearHash mn mx (push_bit (unat mask_bits mod 64) 1 - 1)"

subsection \<open>Fixed-size cutting\<close>

function slices_of :: "nat \<Rightarrow> 'a list \<Rightarrow> 'a list list" where
  "slices_of n xs =
     (if xs = [] \<or> n = 0 then [] else take n xs # slices_of n (drop n xs))"
  by pat_completeness auto
termination
  by (relation "measure (\<lambda>(_, xs). length xs)") auto

declare slices_of.simps [simp del]

fun number_slices :: "(bytes \<Rightarrow> chunk_hash) \<Rightarrow> u64 \<Rightarrow> bytes list \<Rightarrow> chunk list" where
  "number_slices sha offset [] = []"
| "number_slices sha offset (s # ss) =
     chunk_new sha offset s # number_slices sha (offset + of_nat (length s)) ss"

definition chunk_fixed :: "(bytes \<Rightarrow> chunk_hash) \<Rightarrow> bytes \<Rightarrow> nat \<Rightarrow> (unit, chunk list) outcome" where
  "chunk_fixed sha d chunk_size =
     (if chunk_size = 0 then Panic
      else Done (number_slices sha 0 (slices_of chunk_size d)))"

subsection \<open>Content-defined cutting\<close>

definition gear_step :: "u64 \<Rightarrow> u8 \<Rightarrow> u64" where
  "gear_step hash b = push_bit 1 hash + gear_table ! unat b"

function gear_loop ::
  "(bytes \<Rightarrow> chunk_hash) \<Rightarrow> bytes \<Rightarrow> nat \<Rightarrow> nat \<Rightarrow> u64 \<Rightarrow> nat \<Rightarrow> u64 \<Rightarrow> nat \<Rightarrow> chunk list" where
  "gear_loop sha d mn mx msk chunk_start hash pos =
     (if pos < length d then
        (let hash' = gear_step hash (d ! pos);
             chunk_len = pos + 1 - chunk_start;
             is_boundary = (hash' AND msk = 0 \<and> chunk_len \<ge> mn);
             forced = (chunk_len \<ge> mx)
         in if is_boundary \<or> forced
            then chunk_new sha (of_nat chunk_start) (take (pos + 1 - chunk_start) (drop chunk_start d))
                   # gear_loop sha d mn mx msk (pos + 1) 0 (pos + 1)
            else gear_loop sha d mn mx msk chunk_start hash' (pos + 1))
      else if chunk_start < length d
           then [chunk_new sha (of_nat chunk_start) (drop chunk_start d)]
           else [])"
  by pat_completeness auto
termination
  by (relation "measure (\<lambda>(_, d, _, _, _, _, _, pos). length d - pos)") auto

declare gear_loop.simps [simp del]

definition chunk_gear ::
  "(bytes \<Rightarrow> chunk_hash) \<Rightarrow> bytes \<Rightarrow> nat \<Rightarrow> nat \<Rightarrow> u64 \<Rightarrow> chunk list" where
  "chunk_gear sha d mn mx msk = gear_loop sha d mn mx msk 0 0 0"

definition chunk_bytes ::
  "(bytes \<Rightarrow> chunk_hash) \<Rightarrow> chunking_strategy \<Rightarrow> bytes \<Rightarrow> (unit, chunk list) outcome" where
  "chunk_bytes sha strategy d =
     (case strategy of
        Fixed chunk_size \<Rightarrow> chunk_fixed sha d chunk_size
      | GearHash mn mx msk \<Rightarrow> Done (chunk_gear sha d mn mx msk))"

definition chunk_reader ::
  "(bytes \<Rightarrow> chunk_hash) \<Rightarrow> chunking_strategy \<Rightarrow> bytes option \<Rightarrow> (unit, chunk list) outcome" where
  "chunk_reader sha strategy input =
     (case input of None \<Rightarrow> Fail () | Some d \<Rightarrow> chunk_bytes sha strategy d)"

subsection \<open>The interface of a chunker\<close>

text \<open>
  What the index and the store need of a chunker: the chunks put together are the data, none
  is empty, each knows where it starts, and its size and hash are those of its data.
\<close>

locale chunking =
  fixes cut :: "bytes \<Rightarrow> chunk list" and sha :: "bytes \<Rightarrow> chunk_hash"
  assumes cut_concat: "concat (map ck_data (cut d)) = d"
    and cut_nonempty: "c \<in> set (cut d) \<Longrightarrow> ck_data c \<noteq> []"
    and cut_fields: "cut d = pre @ c # post \<Longrightarrow>
      c = chunk_new sha (of_nat (length (concat (map ck_data pre)))) (ck_data c)"
begin

lemma cut_split: "cut d = pre @ c # post \<Longrightarrow>
  d = concat (map ck_data pre) @ ck_data c @ concat (map ck_data post)"
  using cut_concat [of d] by (simp del: cut_concat)

lemma cut_offset:
  assumes "length d < 2 ^ 64" "cut d = pre @ c # post"
  shows "unat (ck_offset c) = length (concat (map ck_data pre))"
    and "unat (ck_offset c) + length (ck_data c) \<le> length d"
    and "take (length (ck_data c)) (drop (unat (ck_offset c)) d) = ck_data c"
proof -
  let ?p = "concat (map ck_data pre)"
  note s = cut_split [OF assms(2)]
  have "length ?p < 2 ^ 64" using assms(1) arg_cong [OF s, of length] by simp
  then have "unat (of_nat (length ?p) :: u64) = length ?p"
    by (simp add: unat_of_nat take_bit_nat_eq_self)
  then show o: "unat (ck_offset c) = length ?p"
    using cut_fields [OF assms(2)] by (metis chunk.select_convs(1) chunk_new_def)
  show "unat (ck_offset c) + length (ck_data c) \<le> length d"
    using arg_cong [OF s, of length] by (simp add: o)
  show "take (length (ck_data c)) (drop (unat (ck_offset c)) d) = ck_data c"
    by (subst s) (simp add: o)
qed

lemma cut_hash: "c \<in> set (cut d) \<Longrightarrow> ck_hash c = sha (ck_data c)"
  by (metis chunk.select_convs(4) chunk_new_def cut_fields split_list)

lemma cut_size: "c \<in> set (cut d) \<Longrightarrow> ck_size c = of_nat (length (ck_data c))"
  by (metis chunk.select_convs(2) chunk_new_def cut_fields split_list)

lemma cut_offsets_increasing:
  assumes "length d < 2 ^ 64" "cut d = pre @ a # mid @ b # post"
  shows "ck_offset a < ck_offset b"
proof -
  have "ck_data a \<noteq> []" using cut_nonempty [of a d] assms(2) by simp
  moreover have "unat (ck_offset a) = length (concat (map ck_data pre))"
    by (rule cut_offset(1) [OF assms])
  moreover have "unat (ck_offset b) = length (concat (map ck_data (pre @ a # mid)))"
    by (rule cut_offset(1) [OF assms(1), of _ _ post]) (simp add: assms(2))
  ultimately show ?thesis by (simp add: word_less_nat_alt)
qed

end

subsection \<open>Both strategies are chunkers\<close>

lemma slices_of_concat: "0 < n \<Longrightarrow> concat (slices_of n xs) = xs"
proof (induction n xs rule: slices_of.induct)
  case (1 n xs)
  then show ?case by (subst slices_of.simps) simp
qed

lemma slices_of_length: "s \<in> set (slices_of n xs) \<Longrightarrow> s \<noteq> [] \<and> length s \<le> n"
proof (induction n xs rule: slices_of.induct)
  case (1 n xs)
  then show ?case by (subst (asm) (2) slices_of.simps) (auto split: if_splits)
qed

lemma map_data_number_slices: "map ck_data (number_slices sha off ss) = ss"
  by (induction ss arbitrary: off) (simp_all add: chunk_new_def)

lemma number_slices_fields:
  "number_slices sha off ss = pre @ c # post \<Longrightarrow>
   c = chunk_new sha (off + of_nat (length (concat (map ck_data pre)))) (ck_data c)"
proof (induction ss arbitrary: off pre)
  case (Cons s ss)
  show ?case
  proof (cases pre)
    case Nil
    with Cons.prems show ?thesis by (auto simp: chunk_new_def)
  next
    case (Cons p pre')
    with Cons.prems have "p = chunk_new sha off s"
        and "number_slices sha (off + of_nat (length s)) ss = pre' @ c # post" by auto
    from Cons.IH [OF this(2)] this(1) Cons show ?thesis
      by (simp add: chunk_new_def algebra_simps)
  qed
qed simp

definition fixed_chunks :: "(bytes \<Rightarrow> chunk_hash) \<Rightarrow> nat \<Rightarrow> bytes \<Rightarrow> chunk list" where
  "fixed_chunks sha n d = number_slices sha 0 (slices_of (Suc n) d)"

lemma chunk_fixed_Suc: "chunk_fixed sha d (Suc n) = Done (fixed_chunks sha n d)"
  by (simp add: chunk_fixed_def fixed_chunks_def)

interpretation fixed: chunking "fixed_chunks sha n" sha for sha n
proof
  fix d pre c post
  show "concat (map ck_data (fixed_chunks sha n d)) = d"
    by (simp add: fixed_chunks_def map_data_number_slices slices_of_concat)
  show "c \<in> set (fixed_chunks sha n d) \<Longrightarrow> ck_data c \<noteq> []"
    unfolding fixed_chunks_def
    by (metis image_eqI list.set_map map_data_number_slices slices_of_length)
  show "fixed_chunks sha n d = pre @ c # post \<Longrightarrow>
      c = chunk_new sha (of_nat (length (concat (map ck_data pre)))) (ck_data c)"
    unfolding fixed_chunks_def by (drule number_slices_fields) simp
qed

text \<open>The loop cuts off what lies between the start of the current chunk and the end.\<close>

lemma gear_loop_concat:
  "start \<le> pos \<Longrightarrow> concat (map ck_data (gear_loop sha d mn mx msk start hash pos)) = drop start d"
proof (induction sha d mn mx msk start hash pos rule: gear_loop.induct)
  case (1 sha d mn mx msk start hash pos)
  have tl: "take (Suc pos - start) (drop start d) @ drop (Suc pos) d = drop start d"
    using 1(3) by (metis append_take_drop_id drop_drop le_SucI le_add_diff_inverse2)
  from 1 tl show ?case
    by (subst gear_loop.simps) (auto simp: Let_def chunk_new_def)
qed

lemma gear_loop_nonempty:
  "start \<le> pos \<Longrightarrow> c \<in> set (gear_loop sha d mn mx msk start hash pos) \<Longrightarrow> ck_data c \<noteq> []"
proof (induction sha d mn mx msk start hash pos rule: gear_loop.induct)
  case (1 sha d mn mx msk start hash pos)
  from 1(4) show ?case
    by (subst (asm) gear_loop.simps)
      (use 1(1-3) in \<open>auto simp: Let_def chunk_new_def split: if_splits\<close>)
qed

lemma gear_loop_fields:
  "start \<le> pos \<Longrightarrow> gear_loop sha d mn mx msk start hash pos = pre @ c # post \<Longrightarrow>
   c = chunk_new sha (of_nat (start + length (concat (map ck_data pre)))) (ck_data c)"
proof (induction sha d mn mx msk start hash pos arbitrary: pre rule: gear_loop.induct)
  case (1 sha d mn mx msk start hash pos)
  let ?h = "gear_step hash (d ! pos)"
  consider (cut) "pos < length d" "?h AND msk = 0 \<and> mn \<le> pos + 1 - start \<or> mx \<le> pos + 1 - start"
    | (go) "pos < length d" "\<not> (?h AND msk = 0 \<and> mn \<le> pos + 1 - start \<or> mx \<le> pos + 1 - start)"
    | (fin) "\<not> pos < length d"
    by blast
  then show ?case
  proof cases
    case cut
    let ?s = "take (pos + 1 - start) (drop start d)"
    have eq: "gear_loop sha d mn mx msk start hash pos =
        chunk_new sha (of_nat start) ?s # gear_loop sha d mn mx msk (pos + 1) 0 (pos + 1)"
      using cut by (subst gear_loop.simps) (simp add: Let_def)
    show ?thesis
    proof (cases pre)
      case Nil
      with 1(4) eq show ?thesis by (auto simp: chunk_new_def)
    next
      case (Cons p pre')
      with 1(4) eq have p: "p = chunk_new sha (of_nat start) ?s"
        and r: "gear_loop sha d mn mx msk (pos + 1) 0 (pos + 1) = pre' @ c # post" by auto
      have "length ?s = pos + 1 - start" using cut(1) 1(3) by simp
      with 1(1) [OF cut(1) refl refl refl refl cut(2) _ r] p 1(3) Cons show ?thesis
        by (simp add: chunk_new_def)
    qed
  next
    case go
    then have eq: "gear_loop sha d mn mx msk start hash pos =
        gear_loop sha d mn mx msk start ?h (pos + 1)"
      by (subst gear_loop.simps) (auto simp: Let_def)
    show ?thesis
      using 1(2) [OF go(1) refl refl refl refl go(2), of pre] 1(3,4) eq by simp
  next
    case fin
    then show ?thesis
      using 1(4) by (subst (asm) gear_loop.simps)
        (auto simp: chunk_new_def Cons_eq_append_conv split: if_splits)
  qed
qed

interpretation gear: chunking "\<lambda>d. chunk_gear sha d mn mx msk" sha for sha mn mx msk
proof
  fix d pre c post
  show "concat (map ck_data (chunk_gear sha d mn mx msk)) = d"
    unfolding chunk_gear_def by (simp add: gear_loop_concat)
  show "c \<in> set (chunk_gear sha d mn mx msk) \<Longrightarrow> ck_data c \<noteq> []"
    unfolding chunk_gear_def by (rule gear_loop_nonempty) auto
  show "chunk_gear sha d mn mx msk = pre @ c # post \<Longrightarrow>
      c = chunk_new sha (of_nat (length (concat (map ck_data pre)))) (ck_data c)"
    unfolding chunk_gear_def by (drule gear_loop_fields [OF order_refl]) simp
qed

subsection \<open>What the chunks look like\<close>

text \<open>
  Property C26. Whatever the strategy, cutting loses and reorders nothing: the chunks put
  together are the input, none is empty, and each one carries its own offset, size and hash.
  Only a fixed size of zero panics.
\<close>

theorem chunk_bytes_partition:
  "case chunk_bytes sha strategy d of
     Done cs \<Rightarrow>
       strategy \<noteq> Fixed 0 \<and> concat (map ck_data cs) = d \<and> [] \<notin> set (map ck_data cs) \<and>
       (\<forall>pre c post. cs = pre @ c # post \<longrightarrow>
          c = chunk_new sha (of_nat (length (concat (map ck_data pre)))) (ck_data c))
   | Panic \<Rightarrow> strategy = Fixed 0
   | _ \<Rightarrow> False"
proof (cases strategy)
  case (Fixed n)
  show ?thesis
  proof (cases n)
    case 0
    with Fixed show ?thesis by (simp add: chunk_bytes_def chunk_fixed_def)
  next
    case (Suc m)
    have "[] \<notin> set (map ck_data (fixed_chunks sha m d))"
      using fixed.cut_nonempty by (metis imageE list.set_map)
    with Fixed Suc fixed.cut_concat fixed.cut_fields show ?thesis
      by (simp add: chunk_bytes_def chunk_fixed_Suc)
  qed
next
  case (GearHash mn mx msk)
  have "[] \<notin> set (map ck_data (chunk_gear sha d mn mx msk))"
    using gear.cut_nonempty by (metis imageE list.set_map)
  with GearHash gear.cut_concat gear.cut_fields show ?thesis
    by (simp add: chunk_bytes_def)
qed

theorem chunk_bytes_partition_witness:
  "case chunk_bytes (\<lambda>_. []) (chunker_fixed 2) [7, 8, 9] of
     Done cs \<Rightarrow> concat (map ck_data cs) = [7, 8, 9]
   | _ \<Rightarrow> False"
  using chunk_bytes_partition
    [where sha = "\<lambda>_. []" and strategy = "chunker_fixed 2" and d = "[7, 8, 9]"]
  by (auto simp: chunker_fixed_def split: outcome.splits)

lemma gear_loop_sizes:
  "start \<le> pos \<Longrightarrow> pos - start < mx \<Longrightarrow> start < length d \<or> pos = start \<Longrightarrow>
   c \<in> set (gear_loop sha d mn mx msk start hash pos) \<Longrightarrow> pos \<le> length d \<Longrightarrow>
   length (ck_data c) \<le> mx \<and>
   (c \<in> set (butlast (gear_loop sha d mn mx msk start hash pos)) \<longrightarrow> min mn mx \<le> length (ck_data c))"
proof (induction sha d mn mx msk start hash pos rule: gear_loop.induct)
  case (1 sha d mn mx msk start hash pos)
  let ?h = "gear_step hash (d ! pos)"
  consider (cut) "pos < length d" "?h AND msk = 0 \<and> mn \<le> pos + 1 - start \<or> mx \<le> pos + 1 - start"
    | (go) "pos < length d" "\<not> (?h AND msk = 0 \<and> mn \<le> pos + 1 - start \<or> mx \<le> pos + 1 - start)"
    | (fin) "\<not> pos < length d"
    by blast
  then show ?case
  proof cases
    case cut
    let ?c0 = "chunk_new sha (of_nat start) (take (pos + 1 - start) (drop start d))"
    let ?rest = "gear_loop sha d mn mx msk (pos + 1) 0 (pos + 1)"
    have eq: "gear_loop sha d mn mx msk start hash pos = ?c0 # ?rest"
      using cut by (subst gear_loop.simps) (simp add: Let_def)
    have len: "length (ck_data ?c0) = pos + 1 - start"
      using cut(1) 1(3) by (simp add: chunk_new_def)
    have c0: "length (ck_data ?c0) \<le> mx \<and> min mn mx \<le> length (ck_data ?c0)"
      unfolding len using 1(3,4) cut(2) by auto
    show ?thesis
    proof (cases "c = ?c0")
      case True
      with c0 show ?thesis by simp
    next
      case False
      with 1(6) eq have "c \<in> set ?rest" by simp
      moreover have "0 < mx" using 1(4) by simp
      ultimately have "length (ck_data c) \<le> mx \<and>
          (c \<in> set (butlast ?rest) \<longrightarrow> min mn mx \<le> length (ck_data c))"
        using 1(1) [OF cut(1) refl refl refl refl cut(2)] cut(1) by simp
      with False show ?thesis unfolding eq by (auto split: if_splits)
    qed
  next
    case go
    then have eq: "gear_loop sha d mn mx msk start hash pos =
        gear_loop sha d mn mx msk start ?h (pos + 1)"
      by (subst gear_loop.simps) (auto simp: Let_def)
    show ?thesis
      using 1(2) [OF go(1) refl refl refl refl go(2)] 1(3-7) go eq by simp
  next
    case fin
    then have eq: "gear_loop sha d mn mx msk start hash pos =
        (if start < length d then [chunk_new sha (of_nat start) (drop start d)] else [])"
      by (subst gear_loop.simps) simp
    show ?thesis using 1(3-7) fin unfolding eq by (auto simp: chunk_new_def split: if_splits)
  qed
qed

text \<open>
  Content-defined chunks respect their bounds: none is larger than the maximum and
  only the last may be smaller than the minimum.
\<close>

lemma gear_chunk_sizes:
  assumes "0 < mx" "mn \<le> mx" "c \<in> set (chunk_gear sha d mn mx msk)"
  shows "length (ck_data c) \<le> mx \<and>
    (c \<in> set (butlast (chunk_gear sha d mn mx msk)) \<longrightarrow> mn \<le> length (ck_data c))"
  using gear_loop_sizes [of 0 0 mx d c sha mn msk 0] assms by (simp add: chunk_gear_def)

lemma sample_cut:
  "map ck_data (chunk_gear (\<lambda>_. []) [u, v, x, y, z] 3 2 msk) = [[u, v], [x, y], [z]]"
  by (simp add: chunk_gear_def gear_loop.simps Let_def chunk_new_def)

lemma gear_chunk_sizes_witness:
  "list_all (\<lambda>c. length (ck_data c) \<le> 2) (chunk_gear (\<lambda>_. []) [1, 2, 3, 4, 5] 2 2 7)"
  unfolding list_all_iff using gear_chunk_sizes [of 2 2 _ "\<lambda>_. []" "[1, 2, 3, 4, 5]" 7] by simp

subsection \<open>Boundaries depend on content only\<close>

lemma word_take_bit_add:
  "take_bit n (take_bit n a + take_bit n b) = take_bit n (a + b)" for a b :: "'a::len word"
proof (rule bit_word_eqI)
  fix i assume "i < LENGTH('a)"
  then show "bit (take_bit n (take_bit n a + take_bit n b)) i = bit (take_bit n (a + b)) i"
    by transfer
      (auto simp: bit_take_bit_iff,
        (metis bit_take_bit_iff take_bit_add take_bit_take_bit)+)
qed

lemma gear_step_window:
  assumes "take_bit n h = take_bit n h'"
  shows "take_bit (Suc n) (gear_step h b) = take_bit (Suc n) (gear_step h' b)"
proof -
  have "take_bit (Suc n) (push_bit 1 h) = push_bit 1 (take_bit n h)" for h :: u64
    by (simp only: take_bit_push_bit diff_Suc_1)
  with assms have "take_bit (Suc n) (push_bit 1 h) = take_bit (Suc n) (push_bit 1 h')"
    by simp
  from arg_cong [OF this, of "\<lambda>x. take_bit (Suc n) (x + take_bit (Suc n) (gear_table ! unat b))"]
  show ?thesis
    unfolding gear_step_def by (simp only: word_take_bit_add)
qed

lemma gear_fold_window:
  "take_bit (length ys) (foldl gear_step h ys) = take_bit (length ys) (foldl gear_step h' ys)"
proof (induction ys rule: rev_induct)
  case (snoc b ys)
  from gear_step_window [OF this] show ?case by simp
qed simp

text \<open>
  The boundary test is content-defined: with a mask of k bits, its outcome after
  reading some bytes depends on the last k of them only, not on where the chunk began.
\<close>

lemma boundary_window:
  assumes "k \<le> length ys"
  shows "foldl gear_step h (xs @ ys) AND (push_bit k 1 - 1) =
    foldl gear_step h' (zs @ ys) AND (push_bit k 1 - 1)"
proof -
  have "take_bit k (foldl gear_step g ys) = take_bit k (foldl gear_step g' ys)" for g g'
    using arg_cong [OF gear_fold_window [of ys g g'], of "take_bit k"] assms
    by (simp add: min_def)
  moreover have "push_bit k 1 - 1 = (Bit_Operations.mask k :: u64)"
    by (simp add: mask_eq_exp_minus_1 push_bit_eq_mult)
  ultimately show ?thesis
    by (simp only: take_bit_eq_mask [symmetric] foldl_append)
qed

lemma boundary_window_witness:
  "foldl gear_step 0 ([9] @ [1, 2]) AND (push_bit 2 1 - 1) =
   foldl gear_step 5 ([] @ [1, 2]) AND (push_bit 2 1 - 1)"
  by (rule boundary_window) simp

text \<open>Cutting restarts at a boundary: the rest is cut as if it stood alone.\<close>

lemma gear_loop_shift:
  "start \<le> pos \<Longrightarrow>
   map ck_data (gear_loop sha (p @ d) mn mx msk (length p + start) hash (length p + pos)) =
   map ck_data (gear_loop sha d mn mx msk start hash pos)"
proof (induction sha d mn mx msk start hash pos rule: gear_loop.induct)
  case (1 sha d mn mx msk start hash pos)
  let ?h = "gear_step hash (d ! pos)"
  have nth: "(p @ d) ! (length p + pos) = d ! pos" by simp
  have len: "length p + pos + 1 - (length p + start) = pos + 1 - start" by simp
  show ?case
  proof (cases "pos < length d")
    case False
    then show ?thesis
      by (subst (1 2) gear_loop.simps) (simp add: chunk_new_def)
  next
    case True
    show ?thesis
    proof (cases "?h AND msk = 0 \<and> mn \<le> pos + 1 - start \<or> mx \<le> pos + 1 - start")
      case cut: True
      from 1(1) [OF True refl refl refl refl cut] True cut show ?thesis
        by (subst (1 2) gear_loop.simps) (simp add: Let_def chunk_new_def nth_append)
    next
      case go: False
      from 1(2) [OF True refl refl refl refl go] 1(3) True go show ?thesis
        by (subst (1 2) gear_loop.simps) (auto simp: Let_def nth_append)
    qed
  qed
qed

lemma gear_loop_tail:
  "start \<le> pos \<Longrightarrow> map ck_data (gear_loop sha d mn mx msk start hash pos) = x # xs \<Longrightarrow>
   xs = map ck_data (chunk_gear sha (drop (start + length x) d) mn mx msk)"
proof (induction sha d mn mx msk start hash pos rule: gear_loop.induct)
  case (1 sha d mn mx msk start hash pos)
  let ?h = "gear_step hash (d ! pos)"
  show ?case
  proof (cases "pos < length d")
    case False
    with 1(4) have "xs = []" "x = drop start d"
      by (subst (asm) gear_loop.simps, simp add: chunk_new_def split: if_splits)+
    then show ?thesis by (simp add: chunk_gear_def gear_loop.simps)
  next
    case True
    show ?thesis
    proof (cases "?h AND msk = 0 \<and> mn \<le> pos + 1 - start \<or> mx \<le> pos + 1 - start")
      case cut: True
      have eq: "gear_loop sha d mn mx msk start hash pos =
          chunk_new sha (of_nat start) (take (pos + 1 - start) (drop start d))
            # gear_loop sha d mn mx msk (pos + 1) 0 (pos + 1)"
        using True cut by (subst gear_loop.simps) (simp add: Let_def)
      from 1(4) True 1(3) have x: "start + length x = Suc pos"
        and xs: "xs = map ck_data (gear_loop sha d mn mx msk (pos + 1) 0 (pos + 1))"
        unfolding eq by (auto simp: chunk_new_def)
      have "gear_loop sha d mn mx msk (pos + 1) 0 (pos + 1) =
          gear_loop sha (take (pos + 1) d @ drop (pos + 1) d) mn mx msk
            (length (take (pos + 1) d) + 0) 0 (length (take (pos + 1) d) + 0)"
        using True by simp
      with gear_loop_shift [of 0 0 sha "take (pos + 1) d" "drop (pos + 1) d" mn mx msk 0]
      show ?thesis unfolding xs x chunk_gear_def by (simp del: append_take_drop_id)
    next
      case go: False
      then have eq: "gear_loop sha d mn mx msk start hash pos =
          gear_loop sha d mn mx msk start ?h (pos + 1)"
        using True by (subst gear_loop.simps) (auto simp: Let_def)
      from 1(2) [OF True refl refl refl refl go] 1(3,4) show ?thesis unfolding eq by simp
    qed
  qed
qed

lemma gear_suffix:
  "map ck_data (chunk_gear sha d mn mx msk) = xs @ ys \<Longrightarrow>
   ys = map ck_data (chunk_gear sha (concat ys) mn mx msk)"
proof (induction xs arbitrary: d)
  case Nil
  have "concat ys = d" using gear.cut_concat Nil by (metis append_Nil)
  with Nil show ?case by simp
next
  case (Cons x xs)
  then have "xs @ ys = map ck_data (chunk_gear sha (drop (length x) d) mn mx msk)"
    using gear_loop_tail [OF order_refl, of sha d mn mx msk 0 0 x "xs @ ys"] by (simp add: chunk_gear_def)
  from Cons.IH [OF this [symmetric]] show ?case .
qed

text \<open>
  Property C21. Two files that agree from a boundary on are cut the same from there on: an edit
  changes the chunks up to the next common boundary and no later one.
\<close>

theorem gear_resynchronises:
  assumes "map ck_data (chunk_gear sha d1 mn mx msk) = xs @ ys"
    and "map ck_data (chunk_gear sha d2 mn mx msk) = us @ vs"
    and "concat ys = concat vs"
  shows "ys = vs"
  using gear_suffix [OF assms(1)] gear_suffix [OF assms(2)] assms(3) by simp

theorem gear_resynchronises_witness:
  "let cut = (\<lambda>d. map ck_data (chunk_gear (\<lambda>_. []) d 3 2 7))
   in cut [1, 2, 3, 4, 5] = [[1, 2]] @ [[3, 4], [5]] \<and>
      (\<exists>x. cut [9, 9, 3, 4, 5] = [[9, 9]] @ x \<and> x = [[3, 4], [5]])"
proof -
  let ?cut = "\<lambda>d. map ck_data (chunk_gear (\<lambda>_. []) d 3 2 7)"
  have 1: "?cut [1, 2, 3, 4, 5] = [[1, 2]] @ [[3, 4], [5]]"
    and 2: "?cut [9, 9, 3, 4, 5] = [[9, 9]] @ tl (?cut [9, 9, 3, 4, 5])"
    and "concat (tl (?cut [9, 9, 3, 4, 5])) = concat [[3, 4], [5]]"
    by (simp_all add: sample_cut)
  from gear_resynchronises [OF 2 1 this(3)] 1 2 show ?thesis by (metis (no_types, lifting))
qed

end
