(* ===== verification/CasyncStore.thy ===== *)
theory CasyncStore
  imports CasyncChunker
begin

section \<open>casync-rs: indexes and the chunk store\<close>

text \<open>
  \<open>crates/casync-rs/src/index.rs\<close> and \<open>store.rs\<close>: the index of a file, its validation, the
  difference of two indexes, verification of data against an index, and the chunk store with
  reconstruction and cleanup.

  Hexadecimal text (crate hex) and CBOR (crate ciborium) are parameters. The store's files are
  a hash map from the pair of subdirectory and file name under \<open>chunks/\<close> to contents; what the
  file system refuses is the record \<open>io_world\<close>. The floating-point \<open>savings_percent\<close> of
  \<open>DeltaStats\<close> is left out.
\<close>

record hex_api =
  hex_encode :: "bytes \<Rightarrow> string"
  hex_decode :: "string \<Rightarrow> bytes option"

definition hex_ok :: "hex_api \<Rightarrow> bool" where
  "hex_ok api \<longleftrightarrow> (\<forall>b. hex_decode api (hex_encode api b) = Some b)"

datatype casync_error =
    CasyncIo
  | HashMismatch u64 string string
  | InvalidIndex string
  | CasyncCbor

record chunk_entry =
  ce_offset :: u64
  ce_size :: u32
  ce_sha256 :: chunk_hash

record caibx_index =
  ix_magic :: string
  ix_version :: u32
  ix_chunk_size_target :: u32
  ix_total_size :: u64
  ix_chunks :: "chunk_entry list"

record delta_stats =
  ds_total_chunks :: u32
  ds_missing_chunks :: u32
  ds_total_bytes :: u64
  ds_missing_bytes :: u64

definition caibx_magic :: string where "caibx_magic = ''CAIBX''"
definition caibx_version :: u32 where "caibx_version = 1"

subsection \<open>Indexes\<close>

definition entry_of_chunk :: "chunk \<Rightarrow> chunk_entry" where
  "entry_of_chunk c = \<lparr>ce_offset = ck_offset c, ce_size = ck_size c, ce_sha256 = ck_hash c\<rparr>"

definition from_chunks :: "chunk list \<Rightarrow> u32 \<Rightarrow> caibx_index" where
  "from_chunks chunks chunk_size_target =
     \<lparr>ix_magic = caibx_magic, ix_version = caibx_version,
      ix_chunk_size_target = chunk_size_target,
      ix_total_size = sum_list (map (\<lambda>c. ucast (ck_size c)) chunks),
      ix_chunks = map entry_of_chunk chunks\<rparr>"

definition index_from_file :: "(bytes \<Rightarrow> chunk_hash) \<Rightarrow> bytes option \<Rightarrow> casync_error + caibx_index" where
  "index_from_file sha content =
     (case content of
        None \<Rightarrow> Inl CasyncIo
      | Some d \<Rightarrow>
          (case chunk_bytes sha chunker_new d of
             Done cs \<Rightarrow> Inr (from_chunks cs (of_nat default_chunk_size))
           | _ \<Rightarrow> Inl CasyncIo))"

definition index_to_bytes :: "(caibx_index \<Rightarrow> bytes option) \<Rightarrow> caibx_index \<Rightarrow> casync_error + bytes" where
  "index_to_bytes into_cbor ix =
     (case into_cbor ix of None \<Rightarrow> Inl CasyncCbor | Some b \<Rightarrow> Inr b)"

fun sorted_by_offset :: "chunk_entry list \<Rightarrow> bool" where
  "sorted_by_offset (a # b # es) = (ce_offset a < ce_offset b \<and> sorted_by_offset (b # es))"
| "sorted_by_offset _ = True"

definition index_from_bytes :: "(bytes \<Rightarrow> caibx_index option) \<Rightarrow> bytes \<Rightarrow> casync_error + caibx_index" where
  "index_from_bytes from_cbor b =
     (case from_cbor b of
        None \<Rightarrow> Inl CasyncCbor
      | Some ix \<Rightarrow>
          if ix_magic ix \<noteq> caibx_magic
          then Inl (InvalidIndex (''Invalid magic: '' @ ix_magic ix))
          else if ix_version ix \<noteq> caibx_version
          then Inl (InvalidIndex (''Unsupported version: '' @ show_nat (unat (ix_version ix))))
          else if \<not> sorted_by_offset (ix_chunks ix)
          then Inl (InvalidIndex ''Chunks not sorted by offset'')
          else Inr ix)"

text \<open>The hash of an entry is hexadecimal text in the file.\<close>

definition hash_from_hex :: "hex_api \<Rightarrow> string \<Rightarrow> string + chunk_hash" where
  "hash_from_hex api s =
     (case hex_decode api s of
        None \<Rightarrow> Inl ''invalid hex''
      | Some b \<Rightarrow>
          if length b \<noteq> 32 then Inl (''Expected 32 bytes, got '' @ show_nat (length b))
          else Inr b)"

definition index_diff :: "caibx_index \<Rightarrow> caibx_index \<Rightarrow> chunk_hash list" where
  "index_diff old new =
     (let old_hashes = map ce_sha256 (ix_chunks old)
      in filter (\<lambda>h. h \<notin> set old_hashes) (remdups (map ce_sha256 (ix_chunks new))))"

definition index_delta_stats :: "caibx_index \<Rightarrow> caibx_index \<Rightarrow> delta_stats" where
  "index_delta_stats old new =
     (let missing = index_diff old new
      in \<lparr>ds_total_chunks = of_nat (length (ix_chunks new)),
          ds_missing_chunks = of_nat (length missing),
          ds_total_bytes = sum_list (map (\<lambda>c. ucast (ce_size c)) (ix_chunks new)),
          ds_missing_bytes = sum_list (map (\<lambda>c. ucast (ce_size c))
            (filter (\<lambda>c. ce_sha256 c \<in> set missing) (ix_chunks new)))\<rparr>)"

text \<open>
  Verification walks the entries. The end of a chunk is a \<open>u64\<close> sum, which wraps; slicing
  panics when the start lies behind the end.
\<close>

fun verify_entries ::
  "(bytes \<Rightarrow> chunk_hash) \<Rightarrow> hex_api \<Rightarrow> bytes \<Rightarrow> chunk_entry list \<Rightarrow> (casync_error, unit) outcome" where
  "verify_entries sha api d [] = Done ()"
| "verify_entries sha api d (e # es) =
     (let end_pos = unat (ce_offset e + ucast (ce_size e));
          start = unat (ce_offset e)
      in if end_pos > length d
         then Fail (InvalidIndex (''Chunk at offset '' @ show_nat start @
                '' extends beyond data length '' @ show_nat (length d)))
         else if start > end_pos then Panic
         else let hash = sha (take (end_pos - start) (drop start d))
              in if hash \<noteq> ce_sha256 e
                 then Fail (HashMismatch (ce_offset e) (hex_encode api (ce_sha256 e))
                        (hex_encode api hash))
                 else verify_entries sha api d es)"

definition index_verify ::
  "(bytes \<Rightarrow> chunk_hash) \<Rightarrow> hex_api \<Rightarrow> caibx_index \<Rightarrow> bytes \<Rightarrow> (casync_error, unit) outcome" where
  "index_verify sha api ix d = verify_entries sha api d (ix_chunks ix)"

subsection \<open>The store\<close>

type_synonym chunk_path = "string \<times> string"
type_synonym chunk_files = "(chunk_path, bytes) hashmap"

record io_world =
  io_mkdir :: "string \<Rightarrow> bool"
  io_write :: "chunk_path \<Rightarrow> bool"
  io_read :: "chunk_path \<Rightarrow> bool"
  io_remove :: "chunk_path \<Rightarrow> bool"

datatype io_error = IoRefused | NotFound string

definition chunk_path_of :: "hex_api \<Rightarrow> chunk_hash \<Rightarrow> chunk_path" where
  "chunk_path_of api hash = (let hex = hex_encode api hash in (take 2 hex, hex))"

definition has_chunk :: "hex_api \<Rightarrow> chunk_hash \<Rightarrow> chunk_files \<Rightarrow> bool" where
  "has_chunk api hash files \<longleftrightarrow> map_of files (chunk_path_of api hash) \<noteq> None"

definition put_file :: "io_world \<Rightarrow> chunk_path \<Rightarrow> bytes \<Rightarrow> chunk_files \<Rightarrow> io_error + chunk_files" where
  "put_file io path d files =
     (if \<not> io_mkdir io (fst path) then Inl IoRefused
      else if \<not> io_write io path then Inl IoRefused
      else Inr (AList.update path d files))"

definition store_chunk ::
  "hex_api \<Rightarrow> io_world \<Rightarrow> chunk \<Rightarrow> chunk_files \<Rightarrow> io_error + bool \<times> chunk_files" where
  "store_chunk api io c files =
     (let path = chunk_path_of api (ck_hash c)
      in if map_of files path \<noteq> None then Inr (True, files)
         else case put_file io path (ck_data c) files of
                Inl e \<Rightarrow> Inl e
              | Inr files' \<Rightarrow> Inr (False, files'))"

fun store_all ::
  "hex_api \<Rightarrow> io_world \<Rightarrow> (chunk_hash \<times> bytes) list \<Rightarrow> chunk_files \<Rightarrow> io_error + chunk_files" where
  "store_all api io [] files = Inr files"
| "store_all api io ((hash, d) # cs) files =
     (let path = chunk_path_of api hash
      in if map_of files path \<noteq> None then store_all api io cs files
         else case put_file io path d files of
                Inl e \<Rightarrow> Inl e
              | Inr files' \<Rightarrow> store_all api io cs files')"

fun reconstruct_entries ::
  "hex_api \<Rightarrow> io_world \<Rightarrow> chunk_files \<Rightarrow> chunk_entry list \<Rightarrow> bytes \<Rightarrow> io_error + bytes" where
  "reconstruct_entries api io files [] output = Inr output"
| "reconstruct_entries api io files (e # es) output =
     (let path = chunk_path_of api (ce_sha256 e)
      in case map_of files path of
           None \<Rightarrow>
             Inl (NotFound (''Missing chunk: '' @ hex_encode api (ce_sha256 e) @
               '' at offset '' @ show_nat (unat (ce_offset e))))
         | Some d \<Rightarrow>
             if \<not> io_read io path then Inl IoRefused
             else reconstruct_entries api io files es (output @ d))"

definition reconstruct :: "hex_api \<Rightarrow> io_world \<Rightarrow> chunk_files \<Rightarrow> caibx_index \<Rightarrow> io_error + bytes" where
  "reconstruct api io files ix = reconstruct_entries api io files (ix_chunks ix) []"

definition store_from_index ::
  "hex_api \<Rightarrow> io_world \<Rightarrow> caibx_index \<Rightarrow> (chunk_hash \<times> bytes) list \<Rightarrow> chunk_files \<Rightarrow>
   (io_error + bytes) \<times> chunk_files" where
  "store_from_index api io ix chunks files =
     (case store_all api io chunks files of
        Inl e \<Rightarrow> (Inl e, files)
      | Inr files' \<Rightarrow> (reconstruct api io files' ix, files'))"

definition check_chunks ::
  "hex_api \<Rightarrow> chunk_files \<Rightarrow> caibx_index \<Rightarrow> chunk_hash list \<times> chunk_hash list" where
  "check_chunks api files ix =
     (let hashes = map ce_sha256 (ix_chunks ix)
      in (filter (\<lambda>h. has_chunk api h files) hashes, filter (\<lambda>h. \<not> has_chunk api h files) hashes))"

fun cleanup_paths ::
  "hex_api \<Rightarrow> io_world \<Rightarrow> chunk_hash list \<Rightarrow> chunk_path list \<Rightarrow> u32 \<Rightarrow> chunk_files \<Rightarrow>
   (io_error + u32) \<times> chunk_files" where
  "cleanup_paths api io refs [] removed files = (Inr removed, files)"
| "cleanup_paths api io refs (p # ps) removed files =
     (case hex_decode api (snd p) of
        None \<Rightarrow> cleanup_paths api io refs ps removed files
      | Some hash \<Rightarrow>
          if length hash = 32 \<and> hash \<notin> set refs then
            (if io_remove io p
             then cleanup_paths api io refs ps (removed + 1) (AList.delete p files)
             else (Inl IoRefused, files))
          else cleanup_paths api io refs ps removed files)"

definition cleanup ::
  "hex_api \<Rightarrow> io_world \<Rightarrow> (chunk_path list \<Rightarrow> chunk_path list) \<Rightarrow> chunk_hash list \<Rightarrow> bool \<Rightarrow>
   chunk_files \<Rightarrow> (io_error + u32) \<times> chunk_files" where
  "cleanup api io order refs dir_exists files =
     (if \<not> dir_exists then (Inr 0, files)
      else cleanup_paths api io refs (order (keys files)) 0 files)"

definition get_chunk_data ::
  "hex_api \<Rightarrow> io_world \<Rightarrow> chunk_files \<Rightarrow> chunk_hash \<Rightarrow> io_error + bytes" where
  "get_chunk_data api io files hash =
     (let path = chunk_path_of api hash
      in case map_of files path of
           None \<Rightarrow> Inl IoRefused
         | Some d \<Rightarrow> if io_read io path then Inr d else Inl IoRefused)"

subsection \<open>Verification\<close>

text \<open>
  The hypothesis about SHA-256: nothing else hashes to the hash of the chunk. Sizes are below
  what the index can store.
\<close>

definition no_collision :: "(bytes \<Rightarrow> chunk_hash) \<Rightarrow> chunk list \<Rightarrow> bool" where
  "no_collision sha cs \<longleftrightarrow> (\<forall>c \<in> set cs. \<forall>y. sha y = sha (ck_data c) \<longrightarrow> y = ck_data c)"

definition sizes_fit :: "bytes \<Rightarrow> chunk list \<Rightarrow> bool" where
  "sizes_fit d cs \<longleftrightarrow> length d < 2 ^ 64 \<and> (\<forall>c \<in> set cs. length (ck_data c) < 2 ^ 32)"

lemma slice_fits:
  assumes "take (length ys) (drop p xs) = ys" "ys \<noteq> []"
  shows "p + length ys \<le> length xs"
proof -
  have "min (length xs - p) (length ys) = length ys"
    using arg_cong [OF assms(1), of length] by simp
  then have "length ys \<le> length xs - p" by (metis min.cobounded1)
  moreover have "0 < length ys" using assms(2) by simp
  ultimately show ?thesis by linarith
qed

context chunking
begin

lemma entry_numbers:
  assumes "sizes_fit d (cut d)" "cut d = pre @ c # post"
  shows "unat (ck_offset c) = length (concat (map ck_data pre))"
    and "unat (ck_offset c + ucast (ck_size c)) = unat (ck_offset c) + length (ck_data c)"
proof -
  have d: "length d < 2 ^ 64" and c: "length (ck_data c) < 2 ^ 32"
    using assms by (auto simp: sizes_fit_def)
  note o = cut_offset [OF d assms(2)]
  show "unat (ck_offset c) = length (concat (map ck_data pre))" by (rule o(1))
  have "unat (ck_size c) = length (ck_data c)"
    using c cut_size [of c d] assms(2) by (simp add: unat_of_nat take_bit_nat_eq_self)
  then have s: "unat (ucast (ck_size c) :: u64) = length (ck_data c)"
    using c by (simp add: unsigned_ucast_eq take_bit_nat_eq_self)
  have "unat (ck_offset c) + unat (ucast (ck_size c) :: u64) < 2 ^ LENGTH(64)"
    using o(2) d by (simp add: s)
  then have "unat (ck_offset c + ucast (ck_size c)) = unat (ck_offset c) + unat (ucast (ck_size c) :: u64)"
    by (simp only: unat_add_lem)
  then show "unat (ck_offset c + ucast (ck_size c)) = unat (ck_offset c) + length (ck_data c)"
    by (simp only: s)
qed

lemma verify_cut:
  assumes fit: "sizes_fit d (cut d)" and nc: "no_collision sha (cut d)"
  shows "cut d = pre @ cs \<Longrightarrow> take (length (concat (map ck_data pre))) d' = concat (map ck_data pre) \<Longrightarrow>
    verify_entries sha api d' (map entry_of_chunk cs) = Done () \<longleftrightarrow> (\<exists>extra. d' = d @ extra)"
proof (induction cs arbitrary: pre)
  case Nil
  then have "concat (map ck_data pre) = d" using cut_concat [of d] by simp
  with Nil(2) show ?case
    by simp (metis append_eq_conv_conj append_take_drop_id)
next
  case (Cons c cs)
  let ?p = "length (concat (map ck_data pre))" and ?n = "length (ck_data c)"
  note num = entry_numbers [OF fit Cons.prems(1)]
  have hash: "ck_hash c = sha (ck_data c)"
    using cut_hash [of c d] Cons.prems(1) by simp
  have d: "d = concat (map ck_data pre) @ ck_data c @ concat (map ck_data cs)"
    by (rule cut_split [OF Cons.prems(1)])
  have step: "verify_entries sha api d' (map entry_of_chunk (c # cs)) =
      (if ?p + ?n > length d' then Fail (InvalidIndex (''Chunk at offset '' @ show_nat ?p @
          '' extends beyond data length '' @ show_nat (length d')))
       else if sha (take ?n (drop ?p d')) \<noteq> sha (ck_data c)
       then Fail (HashMismatch (ck_offset c) (hex_encode api (ck_hash c))
          (hex_encode api (sha (take ?n (drop ?p d')))))
       else verify_entries sha api d' (map entry_of_chunk cs))"
    by (simp add: entry_of_chunk_def num hash Let_def del: length_concat)
  show ?case
  proof (cases "take ?n (drop ?p d') = ck_data c")
    case True
    then have len: "?p + ?n \<le> length d'"
      using slice_fits [OF True] cut_nonempty [of c d] Cons.prems(1) by simp
    have "take (length (concat (map ck_data (pre @ [c])))) d' = concat (map ck_data (pre @ [c]))"
      using Cons.prems(2) True by (simp add: take_add del: length_concat)
    from Cons.IH [OF _ this] Cons.prems(1) True len show ?thesis
      unfolding step by (simp del: length_concat)
  next
    case False
    then have "sha (take ?n (drop ?p d')) \<noteq> sha (ck_data c)"
      using nc Cons.prems(1) by (auto simp: no_collision_def)
    moreover have "\<not> (\<exists>extra. d' = d @ extra)"
      using False by (auto simp: d)
    ultimately show ?thesis unfolding step by simp
  qed
qed

end

lemma chunk_bytes_cases:
  assumes "chunk_bytes sha strategy d = Done cs"
  obtains cut where "chunking cut sha" "cs = cut d"
proof (cases strategy)
  case (Fixed n)
  with assms have n: "n \<noteq> 0" by (auto simp: chunk_bytes_def chunk_fixed_def split: if_splits)
  then obtain m where "n = Suc m" by (cases n) auto
  with assms Fixed have "cs = fixed_chunks sha m d"
    by (simp add: chunk_bytes_def chunk_fixed_Suc)
  with fixed.chunking_axioms that show thesis by blast
next
  case (GearHash mn mx msk)
  with assms have "cs = chunk_gear sha d mn mx msk" by (simp add: chunk_bytes_def)
  with gear.chunking_axioms that [of "\<lambda>d. chunk_gear sha d mn mx msk"] show thesis by blast
qed

text \<open>
  Verification against a file's own index accepts exactly the data that begin with
  the file: any change inside is caught, and any bytes appended behind it are not, since the
  total size is not compared.
\<close>

lemma verify_accepts_extensions:
  assumes "chunk_bytes sha strategy d = Done cs" "sizes_fit d cs" "no_collision sha cs"
  shows "index_verify sha api (from_chunks cs target) d' = Done () \<longleftrightarrow> (\<exists>extra. d' = d @ extra)"
proof -
  obtain cut where c: "chunking cut sha" "cs = cut d"
    by (rule chunk_bytes_cases [OF assms(1)])
  have "verify_entries sha api d' (map entry_of_chunk cs) = Done () \<longleftrightarrow> (\<exists>extra. d' = d @ extra)"
    by (rule chunking.verify_cut [OF c(1), where pre = "[]"])
      (use assms(2,3) c(2) in simp_all)
  then show ?thesis
    unfolding index_verify_def from_chunks_def by (simp only: caibx_index.select_convs)
qed

text \<open>A concrete hexadecimal notation, for the witnesses: two letters per byte.\<close>

definition letters_encode :: "bytes \<Rightarrow> string" where
  "letters_encode bs = concat (map (\<lambda>b. [char_of (65 + unat b div 16), char_of (65 + unat b mod 16)]) bs)"

fun letters_decode :: "string \<Rightarrow> bytes option" where
  "letters_decode [] = Some []"
| "letters_decode [c] = None"
| "letters_decode (c # d # s) =
     map_option ((#) (of_nat ((of_char c - 65) * 16 + (of_char d - 65)))) (letters_decode s)"

definition letters_api :: hex_api where
  "letters_api = \<lparr>hex_encode = letters_encode, hex_decode = letters_decode\<rparr>"

lemma letters_ok: "hex_ok letters_api"
proof -
  have "letters_decode (letters_encode bs) = Some bs" for bs
  proof (induction bs)
    case (Cons b bs)
    have b: "unat b < 256" using unsigned_less [of b] by simp
    then have "(65 + unat b div 16) mod 256 = 65 + unat b div 16" by simp
    moreover have "(65 + unat b mod 16) mod 256 = 65 + unat b mod 16" by simp
    ultimately have "letters_decode (letters_encode (b # bs)) =
        map_option ((#) (of_nat (unat b div 16 * 16 + unat b mod 16))) (letters_decode (letters_encode bs))"
      by (simp add: letters_encode_def of_char_of)
    with Cons show ?case by simp
  qed (simp add: letters_encode_def)
  then show ?thesis by (simp add: hex_ok_def letters_api_def)
qed

definition free_io :: io_world where
  "free_io = \<lparr>io_mkdir = \<lambda>_. True, io_write = \<lambda>_. True, io_read = \<lambda>_. True, io_remove = \<lambda>_. True\<rparr>"

lemma verify_accepts_extensions_witness:
  "index_verify id letters_api (from_chunks (fixed_chunks id 1 [1, 2, 3]) 2) [1, 2, 3, 4] = Done () \<and>
   index_verify id letters_api (from_chunks (fixed_chunks id 1 [1, 2, 3]) 2) [1, 5, 3] \<noteq> Done ()"
proof -
  have c: "chunk_bytes id (Fixed 2) [1, 2, 3] = Done (fixed_chunks id 1 [1, 2, 3])"
    using chunk_fixed_Suc [of id "[1, 2, 3]" 1] by (simp add: chunk_bytes_def numeral_2_eq_2)
  have "map ck_data (fixed_chunks id 1 [1, 2, 3]) = [[1, 2], [3]]"
    by (simp add: fixed_chunks_def slices_of.simps chunk_new_def)
  then have "sizes_fit [1, 2, 3] (fixed_chunks id 1 [1, 2, 3])"
    by (auto simp: sizes_fit_def fixed_chunks_def slices_of.simps chunk_new_def)
  moreover have "no_collision id (fixed_chunks id 1 [1, 2, 3])"
    by (simp add: no_collision_def)
  ultimately show ?thesis
    using verify_accepts_extensions [OF c] by simp
qed

subsection \<open>Storing and reconstructing\<close>

text \<open>
  The invariant of a store: every file holds the data its name is the hash of. A trusting
  file system does every operation.
\<close>

definition store_ok :: "(bytes \<Rightarrow> chunk_hash) \<Rightarrow> hex_api \<Rightarrow> chunk_files \<Rightarrow> bool" where
  "store_ok sha api files \<longleftrightarrow>
     (\<forall>p d. map_of files p = Some d \<longrightarrow> p = chunk_path_of api (sha d))"

definition io_free :: "io_world \<Rightarrow> bool" where
  "io_free io \<longleftrightarrow> io_mkdir io = (\<lambda>_. True) \<and> io_write io = (\<lambda>_. True) \<and>
     io_read io = (\<lambda>_. True) \<and> io_remove io = (\<lambda>_. True)"

lemma put_file_free: "io_free io \<Longrightarrow> put_file io p d files = Inr (AList.update p d files)"
  and read_free: "io_free io \<Longrightarrow> io_read io p"
  unfolding io_free_def put_file_def by simp_all

lemma chunk_path_inj: "hex_ok api \<Longrightarrow> chunk_path_of api h = chunk_path_of api h' \<longleftrightarrow> h = h'"
  unfolding chunk_path_of_def Let_def hex_ok_def by (metis option.inject prod.inject)

lemma store_okD:
  assumes "store_ok sha api files" "hex_ok api" "map_of files (chunk_path_of api h) = Some d"
  shows "sha d = h"
proof -
  have "chunk_path_of api h = chunk_path_of api (sha d)"
    using assms(1,3) unfolding store_ok_def by blast
  with chunk_path_inj [OF assms(2)] show ?thesis by metis
qed

lemma store_ok_update:
  "store_ok sha api files \<Longrightarrow> sha d = h \<Longrightarrow>
   store_ok sha api (AList.update (chunk_path_of api h) d files)"
  unfolding store_ok_def map_of_update by auto

lemma store_all_ok:
  assumes "io_free io" "hex_ok api"
  shows "store_ok sha api files \<Longrightarrow> \<forall>(h, d) \<in> set cs. sha d = h \<Longrightarrow>
    \<exists>files'. store_all api io cs files = Inr files' \<and> store_ok sha api files' \<and>
      (\<forall>h. has_chunk api h files' \<longleftrightarrow> has_chunk api h files \<or> h \<in> fst ` set cs)"
proof (induction cs arbitrary: files)
  case (Cons p cs)
  obtain h d where p: "p = (h, d)" by fastforce
  show ?case
  proof (cases "map_of files (chunk_path_of api h)")
    case (Some d')
    with Cons.IH [OF Cons.prems(1)] Cons.prems(2) p show ?thesis
      by (auto simp: has_chunk_def)
  next
    case None
    let ?files = "AList.update (chunk_path_of api h) d files"
    have "store_ok sha api ?files"
      using Cons.prems p by (intro store_ok_update) auto
    from Cons.IH [OF this] Cons.prems(2) obtain files' where
        f: "store_all api io cs ?files = Inr files'" "store_ok sha api files'"
        "\<And>g. has_chunk api g files' \<longleftrightarrow> has_chunk api g ?files \<or> g \<in> fst ` set cs"
      by auto
    have "has_chunk api g ?files \<longleftrightarrow> has_chunk api g files \<or> g = h" for g
      using chunk_path_inj [OF assms(2), of g h] by (auto simp: has_chunk_def map_of_update)
    with f None put_file_free [OF assms(1)] show ?thesis by (simp add: p Let_def)
  qed
qed simp

lemma reconstruct_entries_ok:
  assumes "io_free io" "hex_ok api" "store_ok sha api files" "no_collision sha cs"
  shows "\<forall>c \<in> set cs. ck_hash c = sha (ck_data c) \<and> has_chunk api (ck_hash c) files \<Longrightarrow>
    reconstruct_entries api io files (map entry_of_chunk cs) out = Inr (out @ concat (map ck_data cs))"
  using assms(4)
proof (induction cs arbitrary: out)
  case (Cons c cs)
  then obtain d where d: "map_of files (chunk_path_of api (ck_hash c)) = Some d"
    by (auto simp: has_chunk_def)
  from store_okD [OF assms(3,2) d] Cons.prems have "d = ck_data c"
    by (auto simp: no_collision_def)
  have "no_collision sha cs" using Cons.prems(2) by (simp add: no_collision_def)
  with Cons.prems(1) have "reconstruct_entries api io files (map entry_of_chunk cs) (out @ ck_data c) =
      Inr ((out @ ck_data c) @ concat (map ck_data cs))"
    by (intro Cons.IH) auto
  with d \<open>d = ck_data c\<close> read_free [OF assms(1)] show ?case
    by (simp add: entry_of_chunk_def [of c])
qed simp

lemma chunk_bytes_facts:
  assumes "chunk_bytes sha strategy d = Done cs"
  shows "concat (map ck_data cs) = d" "\<forall>c \<in> set cs. ck_hash c = sha (ck_data c)"
proof -
  obtain cut where c: "chunking cut sha" "cs = cut d"
    by (rule chunk_bytes_cases [OF assms])
  show "concat (map ck_data cs) = d"
    unfolding c(2) by (rule chunking.cut_concat [OF c(1)])
  show "\<forall>c \<in> set cs. ck_hash c = sha (ck_data c)"
    unfolding c(2) using chunking.cut_hash [OF c(1)] by blast
qed

text \<open>
  Property C11. A delta update is complete: when the store has every chunk of the old version
  and the chunks of the difference are supplied under their own hashes, storing them and
  assembling the new index gives back the new file, byte for byte. Assumed are file operations
  that are never refused (\<open>io_free\<close>), hexadecimal text that reads back (\<open>hex_ok\<close>), a store in which
  every file holds the chunk its name says (\<open>store_ok\<close>), and a hash without collisions on the
  chunks of the new file (\<open>no_collision\<close>).
\<close>

theorem delta_update_reconstructs:
  assumes "io_free io" "hex_ok api" "store_ok sha api files"
    and "chunk_bytes sha strategy d = Done cs" "no_collision sha cs"
    and "\<forall>e \<in> set (ix_chunks old). has_chunk api (ce_sha256 e) files"
    and "\<forall>(h, x) \<in> set supplied. sha x = h"
    and "set (index_diff old (from_chunks cs target)) \<subseteq> fst ` set supplied"
  shows "fst (store_from_index api io (from_chunks cs target) supplied files) = Inr d"
proof -
  note facts = chunk_bytes_facts [OF assms(4)]
  obtain files' where f: "store_all api io supplied files = Inr files'" "store_ok sha api files'"
      "\<And>h. has_chunk api h files' \<longleftrightarrow> has_chunk api h files \<or> h \<in> fst ` set supplied"
    using store_all_ok [OF assms(1,2,3,7)] by blast
  have "has_chunk api (ck_hash c) files'" if "c \<in> set cs" for c
  proof (cases "ck_hash c \<in> ce_sha256 ` set (ix_chunks old)")
    case True
    with assms(6) show ?thesis by (auto simp: f(3))
  next
    case False
    with that have "ck_hash c \<in> set (index_diff old (from_chunks cs target))"
      by (force simp: index_diff_def Let_def from_chunks_def entry_of_chunk_def)
    with assms(8) show ?thesis by (auto simp: f(3))
  qed
  with facts(2) have "\<forall>c \<in> set cs. ck_hash c = sha (ck_data c) \<and> has_chunk api (ck_hash c) files'"
    by blast
  from reconstruct_entries_ok [OF assms(1,2) f(2) assms(5) this, of "[]"] facts(1)
  show ?thesis by (simp add: store_from_index_def f(1) reconstruct_def from_chunks_def)
qed

theorem delta_update_reconstructs_witness:
  "let old = from_chunks (fixed_chunks id 1 [1, 2, 9]) 2;
       new = from_chunks (fixed_chunks id 1 [1, 2, 3]) 2;
       files = [(chunk_path_of letters_api [1, 2], [1, 2]), (chunk_path_of letters_api [9], [9])]
   in fst (store_from_index letters_api free_io new [([3], [3])] files) = Inr [1, 2, 3]"
proof -
  let ?files = "[(chunk_path_of letters_api [1, 2], [1, 2]), (chunk_path_of letters_api [9], [9])]"
  have c: "chunk_bytes id (Fixed 2) [1, 2, 3] = Done (fixed_chunks id 1 [1, 2, 3])"
    using chunk_fixed_Suc [of id "[1, 2, 3]" 1] by (simp add: chunk_bytes_def numeral_2_eq_2)
  have cut: "fixed_chunks id (Suc 0) [1, 2, x] = [chunk_new id 0 [1, 2], chunk_new id 2 [x]]" for x
    by (simp add: fixed_chunks_def slices_of.simps)
  have "fst (store_from_index letters_api free_io (from_chunks (fixed_chunks id 1 [1, 2, 3]) 2)
      [([3], [3])] ?files) = Inr [1, 2, 3]"
  proof (rule delta_update_reconstructs [OF _ letters_ok _ c])
    show "io_free free_io" by (simp add: io_free_def free_io_def)
    show "store_ok id letters_api ?files" by (auto simp: store_ok_def split: if_splits)
    show "no_collision id (fixed_chunks id 1 [1, 2, 3])" by (simp add: no_collision_def)
    show "\<forall>e \<in> set (ix_chunks (from_chunks (fixed_chunks id 1 [1, 2, 9]) 2)).
        has_chunk letters_api (ce_sha256 e) ?files"
      by (auto simp: from_chunks_def cut entry_of_chunk_def chunk_new_def has_chunk_def)
    show "set (index_diff (from_chunks (fixed_chunks id 1 [1, 2, 9]) 2)
        (from_chunks (fixed_chunks id 1 [1, 2, 3]) 2)) \<subseteq> fst ` set [([3], [3])]"
      by (auto simp: index_diff_def from_chunks_def cut entry_of_chunk_def chunk_new_def Let_def)
  qed simp
  then show ?thesis by (simp only: Let_def)
qed

subsection \<open>Cleaning up\<close>

lemma cleanup_paths_removes:
  assumes "io_free io"
  shows "\<exists>n. cleanup_paths api io refs ps removed files =
    (Inr n, fold AList.delete (filter (\<lambda>p. \<exists>h. hex_decode api (snd p) = Some h \<and> length h = 32 \<and>
       h \<notin> set refs) ps) files)"
  using assms
  by (induction ps arbitrary: removed files) (auto simp: io_free_def split: option.splits)

text \<open>
  Property C28. Cleaning up removes exactly the files whose names are hashes that are not
  referenced; so every index all of whose hashes are referenced still reconstructs to the
  same result. Assumed are file operations that are never refused (\<open>io_free\<close>), hexadecimal text
  that reads back (\<open>hex_ok\<close>), and a directory listing that names every file once, in any order
  (\<open>fair_order\<close>).
\<close>

theorem cleanup_keeps_referenced:
  assumes "io_free io" "hex_ok api" "fair_order order"
    and "set (map ce_sha256 (ix_chunks ix)) \<subseteq> set refs"
  shows "\<exists>n files'. cleanup api io order refs True files = (Inr n, files') \<and>
    (\<forall>p. map_of files' p =
       (if \<exists>h. hex_decode api (snd p) = Some h \<and> length h = 32 \<and> h \<notin> set refs
        then None else map_of files p)) \<and>
    reconstruct api io files' ix = reconstruct api io files ix"
proof -
  let ?orphan = "\<lambda>p. \<exists>h. hex_decode api (snd p) = Some h \<and> length h = 32 \<and> h \<notin> set refs"
  let ?files = "fold AList.delete (filter ?orphan (order (keys files))) files"
  obtain n where n: "cleanup api io order refs True files = (Inr n, ?files)"
    using cleanup_paths_removes [OF assms(1), of api refs "order (keys files)" 0 files]
    unfolding cleanup_def by auto
  have look: "map_of ?files p = (if ?orphan p then None else map_of files p)" for p
  proof -
    have "map_of ?files p = (if p \<in> set (filter ?orphan (order (keys files))) then None else map_of files p)"
      by (rule hash_store.lookup_remove_all)
    then show ?thesis
      using assms(3) by (auto simp: set_keys)
  qed
  have same: "map_of ?files (chunk_path_of api h) = map_of files (chunk_path_of api h)" if "h \<in> set refs" for h
    using that assms(2) by (auto simp: look chunk_path_of_def Let_def hex_ok_def)
  have "reconstruct_entries api io ?files es out = reconstruct_entries api io files es out"
    if "set (map ce_sha256 es) \<subseteq> set refs" for es out
    using that
  proof (induction es arbitrary: out)
    case (Cons e es)
    then have "map_of ?files (chunk_path_of api (ce_sha256 e)) = map_of files (chunk_path_of api (ce_sha256 e))"
      by (intro same) simp
    with Cons show ?case by (simp add: Let_def split: option.split)
  qed simp
  from this [OF assms(4)] have "reconstruct api io ?files ix = reconstruct api io files ix"
    by (simp add: reconstruct_def)
  with n look show ?thesis by blast
qed

theorem cleanup_keeps_referenced_witness:
  "let h = replicate 32 1; g = replicate 32 2;
       ix = \<lparr>ix_magic = caibx_magic, ix_version = 1, ix_chunk_size_target = 2, ix_total_size = 1,
             ix_chunks = [\<lparr>ce_offset = 0, ce_size = 1, ce_sha256 = h\<rparr>]\<rparr>;
       files = [(chunk_path_of letters_api h, [7]), (chunk_path_of letters_api g, [8])]
   in \<exists>n files'. cleanup letters_api free_io rev [h] True files = (Inr n, files') \<and>
        map_of files' (chunk_path_of letters_api g) = None \<and>
        reconstruct letters_api free_io files' ix = reconstruct letters_api free_io files ix"
proof -
  let ?h = "replicate 32 1 :: bytes" and ?g = "replicate 32 2 :: bytes"
  let ?ix = "\<lparr>ix_magic = caibx_magic, ix_version = 1, ix_chunk_size_target = 2, ix_total_size = 1,
    ix_chunks = [\<lparr>ce_offset = 0, ce_size = 1, ce_sha256 = ?h\<rparr>]\<rparr> :: caibx_index"
  let ?files = "[(chunk_path_of letters_api ?h, [7]), (chunk_path_of letters_api ?g, [8])] :: chunk_files"
  have "io_free free_io" by (simp add: io_free_def free_io_def)
  from cleanup_keeps_referenced [OF this letters_ok fair_order_rev(1), of ?ix "[?h]" ?files]
  obtain n files' where c: "cleanup letters_api free_io rev [?h] True ?files = (Inr n, files')"
      and m: "\<forall>p. map_of files' p = (if \<exists>k. hex_decode letters_api (snd p) = Some k \<and> length k = 32 \<and>
        k \<notin> set [?h] then None else map_of ?files p)"
      and r: "reconstruct letters_api free_io files' ?ix = reconstruct letters_api free_io ?files ?ix"
    by auto
  have "hex_decode letters_api (snd (chunk_path_of letters_api ?g)) = Some ?g"
    using letters_ok by (simp add: chunk_path_of_def hex_ok_def Let_def)
  moreover have "?g \<notin> set [?h]" by (simp add: numeral_eq_Suc)
  ultimately have "map_of files' (chunk_path_of letters_api ?g) = None"
    using m [THEN spec, of "chunk_path_of letters_api ?g"] by simp
  with c r show ?thesis by (simp only: Let_def) blast
qed

subsection \<open>Index files\<close>

lemma sorted_by_offsetI:
  "(\<And>pre a b post. es = pre @ a # b # post \<Longrightarrow> ce_offset a < ce_offset b) \<Longrightarrow> sorted_by_offset es"
proof (induction es rule: sorted_by_offset.induct)
  case (1 a b es)
  have "ce_offset a < ce_offset b" using 1(2) [of "[]"] by simp
  moreover have "sorted_by_offset (b # es)"
  proof (rule 1(1))
    fix pre x y post assume "b # es = pre @ x # y # post"
    then show "ce_offset x < ce_offset y" using 1(2) [of "a # pre"] by simp
  qed
  ultimately show ?case by simp
qed simp_all

context chunking
begin

lemma cut_index_sorted:
  assumes "length d < 2 ^ 64"
  shows "sorted_by_offset (map entry_of_chunk (cut d))"
proof (rule sorted_by_offsetI)
  fix pre a b post assume "map entry_of_chunk (cut d) = pre @ a # b # post"
  then obtain pre' a' b' post' where "cut d = pre' @ a' # b' # post'"
      "a = entry_of_chunk a'" "b = entry_of_chunk b'"
    by (auto simp: map_eq_append_conv map_eq_Cons_conv)
  then show "ce_offset a < ce_offset b"
    using cut_offsets_increasing [OF assms, of pre' a' "[]" b' post'] by (simp add: entry_of_chunk_def)
qed

end

text \<open>
  An index the chunker makes survives saving and loading: what \<open>to_bytes\<close> writes,
  \<open>from_bytes\<close> accepts and gives back unchanged.
\<close>

lemma index_file_roundtrip:
  assumes "chunk_bytes sha strategy d = Done cs" "length d < 2 ^ 64"
    and "\<And>b. into_cbor (from_chunks cs target) = Some b \<Longrightarrow> from_cbor b = Some (from_chunks cs target)"
    and "index_to_bytes into_cbor (from_chunks cs target) = Inr b"
  shows "index_from_bytes from_cbor b = Inr (from_chunks cs target)"
proof -
  obtain cut where c: "chunking cut sha" "cs = cut d"
    by (rule chunk_bytes_cases [OF assms(1)])
  have "sorted_by_offset (map entry_of_chunk cs)"
    using chunking.cut_index_sorted [OF c(1) assms(2)] c(2) by simp
  moreover have "from_cbor b = Some (from_chunks cs target)"
    using assms(3,4) by (auto simp: index_to_bytes_def split: option.splits)
  ultimately show ?thesis
    by (simp add: index_from_bytes_def from_chunks_def)
qed

lemma index_file_roundtrip_witness:
  "let ix = from_chunks (fixed_chunks id 1 [1, 2, 3]) 2
   in index_from_bytes (\<lambda>b. if b = [7] then Some ix else None) [7] = Inr ix"
proof -
  have c: "chunk_bytes id (Fixed 2) [1, 2, 3] = Done (fixed_chunks id 1 [1, 2, 3])"
    using chunk_fixed_Suc [of id "[1, 2, 3]" 1] by (simp add: chunk_bytes_def numeral_2_eq_2)
  show ?thesis
    unfolding Let_def
    by (rule index_file_roundtrip [OF c, where into_cbor = "\<lambda>_. Some [7]"])
      (simp_all add: index_to_bytes_def)
qed

text \<open>
  The bytes to download count a repeated chunk as often as it occurs, although it
  is downloaded once: a new file of two equal chunks reports one missing chunk and twice its
  size.
\<close>

lemma repeated_chunk_counted_twice:
  "index_delta_stats (from_chunks [] target)
     (from_chunks [chunk_new sha 0 x, chunk_new sha (of_nat (length x)) x] target) =
   \<lparr>ds_total_chunks = 2, ds_missing_chunks = 1,
    ds_total_bytes = 2 * ucast (of_nat (length x) :: u32),
    ds_missing_bytes = 2 * ucast (of_nat (length x) :: u32)\<rparr>"
  by (simp add: index_delta_stats_def index_diff_def from_chunks_def entry_of_chunk_def
      chunk_new_def Let_def)

end
