(* ===== verification/UpdateVerify.thy ===== *)
theory UpdateVerify
  imports CasyncStore
begin

section \<open>update-verify: signed bundles and versions\<close>

text \<open>
  \<open>crates/update-verify/src/lib.rs\<close>: bundle metadata, the verifier with its trusted keys, the
  checks in their order, signing, and the version comparison. Ed25519 (crate ed25519-dalek),
  JSON (crate serde_json) and hexadecimal text are parameters; the clock is an argument.
\<close>

record file_entry =
  fe_path :: string
  fe_sha256 :: string
  fe_size :: u64

record bundle_metadata =
  bm_version :: string
  bm_device :: string
  bm_timestamp :: u64
  bm_channel :: string
  bm_critical :: bool
  bm_description :: string
  bm_download_url :: "string option"
  bm_caibx_url :: "string option"
  bm_rootfs_sha256 :: string
  bm_rootfs_size :: u64
  bm_files :: "file_entry list"

record 'j signed_bundle =
  sb_data :: 'j
  sb_signature :: string
  sb_public_key :: "string option"

record 'k bundle_verifier =
  bv_trusted_keys :: "'k list"
  bv_max_age_secs :: u64
  bv_allowed_devices :: "string list"

datatype verify_error =
    VeIo
  | VeJson
  | SignatureInvalid string
  | VeHashMismatch string string string
  | Expired u64 u64
  | Downgrade string string
  | IncompatibleDevice string
  | InvalidSignature string

text \<open>What the crates provide: JSON texts of values, and keys that sign and verify.\<close>

record ('j, 'sk, 'k) crypto_api =
  ca_to_vec :: "'j \<Rightarrow> bytes option"
  ca_from_value :: "'j \<Rightarrow> bundle_metadata option"
  ca_to_value :: "bundle_metadata \<Rightarrow> 'j option"
  ca_key_from_bytes :: "bytes \<Rightarrow> 'k option"
  ca_key_bytes :: "'k \<Rightarrow> bytes"
  ca_secret_bytes :: "'sk \<Rightarrow> bytes"
  ca_secret_from_bytes :: "bytes \<Rightarrow> 'sk"
  ca_verifying_key :: "'sk \<Rightarrow> 'k"
  ca_sign :: "'sk \<Rightarrow> bytes \<Rightarrow> bytes"
  ca_verify_strict :: "'k \<Rightarrow> bytes \<Rightarrow> bytes \<Rightarrow> bool"

subsection \<open>Versions\<close>

definition parse_version :: "string \<Rightarrow> nat list" where
  "parse_version v = List.map_filter (parse_unsigned 32) (split_on CHR ''.'' v)"

text \<open>The loop over the components, from the first on; absent ones count as zero.\<close>

definition component :: "nat list \<Rightarrow> nat \<Rightarrow> nat" where
  "component v i = (if i < length v then v ! i else 0)"

fun compare_from :: "nat list \<Rightarrow> nat list \<Rightarrow> nat list \<Rightarrow> bool" where
  "compare_from c n [] = False"
| "compare_from c n (i # is) =
     (let cv = component c i; nv = component n i
      in if nv < cv then True else if nv > cv then False else compare_from c n is)"

definition is_downgrade :: "string \<Rightarrow> string \<Rightarrow> bool" where
  "is_downgrade current newer =
     (let c = parse_version current; n = parse_version newer
      in if c = [] \<or> n = [] then False
         else compare_from c n [0..<max (length c) (length n)])"

subsection \<open>The verifier\<close>

definition verifier_new ::
  "('j, 'sk, 'k) crypto_api \<Rightarrow> bytes \<Rightarrow> verify_error + 'k bundle_verifier" where
  "verifier_new api key_bytes =
     (case ca_key_from_bytes api key_bytes of
        None \<Rightarrow> Inl (InvalidSignature ''invalid key'')
      | Some key \<Rightarrow>
          Inr \<lparr>bv_trusted_keys = [key], bv_max_age_secs = 90 * 24 * 3600, bv_allowed_devices = []\<rparr>)"

definition add_key ::
  "('j, 'sk, 'k) crypto_api \<Rightarrow> bytes \<Rightarrow> 'k bundle_verifier \<Rightarrow> verify_error + 'k bundle_verifier" where
  "add_key api key_bytes v =
     (case ca_key_from_bytes api key_bytes of
        None \<Rightarrow> Inl (InvalidSignature ''invalid key'')
      | Some key \<Rightarrow> Inr (v\<lparr>bv_trusted_keys := bv_trusted_keys v @ [key]\<rparr>))"

fun add_keys ::
  "('j, 'sk, 'k) crypto_api \<Rightarrow> bytes list \<Rightarrow> 'k bundle_verifier \<Rightarrow> verify_error + 'k bundle_verifier" where
  "add_keys api [] v = Inr v"
| "add_keys api (b # bs) v = (case add_key api b v of Inl e \<Rightarrow> Inl e | Inr v' \<Rightarrow> add_keys api bs v')"

definition set_max_age :: "u64 \<Rightarrow> 'k bundle_verifier \<Rightarrow> 'k bundle_verifier" where
  "set_max_age secs v = v\<lparr>bv_max_age_secs := secs\<rparr>"

definition set_allowed_devices :: "string list \<Rightarrow> 'k bundle_verifier \<Rightarrow> 'k bundle_verifier" where
  "set_allowed_devices devices v = v\<lparr>bv_allowed_devices := devices\<rparr>"

fun any_key_verifies ::
  "('j, 'sk, 'k) crypto_api \<Rightarrow> bytes \<Rightarrow> bytes \<Rightarrow> 'k list \<Rightarrow> bool" where
  "any_key_verifies api d signature [] = False"
| "any_key_verifies api d signature (key # ks) =
     (if ca_verify_strict api key d signature then True else any_key_verifies api d signature ks)"

definition verify_bundle ::
  "('j, 'sk, 'k) crypto_api \<Rightarrow> hex_api \<Rightarrow> u64 \<Rightarrow> 'k bundle_verifier \<Rightarrow> 'j signed_bundle \<Rightarrow>
   string option \<Rightarrow> verify_error + bundle_metadata" where
  "verify_bundle api hex now v bundle current_version =
     (case ca_to_vec api (sb_data bundle) of
        None \<Rightarrow> Inl VeJson
      | Some data_bytes \<Rightarrow>
     (case hex_decode hex (sb_signature bundle) of
        None \<Rightarrow> Inl (InvalidSignature ''invalid hex'')
      | Some sig_bytes \<Rightarrow>
          if length sig_bytes \<noteq> 64 then Inl (InvalidSignature ''Expected 64 bytes'')
          else if \<not> any_key_verifies api data_bytes sig_bytes (bv_trusted_keys v)
          then Inl (SignatureInvalid ''No trusted key matches'')
          else
     (case ca_from_value api (sb_data bundle) of
        None \<Rightarrow> Inl VeJson
      | Some meta \<Rightarrow>
          if bv_allowed_devices v \<noteq> [] \<and> bm_device meta \<notin> set (bv_allowed_devices v)
          then Inl (IncompatibleDevice (bm_device meta))
          else if (case current_version of None \<Rightarrow> False
                   | Some current \<Rightarrow> is_downgrade current (bm_version meta))
          then Inl (Downgrade (bm_version meta) (the current_version))
          else if bm_timestamp meta + bv_max_age_secs v < now
          then Inl (Expired (bm_timestamp meta) (bv_max_age_secs v))
          else Inr meta)))"

definition verify_file_hash ::
  "(bytes \<Rightarrow> bytes) \<Rightarrow> hex_api \<Rightarrow> string \<Rightarrow> bytes \<Rightarrow> string \<Rightarrow> verify_error + unit" where
  "verify_file_hash sha hex path d expected =
     (let actual = hex_encode hex (sha d)
      in if actual \<noteq> expected then Inl (VeHashMismatch path expected actual) else Inr ())"

text \<open>A fresh key, in hexadecimal text: the secret half and the public half.\<close>

definition generate_keypair_hex ::
  "('j, 'sk, 'k) crypto_api \<Rightarrow> hex_api \<Rightarrow> 'sk \<Rightarrow> string \<times> string" where
  "generate_keypair_hex api hex fresh =
     (hex_encode hex (ca_secret_bytes api fresh),
      hex_encode hex (ca_key_bytes api (ca_verifying_key api fresh)))"

definition sign_bundle ::
  "('j, 'sk, 'k) crypto_api \<Rightarrow> hex_api \<Rightarrow> 'sk \<Rightarrow> bundle_metadata \<Rightarrow>
   verify_error + 'j signed_bundle" where
  "sign_bundle api hex signing_key meta =
     (case ca_to_value api meta of
        None \<Rightarrow> Inl VeJson
      | Some data_json \<Rightarrow>
          (case ca_to_vec api data_json of
             None \<Rightarrow> Inl VeJson
           | Some data_bytes \<Rightarrow>
               Inr \<lparr>sb_data = data_json,
                    sb_signature = hex_encode hex (ca_sign api signing_key data_bytes),
                    sb_public_key =
                      Some (hex_encode hex (ca_key_bytes api (ca_verifying_key api signing_key)))\<rparr>))"

subsection \<open>What is accepted\<close>

lemma add_keys_keeps: "add_keys api bs v = Inr v' \<Longrightarrow> set (bv_trusted_keys v) \<subseteq> set (bv_trusted_keys v')"
  by (induction api bs v rule: add_keys.induct) (auto simp: add_key_def split: option.splits sum.splits)

lemma any_key_verifies_iff:
  "any_key_verifies api d s ks \<longleftrightarrow> (\<exists>k \<in> set ks. ca_verify_strict api k d s)"
  by (induction ks) auto

text \<open>
  When a version is older than another, without the loop: both have a numeric part, and at the
  first component in which they differ its number is the smaller one.
\<close>

definition older :: "string \<Rightarrow> string \<Rightarrow> bool" where
  "older new cur \<longleftrightarrow>
     parse_version new \<noteq> [] \<and> parse_version cur \<noteq> [] \<and>
     (\<exists>i. component (parse_version new) i < component (parse_version cur) i \<and>
        (\<forall>j < i. component (parse_version new) j = component (parse_version cur) j))"

lemma first_from:
  assumes "a < (b :: nat)"
  shows "(\<exists>i. a \<le> i \<and> i < b \<and> L i \<and> (\<forall>j. a \<le> j \<and> j < i \<longrightarrow> E j)) \<longleftrightarrow>
    L a \<or> E a \<and> (\<exists>i. Suc a \<le> i \<and> i < b \<and> L i \<and> (\<forall>j. Suc a \<le> j \<and> j < i \<longrightarrow> E j))"
    (is "?l \<longleftrightarrow> ?r")
proof
  assume ?l
  then obtain i where i: "a \<le> i" "i < b" "L i" "\<And>j. a \<le> j \<Longrightarrow> j < i \<Longrightarrow> E j" by blast
  show ?r
  proof (cases "i = a")
    case False
    with i(1) have "Suc a \<le> i" by simp
    with i show ?thesis by (meson Suc_leD Suc_le_lessD order_refl)
  qed (use i in simp)
next
  assume ?r
  then show ?l
  proof
    assume "E a \<and> (\<exists>i. Suc a \<le> i \<and> i < b \<and> L i \<and> (\<forall>j. Suc a \<le> j \<and> j < i \<longrightarrow> E j))"
    then obtain i where i: "Suc a \<le> i" "i < b" "L i" "E a" "\<And>j. Suc a \<le> j \<Longrightarrow> j < i \<Longrightarrow> E j" by blast
    have "E j" if "a \<le> j" "j < i" for j
      using i(4,5) that by (cases "j = a") auto
    with i show ?l by (meson Suc_leD)
  qed (use assms in auto)
qed

lemma compare_from_first:
  "compare_from c n [a..<b] \<longleftrightarrow>
     (\<exists>i. a \<le> i \<and> i < b \<and> component n i < component c i \<and>
        (\<forall>j. a \<le> j \<and> j < i \<longrightarrow> component n j = component c j))"
proof (induction "b - a" arbitrary: a)
  case (Suc k)
  then have ab: "a < b" by simp
  then have "compare_from c n [a..<b] \<longleftrightarrow> component n a < component c a \<or>
      component n a = component c a \<and> compare_from c n [Suc a..<b]"
    by (simp add: upt_conv_Cons Let_def)
  with Suc show ?case by (simp add: first_from [OF ab])
qed simp

lemma is_downgrade_older: "is_downgrade cur new \<longleftrightarrow> older new cur"
proof -
  let ?c = "parse_version cur" and ?n = "parse_version new"
  have "component ?n i < component ?c i \<Longrightarrow> i < max (length ?c) (length ?n)" for i
    by (auto simp: component_def split: if_splits)
  then show ?thesis
    by (auto simp: is_downgrade_def older_def compare_from_first Let_def)
qed

text \<open>The age test adds two 64-bit numbers, and the sum wraps.\<close>

lemma age_wraps: "now \<le> t + limit \<longleftrightarrow> unat now \<le> (unat t + unat limit) mod 2 ^ 64"
  for now t limit :: u64
  by (simp add: word_le_nat_alt unat_word_ariths)

definition acceptable ::
  "('j, 'sk, 'k) crypto_api \<Rightarrow> hex_api \<Rightarrow> u64 \<Rightarrow> 'k bundle_verifier \<Rightarrow> 'j signed_bundle \<Rightarrow>
   string option \<Rightarrow> bundle_metadata \<Rightarrow> bool" where
  "acceptable api hex now v bundle current meta \<longleftrightarrow>
     (\<exists>d s k. ca_to_vec api (sb_data bundle) = Some d \<and> hex_decode hex (sb_signature bundle) = Some s \<and>
        length s = 64 \<and> k \<in> set (bv_trusted_keys v) \<and> ca_verify_strict api k d s) \<and>
     ca_from_value api (sb_data bundle) = Some meta \<and>
     (bv_allowed_devices v = [] \<or> bm_device meta \<in> set (bv_allowed_devices v)) \<and>
     (\<forall>c. current = Some c \<longrightarrow> \<not> older (bm_version meta) c) \<and>
     unat now \<le> (unat (bm_timestamp meta) + unat (bv_max_age_secs v)) mod 2 ^ 64"

text \<open>
  Property C23. A bundle is accepted exactly when a trusted key has signed the very text of its
  data with a signature of 64 bytes, the data parse, the device is allowed, the version is not
  older than the current one (at the first numeric component that differs; parts that are no
  numbers are skipped, and a version without any numeric part is neither older nor newer), and
  the clock has not passed the timestamp plus the age limit, a sum that is taken modulo 2 to
  the 64 as the release build does; what is returned is the signed metadata. A timestamp in the
  future is no ground for refusal, although the list of the pipeline's tests names one.
\<close>

theorem verify_bundle_iff:
  "verify_bundle api hex now v bundle current = Inr meta \<longleftrightarrow>
   acceptable api hex now v bundle current meta"
proof (cases "ca_to_vec api (sb_data bundle)")
  case None
  then show ?thesis by (simp add: verify_bundle_def acceptable_def)
next
  case d: (Some d)
  show ?thesis
  proof (cases "hex_decode hex (sb_signature bundle)")
    case None
    with d show ?thesis by (simp add: verify_bundle_def acceptable_def)
  next
    case (Some s)
    with d show ?thesis
      unfolding acceptable_def age_wraps [symmetric] is_downgrade_older [symmetric]
      by (auto simp: verify_bundle_def any_key_verifies_iff not_less
          split: option.splits if_splits)
  qed
qed

text \<open>
  The hypotheses about the crates: a signature verifies, keys read back from their bytes, and
  JSON round-trips.
\<close>

definition crypto_ok :: "('j, 'sk, 'k) crypto_api \<Rightarrow> bool" where
  "crypto_ok api \<longleftrightarrow>
     (\<forall>sk d. length (ca_sign api sk d) = 64 \<and>
        ca_verify_strict api (ca_verifying_key api sk) d (ca_sign api sk d)) \<and>
     (\<forall>sk. ca_secret_from_bytes api (ca_secret_bytes api sk) = sk) \<and>
     (\<forall>k. ca_key_from_bytes api (ca_key_bytes api k) = Some k) \<and>
     (\<forall>m j. ca_to_value api m = Some j \<longrightarrow> ca_from_value api j = Some m)"

text \<open>
  What \<open>sign_bundle\<close> produces, a verifier that trusts the signer's key accepts, as long as device,
  version and age are in order.
\<close>

lemma sign_verify:
  assumes "crypto_ok api" "hex_ok hex" "sign_bundle api hex sk meta = Inr bundle"
    and "ca_verifying_key api sk \<in> set (bv_trusted_keys v)"
    and "bv_allowed_devices v = [] \<or> bm_device meta \<in> set (bv_allowed_devices v)"
    and "\<forall>c. current = Some c \<longrightarrow> \<not> is_downgrade c (bm_version meta)"
    and "now \<le> bm_timestamp meta + bv_max_age_secs v"
  shows "verify_bundle api hex now v bundle current = Inr meta"
proof -
  obtain j d where j: "ca_to_value api meta = Some j" "ca_to_vec api j = Some d"
    and s: "sb_data bundle = j" "sb_signature bundle = hex_encode hex (ca_sign api sk d)"
    using assms(3) by (auto simp: sign_bundle_def split: option.splits)
  let ?s = "ca_sign api sk d"
  have "hex_decode hex (sb_signature bundle) = Some ?s"
    using assms(2) s(2) by (simp add: hex_ok_def)
  moreover have "length ?s = 64" "ca_verify_strict api (ca_verifying_key api sk) d ?s"
    "ca_from_value api j = Some meta"
    using assms(1) j(1) by (auto simp: crypto_ok_def)
  ultimately have "any_key_verifies api d ?s (bv_trusted_keys v)"
    using assms(4) by (auto simp: any_key_verifies_iff)
  with \<open>hex_decode hex (sb_signature bundle) = Some ?s\<close> \<open>length ?s = 64\<close>
    \<open>ca_from_value api j = Some meta\<close> j(2) s(1) assms(5-7)
  show ?thesis
    by (auto simp: verify_bundle_def not_less split: option.splits)
qed

text \<open>
  Property C40. A key pair works as it is generated and written down: a bundle signed with the key
  read from the secret text is accepted by a verifier made from the public text, whatever keys
  are added to it and whatever devices it is restricted to, as long as device, version and age
  are in order; and the bundle names the public text as its key.
\<close>

theorem sign_verify_roundtrip:
  assumes "crypto_ok api" "hex_ok hex" "generate_keypair_hex api hex fresh = (secret_hex, public_hex)"
    and "hex_decode hex secret_hex = Some secret" "hex_decode hex public_hex = Some public"
    and "sign_bundle api hex (ca_secret_from_bytes api secret) meta = Inr bundle"
    and "verifier_new api public = Inr v0" "add_keys api extra v0 = Inr v"
    and "devices = [] \<or> bm_device meta \<in> set devices"
    and "\<forall>c. current = Some c \<longrightarrow> \<not> is_downgrade c (bm_version meta)"
    and "now \<le> bm_timestamp meta + bv_max_age_secs v"
  shows "verify_bundle api hex now (set_allowed_devices devices v) bundle current = Inr meta \<and>
    sb_public_key bundle = Some public_hex"
proof -
  have keys: "secret = ca_secret_bytes api fresh" "public = ca_key_bytes api (ca_verifying_key api fresh)"
    "public_hex = hex_encode hex public"
    using assms(2-5) by (auto simp: generate_keypair_hex_def hex_ok_def)
  then have sk: "ca_secret_from_bytes api secret = fresh"
    using assms(1) by (simp add: crypto_ok_def)
  have "ca_verifying_key api fresh \<in> set (bv_trusted_keys v0)"
    using assms(1,7) by (auto simp: verifier_new_def keys(2) crypto_ok_def)
  then have "ca_verifying_key api fresh \<in> set (bv_trusted_keys (set_allowed_devices devices v))"
    using add_keys_keeps [OF assms(8)] by (auto simp: set_allowed_devices_def)
  then have "verify_bundle api hex now (set_allowed_devices devices v) bundle current = Inr meta"
    by (rule sign_verify [OF assms(1,2) assms(6) [unfolded sk]])
      (use assms(9-11) in \<open>simp_all add: set_allowed_devices_def\<close>)
  moreover have "sb_public_key bundle = Some public_hex"
    using assms(6) by (auto simp: sign_bundle_def sk keys(2,3) split: option.splits)
  ultimately show ?thesis by blast
qed

lemmas downgrade_eval =
  is_downgrade_def parse_version_def parse_unsigned_def decimal_value_def digit_value_def
  is_digit_def List.map_filter_def component_def

text \<open>A signature scheme and a JSON encoding of the simplest kind, for evaluation.\<close>

definition pad_sign :: "bytes \<Rightarrow> bytes" where
  "pad_sign d = take 64 (d @ replicate 64 7)"

definition plain_crypto :: "(bundle_metadata, unit, unit) crypto_api" where
  "plain_crypto =
     \<lparr>ca_to_vec = (\<lambda>m. Some (bytes_of (bm_version m))), ca_from_value = Some, ca_to_value = Some,
      ca_key_from_bytes = (\<lambda>b. Some ()), ca_key_bytes = (\<lambda>k. [1]), ca_secret_bytes = (\<lambda>sk. [2]),
      ca_secret_from_bytes = (\<lambda>b. ()), ca_verifying_key = (\<lambda>sk. ()),
      ca_sign = (\<lambda>sk d. pad_sign d), ca_verify_strict = (\<lambda>k d s. s = pad_sign d)\<rparr>"

definition sample_meta :: bundle_metadata where
  "sample_meta =
     \<lparr>bm_version = ''1.1.0'', bm_device = ''uos-tv'', bm_timestamp = 1000, bm_channel = ''stable'',
      bm_critical = False, bm_description = [], bm_download_url = None, bm_caibx_url = None,
      bm_rootfs_sha256 = ''00'', bm_rootfs_size = 10, bm_files = []\<rparr>"

definition sample_verifier :: "unit bundle_verifier" where
  "sample_verifier =
     \<lparr>bv_trusted_keys = [()], bv_max_age_secs = 500, bv_allowed_devices = [''uos-tv'']\<rparr>"

lemma plain_crypto_ok: "crypto_ok plain_crypto"
  by (auto simp: crypto_ok_def plain_crypto_def pad_sign_def min_def)

theorem sign_verify_roundtrip_witness:
  "\<exists>secret_hex public_hex b. generate_keypair_hex plain_crypto letters_api () = (secret_hex, public_hex) \<and>
     sign_bundle plain_crypto letters_api () sample_meta = Inr b \<and>
     verify_bundle plain_crypto letters_api 1400 (sample_verifier\<lparr>bv_max_age_secs := 90 * 24 * 3600\<rparr>) b
       (Some ''1.0.9'') = Inr sample_meta"
proof -
  obtain b where b: "sign_bundle plain_crypto letters_api () sample_meta = Inr b"
    by (simp add: sign_bundle_def plain_crypto_def)
  have "\<not> is_downgrade ''1.0.9'' (bm_version sample_meta)"
    by (simp add: sample_meta_def downgrade_eval)
  moreover have v: "verifier_new plain_crypto [1] = Inr (sample_verifier\<lparr>bv_max_age_secs := 90 * 24 * 3600, bv_allowed_devices := []\<rparr>)"
    by (simp add: verifier_new_def plain_crypto_def sample_verifier_def)
  ultimately have "verify_bundle plain_crypto letters_api 1400 (set_allowed_devices [''uos-tv'']
      (sample_verifier\<lparr>bv_max_age_secs := 90 * 24 * 3600, bv_allowed_devices := []\<rparr>)) b (Some ''1.0.9'') = Inr sample_meta \<and>
    sb_public_key b = Some (hex_encode letters_api [1])"
    by (intro sign_verify_roundtrip [OF plain_crypto_ok letters_ok _ _ _ _ v, where fresh = "()" and extra = "[]"
        and secret = "[2]" and secret_hex = "hex_encode letters_api [2]"])
      (use b letters_ok in \<open>simp_all add: generate_keypair_hex_def plain_crypto_def hex_ok_def\<close>,
       simp_all add: sample_meta_def sample_verifier_def)
  with b show ?thesis
    by (simp add: generate_keypair_hex_def set_allowed_devices_def sample_verifier_def)
qed

text \<open>
  A timestamp far in the future passes: here a bundle that claims to be made some 58 years
  after the clock of the device. The bundle never expires within that time.
\<close>

lemma future_timestamp_accepted:
  "\<exists>b. sign_bundle plain_crypto letters_api () (sample_meta\<lparr>bm_timestamp := 3600000000\<rparr>) = Inr b \<and>
     verify_bundle plain_crypto letters_api 1760000000 sample_verifier b None =
       Inr (sample_meta\<lparr>bm_timestamp := 3600000000\<rparr>)"
proof -
  obtain b where b: "sign_bundle plain_crypto letters_api () (sample_meta\<lparr>bm_timestamp := 3600000000\<rparr>) = Inr b"
    by (simp add: sign_bundle_def plain_crypto_def)
  from sign_verify [OF plain_crypto_ok letters_ok b, of sample_verifier None 1760000000] b
  show ?thesis by (simp add: sample_meta_def sample_verifier_def)
qed

subsection \<open>The order of versions\<close>

lemma compare_from_irrefl: "\<not> compare_from c c is"
  by (induction "is") auto

lemma compare_from_trans:
  "\<not> compare_from a b is \<Longrightarrow> \<not> compare_from b c is \<Longrightarrow> \<not> compare_from a c is"
  by (induction "is") (auto simp: Let_def split: if_splits)

lemma compare_from_append:
  "compare_from c n (xs @ ys) \<longleftrightarrow>
     compare_from c n xs \<or> (\<not> compare_from n c xs \<and> compare_from c n ys)"
  by (induction xs) (auto simp: Let_def split: if_splits)

lemma compare_from_zero: "\<forall>i \<in> set is. component c i = component n i \<Longrightarrow> \<not> compare_from c n is"
  by (induction "is") auto

lemma compare_range:
  assumes "max (length c) (length n) \<le> k"
  shows "compare_from c n [0..<k] = compare_from c n [0..<max (length c) (length n)]"
proof -
  let ?m = "max (length c) (length n)"
  have "[0..<k] = [0..<?m] @ [?m..<k]"
    using assms by (metis le0 le_add_diff_inverse upt_add_eq_append)
  moreover have "\<not> compare_from c n [?m..<k]"
    by (rule compare_from_zero) (auto simp: component_def)
  ultimately show ?thesis by (metis compare_from_append)
qed

text \<open>
  Between versions that parse, the comparison is a total preorder: a version is no
  downgrade of itself, of two versions at least one is no downgrade of the other, and a chain
  of updates each of which is no downgrade never ends below where it began.
\<close>

lemma downgrade_order:
  assumes "parse_version b \<noteq> []"
  shows "\<not> is_downgrade a a \<and> (\<not> is_downgrade a b \<or> \<not> is_downgrade b a) \<and>
    (\<not> is_downgrade a b \<longrightarrow> \<not> is_downgrade b c \<longrightarrow> \<not> is_downgrade a c)"
proof (intro conjI impI)
  show "\<not> is_downgrade a a" by (simp add: is_downgrade_def compare_from_irrefl Let_def)
  have "compare_from x y is \<Longrightarrow> \<not> compare_from y x is" for x y "is"
    by (induction "is") (auto simp: Let_def split: if_splits)
  then show "\<not> is_downgrade a b \<or> \<not> is_downgrade b a"
    by (auto simp: is_downgrade_def Let_def max.commute)
  assume ab: "\<not> is_downgrade a b" and bc: "\<not> is_downgrade b c"
  show "\<not> is_downgrade a c"
  proof (cases "parse_version a = [] \<or> parse_version c = []")
    case False
    let ?k = "max (length (parse_version a)) (max (length (parse_version b)) (length (parse_version c)))"
    have "\<not> compare_from (parse_version a) (parse_version b) [0..<?k]"
      using ab False assms compare_range [of "parse_version a" "parse_version b" ?k]
      by (simp add: is_downgrade_def Let_def)
    moreover have "\<not> compare_from (parse_version b) (parse_version c) [0..<?k]"
      using bc False assms compare_range [of "parse_version b" "parse_version c" ?k]
      by (simp add: is_downgrade_def Let_def)
    ultimately have "\<not> compare_from (parse_version a) (parse_version c) [0..<?k]"
      by (rule compare_from_trans)
    then show ?thesis
      using False compare_range [of "parse_version a" "parse_version c" ?k]
      by (simp add: is_downgrade_def Let_def)
  qed (auto simp: is_downgrade_def Let_def)
qed

lemma downgrade_samples:
  "is_downgrade ''2.0.0'' ''1.9.9'' \<and> \<not> is_downgrade ''1.9'' ''1.10'' \<and> \<not> is_downgrade ''1.10'' ''1.10.0''"
  by (simp add: downgrade_eval)

lemma downgrade_order_witness:
  "\<not> is_downgrade ''1.9'' ''1.10.0''"
proof -
  have "parse_version ''1.10'' \<noteq> []" by (simp add: downgrade_eval)
  note order = downgrade_order [OF this, of "''1.9''" "''1.10.0''", THEN conjunct2, THEN conjunct2]
  show ?thesis
    by (rule order [rule_format]) (simp_all only: downgrade_samples not_False_eq_True)
qed

text \<open>
  Downgrade protection needs versions that parse: with a letter in front of the
  first number the number is skipped, and a version without any number is never a downgrade,
  nor is anything a downgrade from it. So 2.0.0 can be replaced by 1.0.0 in two accepted steps.
\<close>

lemma unparsable_versions_bypass:
  "is_downgrade ''2.0.0'' ''1.0.0'' \<and>
   \<not> is_downgrade ''v2.0.0'' ''v1.0.0'' \<and>
   \<not> is_downgrade ''2.0.0'' ''next'' \<and> \<not> is_downgrade ''next'' ''1.0.0''"
  by (simp add: downgrade_eval)

end
