(* ===== verification/Commands.thy ===== *)
theory Commands
  imports Prelude
begin

section \<open>Programs run by the daemons\<close>

text \<open>
  Several daemons run external programs (\<open>std::process::Command::output\<close>). What such a
  program answers is not under \<open>src/\<close>: it is a runner, a function of the state of the world,
  the program and its arguments, which also gives the world after the run. \<open>None\<close> is the
  \<open>io::Error\<close> of a program that could not be started. Standard error is text after
  \<open>from_utf8_lossy\<close>.
\<close>

record cmd_output =
  co_success :: bool
  co_stdout :: bytes
  co_stderr :: string

type_synonym 'w runner = "'w \<Rightarrow> string \<Rightarrow> string list \<Rightarrow> cmd_output option \<times> 'w"

text \<open>
  A world that only records what was run, with answers that may depend on everything that was
  run before: the most general deterministic environment.
\<close>

type_synonym cmd_log = "(string \<times> string list) list"

definition logging_runner ::
  "(cmd_log \<Rightarrow> string \<Rightarrow> string list \<Rightarrow> cmd_output option) \<Rightarrow> cmd_log runner" where
  "logging_runner answer l prog args = (answer l prog args, l @ [(prog, args)])"

end
