(* ===== verification/OtadDownloader.thy ===== *)
theory OtadDownloader
  imports Commands
begin

section \<open>otad: configuration and downloads\<close>

text \<open>
  \<open>crates/otad/src/config.rs\<close> and \<open>downloader.rs\<close>: the configuration with its defaults, the
  update check and the resumable download. The update server, the file system and the
  programs that otad runs are an environment \<open>otad_env\<close> whose answers may depend on the whole
  history of events; YAML, JSON, certificates and the hexadecimal SHA-256 are parameters.
  Files are a hash map from paths to contents. Appending is tokio's \<open>File::write_all\<close>, which
  the code does not flush: it returns while the last bytes are still with a background task.
  Such bytes are pending, how many of them have landed when the file is next looked at is up to
  the environment, and what has not landed when the next download starts is lost. That the HTTP
  client can be built (an \<open>expect\<close> in \<open>Downloader::new\<close>) is assumed.
\<close>

subsection \<open>Configuration\<close>

record ota_config =
  cfg_server_url :: string
  cfg_poll_interval_secs :: u64
  cfg_channel :: string
  cfg_device :: string
  cfg_download_dir :: string
  cfg_auto_install :: bool
  cfg_auto_reboot :: bool
  cfg_max_bandwidth :: u64
  cfg_retry_count :: u32
  cfg_retry_delay_secs :: u64
  cfg_unmetered_only :: bool
  cfg_tls_ca_bundle :: string

text \<open>What the YAML document gives: every field may be absent.\<close>

record ota_config_yaml =
  y_server_url :: "string option"
  y_poll_interval_secs :: "u64 option"
  y_channel :: "string option"
  y_device :: "string option"
  y_download_dir :: "string option"
  y_auto_install :: "bool option"
  y_auto_reboot :: "bool option"
  y_max_bandwidth :: "u64 option"
  y_retry_count :: "u32 option"
  y_retry_delay_secs :: "u64 option"
  y_unmetered_only :: "bool option"
  y_tls_ca_bundle :: "string option"

definition or_else :: "'a option \<Rightarrow> 'a \<Rightarrow> 'a" where
  "or_else x d = (case x of None \<Rightarrow> d | Some v \<Rightarrow> v)"

definition config_default :: ota_config where
  "config_default =
     \<lparr>cfg_server_url = ''https://ota.uos-tv.example.com'', cfg_poll_interval_secs = 21600,
      cfg_channel = ''stable'', cfg_device = ''qemu-virt'', cfg_download_dir = ''/data/ota'',
      cfg_auto_install = False, cfg_auto_reboot = False, cfg_max_bandwidth = 0,
      cfg_retry_count = 3, cfg_retry_delay_secs = 30, cfg_unmetered_only = False,
      cfg_tls_ca_bundle = ''/etc/ssl/certs/ca-certificates.crt''\<rparr>"

definition config_of_yaml :: "ota_config_yaml \<Rightarrow> ota_config" where
  "config_of_yaml y =
     \<lparr>cfg_server_url = or_else (y_server_url y) (cfg_server_url config_default),
      cfg_poll_interval_secs = or_else (y_poll_interval_secs y) (cfg_poll_interval_secs config_default),
      cfg_channel = or_else (y_channel y) (cfg_channel config_default),
      cfg_device = or_else (y_device y) (cfg_device config_default),
      cfg_download_dir = or_else (y_download_dir y) (cfg_download_dir config_default),
      cfg_auto_install = or_else (y_auto_install y) (cfg_auto_install config_default),
      cfg_auto_reboot = or_else (y_auto_reboot y) (cfg_auto_reboot config_default),
      cfg_max_bandwidth = or_else (y_max_bandwidth y) 0,
      cfg_retry_count = or_else (y_retry_count y) (cfg_retry_count config_default),
      cfg_retry_delay_secs = or_else (y_retry_delay_secs y) (cfg_retry_delay_secs config_default),
      cfg_unmetered_only = or_else (y_unmetered_only y) False,
      cfg_tls_ca_bundle = or_else (y_tls_ca_bundle y) (cfg_tls_ca_bundle config_default)\<rparr>"

text \<open>\<open>load\<close> gets the file's text, absent when it cannot be read.\<close>

datatype config_error = CfgIo | CfgYaml

definition config_load :: "(string \<Rightarrow> ota_config_yaml option) \<Rightarrow> string option \<Rightarrow> config_error + ota_config" where
  "config_load from_yaml content =
     (case content of
        None \<Rightarrow> Inl CfgIo
      | Some text \<Rightarrow>
          (case from_yaml text of None \<Rightarrow> Inl CfgYaml | Some y \<Rightarrow> Inr (config_of_yaml y)))"

text \<open>\<open>save\<close> gives the text that is written to the file.\<close>

definition config_save :: "(ota_config \<Rightarrow> string option) \<Rightarrow> ota_config \<Rightarrow> config_error + string" where
  "config_save to_yaml c = (case to_yaml c of None \<Rightarrow> Inl CfgYaml | Some text \<Rightarrow> Inr text)"

definition yaml_of_config :: "ota_config \<Rightarrow> ota_config_yaml" where
  "yaml_of_config c =
     \<lparr>y_server_url = Some (cfg_server_url c), y_poll_interval_secs = Some (cfg_poll_interval_secs c),
      y_channel = Some (cfg_channel c), y_device = Some (cfg_device c),
      y_download_dir = Some (cfg_download_dir c), y_auto_install = Some (cfg_auto_install c),
      y_auto_reboot = Some (cfg_auto_reboot c), y_max_bandwidth = Some (cfg_max_bandwidth c),
      y_retry_count = Some (cfg_retry_count c), y_retry_delay_secs = Some (cfg_retry_delay_secs c),
      y_unmetered_only = Some (cfg_unmetered_only c), y_tls_ca_bundle = Some (cfg_tls_ca_bundle c)\<rparr>"

lemma config_of_yaml_of_config: "config_of_yaml (yaml_of_config c) = c"
  by (simp add: config_of_yaml_def yaml_of_config_def or_else_def)

lemma config_save_load:
  assumes "\<And>c text. to_yaml c = Some text \<Longrightarrow> from_yaml text = Some (yaml_of_config c)"
    and "config_save to_yaml c = Inr text"
  shows "config_load from_yaml (Some text) = Inr c"
  using assms by (auto simp: config_save_def config_load_def config_of_yaml_of_config split: option.splits)

subsection \<open>The world of otad\<close>

datatype 'n otad_event =
    Ran string "string list"
  | Requested string "string option"
  | Progress u64 u64
  | Notified string 'n
  | Slept nat
  | RebootCalled

record http_response =
  hr_status :: nat
  hr_content_length :: "u64 option"
  hr_body :: "bytes option"

datatype fs_op = MakeDir string | Stat string | WriteFile string | AppendFile string
  | ReadFile string | RemoveFile string

text \<open>
  A refused operation; a write may have got some bytes to the disk before it failed.
  \<open>oe_lands\<close> is the number of bytes that a background write has brought to the file so far.
\<close>

datatype fs_answer = FsOk | FsFails "nat option"

record 'n otad_env =
  oe_http :: "'n otad_event list \<Rightarrow> string \<Rightarrow> string option \<Rightarrow> http_response option"
  oe_run :: "'n otad_event list \<Rightarrow> string \<Rightarrow> string list \<Rightarrow> cmd_output option"
  oe_fs :: "'n otad_event list \<Rightarrow> fs_op \<Rightarrow> fs_answer"
  oe_lands :: "'n otad_event list \<Rightarrow> string \<Rightarrow> nat"

record 'n otad_world =
  ow_events :: "'n otad_event list"
  ow_files :: "(string, bytes) hashmap"
  ow_pending :: "(string, bytes) hashmap"

definition emit :: "'n otad_event \<Rightarrow> 'n otad_world \<Rightarrow> 'n otad_world" where
  "emit e w = w\<lparr>ow_events := ow_events w @ [e]\<rparr>"

definition set_file :: "string \<Rightarrow> bytes \<Rightarrow> 'n otad_world \<Rightarrow> 'n otad_world" where
  "set_file p d w = w\<lparr>ow_files := AList.update p d (ow_files w)\<rparr>"

text \<open>The bytes of a file that a background write still has to bring to it.\<close>

definition pending_of :: "string \<Rightarrow> 'n otad_world \<Rightarrow> bytes" where
  "pending_of p w = (case map_of (ow_pending w) p of None \<Rightarrow> [] | Some late \<Rightarrow> late)"

definition set_pending :: "string \<Rightarrow> bytes \<Rightarrow> 'n otad_world \<Rightarrow> 'n otad_world" where
  "set_pending p d w = w\<lparr>ow_pending := AList.update p d (ow_pending w)\<rparr>"

definition drop_pending :: "string \<Rightarrow> 'n otad_world \<Rightarrow> 'n otad_world" where
  "drop_pending p w = w\<lparr>ow_pending := AList.delete p (ow_pending w)\<rparr>"

definition settle :: "'n otad_env \<Rightarrow> string \<Rightarrow> 'n otad_world \<Rightarrow> 'n otad_world" where
  "settle env p w =
     (case map_of (ow_pending w) p of
        None \<Rightarrow> w
      | Some late \<Rightarrow>
          drop_pending p
            (case map_of (ow_files w) p of
               None \<Rightarrow> w
             | Some old \<Rightarrow> set_file p (old @ take (oe_lands env (ow_events w) p) late) w))"

definition otad_run :: "'n otad_env \<Rightarrow> 'n otad_world runner" where
  "otad_run env w prog args = (oe_run env (ow_events w) prog args, emit (Ran prog args) w)"

definition fs_allows :: "'n otad_env \<Rightarrow> fs_op \<Rightarrow> 'n otad_world \<Rightarrow> bool" where
  "fs_allows env op w \<longleftrightarrow> oe_fs env (ow_events w) op = FsOk"

text \<open>
  Writing (\<open>tokio::fs::write\<close>, which waits for the system) replaces the file; appending extends
  it, but reports success while bytes are still pending. Both stop where the system refuses. A
  file that is removed takes its pending bytes along: they go to the unlinked file.
\<close>

definition write_file ::
  "'n otad_env \<Rightarrow> string \<Rightarrow> bytes \<Rightarrow> 'n otad_world \<Rightarrow> bool \<times> 'n otad_world" where
  "write_file env p d w =
     (case oe_fs env (ow_events w) (WriteFile p) of
        FsOk \<Rightarrow> (True, set_file p d w)
      | FsFails None \<Rightarrow> (False, w)
      | FsFails (Some n) \<Rightarrow> (False, set_file p (take n d) w))"

definition append_file ::
  "'n otad_env \<Rightarrow> string \<Rightarrow> bytes \<Rightarrow> 'n otad_world \<Rightarrow> bool \<times> 'n otad_world" where
  "append_file env p d w =
     (case map_of (ow_files w) p of
        None \<Rightarrow> (False, w)
      | Some old \<Rightarrow>
          (case oe_fs env (ow_events w) (AppendFile p) of
             FsOk \<Rightarrow>
               let landed = oe_lands env (ow_events w) p
               in (True, set_pending p (drop landed d) (set_file p (old @ take landed d) w))
           | FsFails None \<Rightarrow> (False, w)
           | FsFails (Some n) \<Rightarrow> (False, set_file p (old @ take n d) w)))"

definition read_file :: "'n otad_env \<Rightarrow> string \<Rightarrow> 'n otad_world \<Rightarrow> bytes option" where
  "read_file env p w = (if fs_allows env (ReadFile p) w then map_of (ow_files w) p else None)"

definition remove_file :: "'n otad_env \<Rightarrow> string \<Rightarrow> 'n otad_world \<Rightarrow> 'n otad_world" where
  "remove_file env p w =
     (if fs_allows env (RemoveFile p) w
      then drop_pending p (w\<lparr>ow_files := AList.delete p (ow_files w)\<rparr>) else w)"

subsection \<open>The downloader\<close>

datatype dl_error = DlHttp | DlIo | DlHashMismatch string string | DlRetryExhausted u32 string

record downloader =
  dl_timeout_secs :: nat
  dl_connect_timeout_secs :: nat
  dl_root_certificate :: "bytes option"
  dl_server_url :: string
  dl_download_dir :: string

record update_info =
  ui_version :: string
  ui_channel :: string
  ui_timestamp :: u64
  ui_critical :: bool
  ui_description :: string
  ui_download_url :: "string option"
  ui_caibx_url :: "string option"
  ui_sha256 :: string
  ui_size :: u64
  ui_delta_size :: "u64 option"
  ui_signature :: string

text \<open>
  \<open>file_at\<close> gives the CA bundle: absent, unreadable or its content; \<open>pem_ok\<close> tells whether the
  TLS library accepts the content as a certificate.
\<close>

definition downloader_new ::
  "(string \<Rightarrow> bytes option option) \<Rightarrow> (bytes \<Rightarrow> bool) \<Rightarrow> string \<Rightarrow> string \<Rightarrow> string \<Rightarrow> downloader" where
  "downloader_new file_at pem_ok server_url download_dir tls_ca_bundle =
     (let cert = (if tls_ca_bundle \<noteq> [] \<and> file_at tls_ca_bundle \<noteq> None
                  then let ca_bytes = or_else (the (file_at tls_ca_bundle)) []
                       in if ca_bytes \<noteq> [] \<and> pem_ok ca_bytes then Some ca_bytes else None
                  else None)
      in \<lparr>dl_timeout_secs = 3600, dl_connect_timeout_secs = 30, dl_root_certificate = cert,
          dl_server_url = server_url, dl_download_dir = download_dir\<rparr>)"

definition check_url :: "downloader \<Rightarrow> string \<Rightarrow> string \<Rightarrow> string \<Rightarrow> string" where
  "check_url dl device channel current =
     dl_server_url dl @ ''/api/v1/update/check?device='' @ device @ ''&channel='' @ channel @
     ''&current='' @ current"

definition check_update ::
  "'n otad_env \<Rightarrow> (bytes \<Rightarrow> update_info option) \<Rightarrow> downloader \<Rightarrow> string \<Rightarrow> string \<Rightarrow> string \<Rightarrow>
   'n otad_world \<Rightarrow> (dl_error + update_info option) \<times> 'n otad_world" where
  "check_update env parse_info dl device channel current w =
     (let url = check_url dl device channel current; w1 = emit (Requested url None) w
      in case oe_http env (ow_events w) url None of
           None \<Rightarrow> (Inl DlHttp, w1)
         | Some resp \<Rightarrow>
             if hr_status resp = 204 then (Inr None, w1)
             else (case Option.bind (hr_body resp) parse_info of
                     None \<Rightarrow> (Inl DlHttp, w1)
                   | Some info \<Rightarrow> (Inr (Some info), w1)))"

text \<open>The body of the response, stored: appended when the file has content, else written.\<close>

definition store_body ::
  "'n otad_env \<Rightarrow> string \<Rightarrow> nat \<Rightarrow> http_response \<Rightarrow> 'n otad_world \<Rightarrow>
   (dl_error + bytes) \<times> 'n otad_world" where
  "store_body env path existing_size resp w =
     (case hr_body resp of
        None \<Rightarrow> (Inl DlHttp, w)
      | Some chunk \<Rightarrow>
          (case (if existing_size > 0 then append_file env path chunk w else write_file env path chunk w) of
             (True, w') \<Rightarrow> (Inr chunk, w')
           | (False, w') \<Rightarrow> (Inl DlIo, w')))"

definition verify_hash ::
  "'n otad_env \<Rightarrow> (bytes \<Rightarrow> string) \<Rightarrow> string \<Rightarrow> string option \<Rightarrow> 'n otad_world \<Rightarrow>
   (dl_error + unit) \<times> 'n otad_world" where
  "verify_hash env sha_hex path expected_sha256 w =
     (case expected_sha256 of
        None \<Rightarrow> (Inr (), w)
      | Some expected \<Rightarrow>
          (case read_file env path w of
             None \<Rightarrow> (Inl DlIo, w)
           | Some d \<Rightarrow>
               if sha_hex d \<noteq> expected
               then (Inl (DlHashMismatch expected (sha_hex d)), remove_file env path w)
               else (Inr (), w)))"

definition report_progress :: "bool \<Rightarrow> u64 \<Rightarrow> u64 \<Rightarrow> 'n otad_world \<Rightarrow> 'n otad_world" where
  "report_progress cb downloaded total_size w = (if cb then emit (Progress downloaded total_size) w else w)"

definition existing_size_of ::
  "'n otad_env \<Rightarrow> string \<Rightarrow> 'n otad_world \<Rightarrow> dl_error + nat" where
  "existing_size_of env path w =
     (case map_of (ow_files w) path of
        None \<Rightarrow> Inr 0
      | Some d \<Rightarrow> if fs_allows env (Stat path) w then Inr (length d) else Inl DlIo)"

definition download ::
  "'n otad_env \<Rightarrow> (bytes \<Rightarrow> string) \<Rightarrow> downloader \<Rightarrow> string \<Rightarrow> string \<Rightarrow> string option \<Rightarrow> bool \<Rightarrow>
   'n otad_world \<Rightarrow> (dl_error + string) \<times> 'n otad_world" where
  "download env sha_hex dl url filename expected_sha256 progress w =
     (let path = path_join (dl_download_dir dl) filename
      in if \<not> fs_allows env (MakeDir (dl_download_dir dl)) w then (Inl DlIo, w)
         else let w0 = settle env path w in case existing_size_of env path w0 of
                Inl e \<Rightarrow> (Inl e, w0)
              | Inr existing \<Rightarrow>
      (let range = (if existing > 0 then Some (''bytes='' @ show_nat existing @ ''-'') else None);
           w1 = emit (Requested url range) w0
       in case oe_http env (ow_events w0) url range of
            None \<Rightarrow> (Inl DlHttp, w1)
          | Some resp \<Rightarrow>
              if hr_status resp = 206 \<or> existing = 0
              then (case store_body env path existing resp w1 of
                      (Inl e, w2) \<Rightarrow> (Inl e, w2)
                    | (Inr chunk, w2) \<Rightarrow>
                        let total_size = of_nat existing + or_else (hr_content_length resp) 0;
                            w3 = report_progress progress (of_nat (length chunk) + of_nat existing) total_size w2
                        in case verify_hash env sha_hex path expected_sha256 w3 of
                             (Inl e, w4) \<Rightarrow> (Inl e, w4)
                           | (Inr _, w4) \<Rightarrow> (Inr path, w4))
              else (Inr path, w1)))"

definition index_filename :: "update_info \<Rightarrow> string" where
  "index_filename info = ''update-'' @ ui_version info @ ''.caibx''"

definition download_index ::
  "'n otad_env \<Rightarrow> (bytes \<Rightarrow> string) \<Rightarrow> downloader \<Rightarrow> update_info \<Rightarrow>
   'n otad_world \<Rightarrow> (dl_error + string) \<times> 'n otad_world" where
  "download_index env sha_hex dl info w =
     (case ui_caibx_url info of
        None \<Rightarrow> (Inl DlIo, w)
      | Some url \<Rightarrow> download env sha_hex dl url (index_filename info) None False w)"

subsection \<open>Files and events\<close>

lemma world_simps [simp]:
  "ow_files (emit e w) = ow_files w" "ow_events (emit e w) = ow_events w @ [e]"
  "ow_events (set_file p d w) = ow_events w"
  "map_of (ow_files (set_file p d w)) = (map_of (ow_files w))(p \<mapsto> d)"
  "fs_allows env op (set_file p d w) = fs_allows env op w"
  "ow_pending (emit e w) = ow_pending w" "ow_pending (set_file p d w) = ow_pending w"
  by (simp_all add: emit_def set_file_def hashmap_simps fs_allows_def)

lemma pending_simps [simp]:
  "ow_files (set_pending p d w) = ow_files w" "ow_events (set_pending p d w) = ow_events w"
  "ow_files (drop_pending p w) = ow_files w" "ow_events (drop_pending p w) = ow_events w"
  "pending_of p (set_pending p d w) = d" "pending_of p (drop_pending p w) = []"
  "pending_of p (set_file q d w) = pending_of p w" "pending_of p (emit e w) = pending_of p w"
  by (simp_all add: set_pending_def drop_pending_def pending_of_def hashmap_simps)

lemma report_progress_simps [simp]:
  "ow_files (report_progress cb a b w) = ow_files w"
  "ow_pending (report_progress cb a b w) = ow_pending w"
  "pending_of p (report_progress cb a b w) = pending_of p w"
  by (simp_all add: report_progress_def)

lemma remove_file_events [simp]: "ow_events (remove_file env p w) = ow_events w"
  by (simp add: remove_file_def)

lemma settle_events [simp]:
  "ow_events (settle env p w) = ow_events w" "fs_allows env op (settle env p w) = fs_allows env op w"
  by (simp_all add: settle_def fs_allows_def split: option.splits)

lemma settle_clears [simp]: "pending_of p (settle env p w) = []"
  by (simp add: settle_def split: option.splits) (simp add: pending_of_def)

lemma settle_none [simp]: "map_of (ow_pending w) p = None \<Longrightarrow> settle env p w = w"
  by (simp add: settle_def)

lemma settle_file:
  "map_of (ow_files (settle env p w)) p =
     map_option (\<lambda>old. old @ take (oe_lands env (ow_events w) p) (pending_of p w)) (map_of (ow_files w) p)"
  by (simp add: settle_def pending_of_def option.map_ident split: option.splits)

lemma write_file_cases:
  assumes "write_file env p d w = (ok, w')"
  obtains "ok" "w' = set_file p d w" "fs_allows env (WriteFile p) w"
  | "\<not> ok" "w' = w" "\<not> fs_allows env (WriteFile p) w"
  | n where "\<not> ok" "w' = set_file p (take n d) w" "\<not> fs_allows env (WriteFile p) w"
  using assms by (auto simp: write_file_def fs_allows_def split: fs_answer.splits option.splits)

lemma append_file_cases:
  assumes "append_file env p d w = (ok, w')" "map_of (ow_files w) p = Some old"
  obtains k where "ok" "w' = set_pending p (drop k d) (set_file p (old @ take k d) w)"
      "k = oe_lands env (ow_events w) p" "fs_allows env (AppendFile p) w"
  | "\<not> ok" "w' = w" "\<not> fs_allows env (AppendFile p) w"
  | n where "\<not> ok" "w' = set_file p (old @ take n d) w" "\<not> fs_allows env (AppendFile p) w"
  using assms by (auto simp: append_file_def fs_allows_def Let_def split: fs_answer.splits option.splits)

lemma existing_size_of_Inr:
  "existing_size_of env p w = Inr n \<Longrightarrow>
     (n > 0 \<longleftrightarrow> (\<exists>d. map_of (ow_files w) p = Some d \<and> d \<noteq> [])) \<and>
     (\<forall>d. map_of (ow_files w) p = Some d \<longrightarrow> n = length d)"
  by (auto simp: existing_size_of_def split: option.splits if_splits)

text \<open>What a download does to the events: it only requests and reports.\<close>

fun quiet :: "'n otad_event \<Rightarrow> bool" where
  "quiet (Requested _ _) = True"
| "quiet (Progress _ _) = True"
| "quiet _ = False"

definition quietly :: "'n otad_world \<Rightarrow> 'n otad_world \<Rightarrow> bool" where
  "quietly w w' \<longleftrightarrow> (\<exists>es. ow_events w' = ow_events w @ es \<and> list_all quiet es)"

lemma quietly_refl [simp]: "quietly w w"
  by (simp add: quietly_def)

lemma quietly_trans: "quietly u v \<Longrightarrow> quietly v w \<Longrightarrow> quietly u w"
  by (auto simp: quietly_def)

lemma quietly_emit: "quiet e \<Longrightarrow> quietly w (emit e w)"
  by (simp add: quietly_def)

lemma quietly_same: "ow_events w' = ow_events w \<Longrightarrow> quietly w w'"
  by (simp add: quietly_def)

lemma append_file_events: "append_file env p d w = (ok, w') \<Longrightarrow> ow_events w' = ow_events w"
  by (auto simp: append_file_def Let_def split: fs_answer.splits option.splits)

lemma write_file_events: "write_file env p d w = (ok, w') \<Longrightarrow> ow_events w' = ow_events w"
  by (auto simp: write_file_def split: fs_answer.splits option.splits)

lemma store_body_events: "store_body env p n resp w = (r, w') \<Longrightarrow> ow_events w' = ow_events w"
  by (auto simp: store_body_def dest: append_file_events write_file_events
      split: option.splits if_splits prod.splits bool.splits)

lemma verify_hash_events: "verify_hash env sha p e w = (r, w') \<Longrightarrow> ow_events w' = ow_events w"
  by (auto simp: verify_hash_def split: option.splits if_splits)

lemma report_progress_quiet: "quietly w (report_progress cb a b w)"
  by (simp add: report_progress_def quietly_emit)

lemma check_update_quiet: "quietly w (snd (check_update env parse dl d c v w))"
  by (auto simp: check_update_def Let_def quietly_emit split: option.splits)

text \<open>The ways a download can go, for case analysis.\<close>

lemma download_cases:
  assumes r: "download env sha dl url f expected cb w = (r, w')"
    and path: "path = path_join (dl_download_dir dl) f"
  obtains (refused) e where "r = Inl e" "w' = w \<or> w' = settle env path w" "\<exists>op. \<not> fs_allows env op w"
  | (offline) existing range where "existing_size_of env path (settle env path w) = Inr existing"
      "range = (if existing > 0 then Some (''bytes='' @ show_nat existing @ ''-'') else None)"
      "oe_http env (ow_events w) url range = None"
      "r = Inl DlHttp" "w' = emit (Requested url range) (settle env path w)"
  | (kept) existing resp where "existing_size_of env path (settle env path w) = Inr existing" "existing > 0"
      "oe_http env (ow_events w) url (Some (''bytes='' @ show_nat existing @ ''-'')) = Some resp"
      "hr_status resp \<noteq> 206" "r = Inr path"
      "w' = emit (Requested url (Some (''bytes='' @ show_nat existing @ ''-''))) (settle env path w)"
  | (stored) existing range resp s w2 where "existing_size_of env path (settle env path w) = Inr existing"
      "range = (if existing > 0 then Some (''bytes='' @ show_nat existing @ ''-'') else None)"
      "oe_http env (ow_events w) url range = Some resp" "hr_status resp = 206 \<or> existing = 0"
      "store_body env path existing resp (emit (Requested url range) (settle env path w)) = (s, w2)"
      "case s of Inl e \<Rightarrow> r = Inl e \<and> w' = w2
       | Inr chunk \<Rightarrow> (\<exists>total_size u. verify_hash env sha path expected
            (report_progress cb (of_nat (length chunk) + of_nat existing) total_size w2) = (u, w') \<and>
            r = (case u of Inl e \<Rightarrow> Inl e | Inr _ \<Rightarrow> Inr path))"
proof (cases "fs_allows env (MakeDir (dl_download_dir dl)) w")
  case False
  with r refused show ?thesis by (auto simp: download_def Let_def)
next
  case True
  show ?thesis
  proof (cases "existing_size_of env path (settle env path w)")
    case (Inl e)
    then have "\<exists>op. \<not> fs_allows env op w"
      by (auto simp: existing_size_of_def split: option.splits if_splits)
    with r True path Inl refused show ?thesis by (auto simp: download_def Let_def)
  next
    case (Inr existing)
    let ?range = "if existing > 0 then Some (''bytes='' @ show_nat existing @ ''-'') else None"
    show ?thesis
    proof (cases "oe_http env (ow_events w) url ?range")
      case None
      with r True path Inr offline [of existing ?range] show ?thesis
        by (simp add: download_def Let_def)
    next
      case (Some resp)
      show ?thesis
      proof (cases "hr_status resp = 206 \<or> existing = 0")
        case False
        with r True path Inr Some kept [of existing resp] show ?thesis
          by (simp add: download_def Let_def)
      next
        case upd: True
        obtain s w2 where s: "store_body env path existing resp (emit (Requested url ?range) (settle env path w)) = (s, w2)"
          by (cases "store_body env path existing resp (emit (Requested url ?range) (settle env path w))") auto
        have "case s of Inl e \<Rightarrow> r = Inl e \<and> w' = w2
          | Inr chunk \<Rightarrow> (\<exists>total_size u. verify_hash env sha path expected
            (report_progress cb (of_nat (length chunk) + of_nat existing) total_size w2) = (u, w') \<and>
            r = (case u of Inl e \<Rightarrow> Inl e | Inr _ \<Rightarrow> Inr path))"
          using r True path Inr Some upd s
          by (auto simp: download_def Let_def split: sum.splits prod.splits)
        with Inr Some upd s stored show ?thesis by blast
      qed
    qed
  qed
qed

lemma download_quiet: "download env sha dl url f expected cb w = (r, w') \<Longrightarrow> quietly w w'"
proof (erule download_cases [OF _ refl])
  fix existing range resp s w2
  assume s: "store_body env (path_join (dl_download_dir dl) f) existing resp
      (emit (Requested url range) (settle env (path_join (dl_download_dir dl) f) w)) = (s, w2)"
    and c: "case s of Inl e \<Rightarrow> r = Inl e \<and> w' = w2
       | Inr chunk \<Rightarrow> (\<exists>total_size u. verify_hash env sha (path_join (dl_download_dir dl) f) expected
            (report_progress cb (of_nat (length chunk) + of_nat existing) total_size w2) = (u, w') \<and>
            r = (case u of Inl e \<Rightarrow> Inl e | Inr _ \<Rightarrow> Inr (path_join (dl_download_dir dl) f)))"
  have w2: "quietly w w2"
    using store_body_events [OF s] by (simp add: quietly_def)
  show "quietly w w'"
  proof (cases s)
    case (Inl e)
    with c w2 show ?thesis by simp
  next
    case (Inr chunk)
    with c obtain t where "ow_events w' =
        ow_events (report_progress cb (of_nat (length chunk) + of_nat existing) t w2)"
      by (auto dest!: verify_hash_events)
    then show ?thesis
      using quietly_trans [OF w2 quietly_trans [OF report_progress_quiet quietly_same]] by blast
  qed
qed (auto simp: quietly_def)

subsection \<open>What a download promises\<close>

text \<open>
  What a reader may find in a file: what is there and as much of the pending bytes as has landed.
\<close>

abbreviation disk :: "'n otad_world \<Rightarrow> (string, bytes) hashmap \<times> (string, bytes) hashmap" where
  "disk w \<equiv> (ow_files w, ow_pending w)"

definition readable :: "'n otad_world \<Rightarrow> string \<Rightarrow> bytes \<Rightarrow> bool" where
  "readable w p c \<longleftrightarrow> (\<exists>d k. map_of (ow_files w) p = Some d \<and> c = d @ take k (pending_of p w))"

lemma readable_disk: "disk w = disk w' \<Longrightarrow> readable w p c = readable w' p c"
  by (simp add: readable_def pending_of_def)

lemma readable_settled: "map_of (ow_files (settle env p w)) p = Some d \<Longrightarrow> readable w p d"
  by (auto simp: readable_def settle_file)

text \<open>
  After a download that succeeds against an expected hash, the file at the
  returned path has that hash, or it is a non-empty file that was there before and that the
  download left alone, because the server did not answer the range request with status 206:
  then its hash was never looked at. In the first case bytes of the answer may still be pending,
  but only when the download was a resumed one.
\<close>

lemma download_success:
  assumes "download env sha dl url f (Some expected) cb w = (Inr p, w')"
  shows "p = path_join (dl_download_dir dl) f \<and>
    (\<exists>d. map_of (ow_files w') p = Some d \<and>
       (sha d = expected \<and> (pending_of p w' = [] \<or> (\<exists>old new. readable w p old \<and> old \<noteq> [] \<and> d = old @ new)) \<or>
        readable w p d \<and> d \<noteq> [] \<and> pending_of p w' = [] \<and>
        (\<exists>resp. oe_http env (ow_events w) url (Some (''bytes='' @ show_nat (length d) @ ''-'')) = Some resp \<and>
           hr_status resp \<noteq> 206)))"
proof (cases rule: download_cases [OF assms refl, case_names refused offline kept stored])
  case (kept existing resp)
  let ?p = "path_join (dl_download_dir dl) f"
  obtain d where d: "map_of (ow_files (settle env ?p w)) ?p = Some d" "d \<noteq> []" "existing = length d"
    using existing_size_of_Inr [OF kept(1)] kept(2) by auto
  with kept readable_settled [OF d(1)] show ?thesis by auto
next
  case (stored existing range resp s w2)
  let ?p = "path_join (dl_download_dir dl) f"
  from stored(6) obtain chunk where "s = Inr chunk" by (cases s) auto
  with stored(6) obtain t u where
      v: "verify_hash env sha ?p (Some expected)
            (report_progress cb (of_nat (length chunk) + of_nat existing) t w2) = (u, w')"
    and u: "(Inr p :: dl_error + string) =
      (case u of Inl e \<Rightarrow> Inl e | Inr _ \<Rightarrow> Inr ?p)"
    unfolding \<open>s = Inr chunk\<close> sum.case by blast
  from u obtain x where "u = Inr x" "p = ?p"
    by (auto split: sum.splits)
  with v obtain d where d: "map_of (ow_files w2) p = Some d" "sha d = expected" "disk w' = disk w2"
    by (auto simp: verify_hash_def read_file_def split: option.splits if_splits)
  have "pending_of p w2 = [] \<or> (\<exists>old new. readable w p old \<and> old \<noteq> [] \<and> d = old @ new)"
  proof (cases "existing > 0")
    case False
    with stored(5) \<open>s = Inr chunk\<close> \<open>p = ?p\<close> show ?thesis
      by (auto simp: store_body_def elim!: write_file_cases split: option.splits prod.splits bool.splits)
  next
    case True
    obtain old where old: "map_of (ow_files (settle env p w)) p = Some old" "old \<noteq> []"
      using existing_size_of_Inr [OF stored(1)] True \<open>p = ?p\<close> by auto
    from stored(5) True \<open>s = Inr chunk\<close> \<open>p = ?p\<close>
    have "append_file env p chunk (emit (Requested url range) (settle env p w)) = (True, w2)"
      by (auto simp: store_body_def split: option.splits prod.splits bool.splits)
    with old d(1) readable_settled [OF old(1)] show ?thesis
      by (elim append_file_cases [where old = old]) auto
  qed
  with d \<open>p = ?p\<close> show ?thesis by (auto simp: pending_of_def)
qed simp_all

text \<open>
  A non-empty file that is already there passes as a successful download, whatever
  hash is expected, when the server answers with anything but status 206: a server without
  range requests (status 200 and the whole bundle) or with an error page. Nothing is stored and
  nothing is compared.
\<close>

lemma existing_file_never_checked:
  assumes "fs_allows env (MakeDir (dl_download_dir dl)) w"
    and "path = path_join (dl_download_dir dl) f"
    and "map_of (ow_files w) path = Some old" "old \<noteq> []" "fs_allows env (Stat path) w"
    and "map_of (ow_pending w) path = None"
    and "oe_http env (ow_events w) url (Some (''bytes='' @ show_nat (length old) @ ''-'')) = Some resp"
    and "hr_status resp \<noteq> 206"
  shows "\<exists>w'. download env sha dl url f (Some expected) cb w = (Inr path, w') \<and>
    ow_files w' = ow_files w"
  using assms by (simp add: download_def existing_size_of_def)

definition stale_env :: "unit otad_env" where
  "stale_env =
     \<lparr>oe_http = (\<lambda>h url range. Some \<lparr>hr_status = 200, hr_content_length = Some 3, hr_body = Some [1, 2, 3]\<rparr>),
      oe_run = (\<lambda>h p args. None), oe_fs = (\<lambda>h op. FsOk), oe_lands = (\<lambda>h p. 0)\<rparr>"

definition sample_downloader :: downloader where
  "sample_downloader = downloader_new (\<lambda>p. None) (\<lambda>b. True) ''http://s'' ''/d'' ''''"

lemma sample_downloader_dir [simp]: "dl_download_dir sample_downloader = ''/d''"
  by (simp add: sample_downloader_def downloader_new_def)

lemma existing_file_never_checked_witness:
  "\<exists>w'. download stale_env string_of sample_downloader ''http://s/b'' ''b'' (Some ''good'') False
     \<lparr>ow_events = [], ow_files = [(''/d/b'', [9])], ow_pending = []\<rparr> = (Inr ''/d/b'', w') \<and>
     ow_files w' = [(''/d/b'', [9])]"
proof -
  have "''/d/b'' = path_join (dl_download_dir sample_downloader) ''b''"
    by (simp add: path_join_def starts_with_def)
  from existing_file_never_checked [OF _ this, where w = "\<lparr>ow_events = [], ow_files = [(''/d/b'', [9])], ow_pending = []\<rparr>"
      and env = stale_env and old = "[9]" and url = "''http://s/b''"]
  show ?thesis by (simp add: stale_env_def fs_allows_def)
qed

lemma download_success_witness:
  "\<exists>w'. download stale_env string_of sample_downloader ''http://s/b'' ''b'' (Some (string_of [1, 2, 3])) False
       \<lparr>ow_events = [], ow_files = [], ow_pending = []\<rparr> = (Inr ''/d/b'', w') \<and>
     map_of (ow_files w') ''/d/b'' = Some [1, 2, 3]"
proof -
  let ?w = "\<lparr>ow_events = [], ow_files = [], ow_pending = []\<rparr> :: unit otad_world"
  obtain w' where r: "download stale_env string_of sample_downloader ''http://s/b'' ''b''
      (Some (string_of [1, 2, 3])) False ?w = (Inr ''/d/b'', w')"
    by (simp add: download_def existing_size_of_def fs_allows_def stale_env_def store_body_def
        write_file_def verify_hash_def read_file_def report_progress_def path_join_def starts_with_def Let_def)
  from download_success [OF r] have "\<exists>d. map_of (ow_files w') ''/d/b'' = Some d \<and>
      string_of d = string_of [1, 2, 3]"
    by (auto simp: readable_def)
  moreover have "inj string_of"
    by (metis injI bytes_of_string_of)
  ultimately have "map_of (ow_files w') ''/d/b'' = Some [1, 2, 3]"
    by (metis injD)
  with r show ?thesis by blast
qed

subsection \<open>Retrying a download\<close>

text \<open>
  A server that has the bundle \<open>full\<close> at an address and honours range requests; the connection
  may fail before or during any answer.
\<close>

definition serves :: "'n otad_env \<Rightarrow> string \<Rightarrow> bytes \<Rightarrow> bool" where
  "serves env url full \<longleftrightarrow>
     (\<forall>h resp. oe_http env h url None = Some resp \<longrightarrow>
        hr_status resp = 200 \<and> (hr_body resp = None \<or> hr_body resp = Some full)) \<and>
     (\<forall>h k resp. oe_http env h url (Some (''bytes='' @ show_nat k @ ''-'')) = Some resp \<longrightarrow>
        (if k < length full
         then hr_status resp = 206 \<and> (hr_body resp = None \<or> hr_body resp = Some (drop k full))
         else hr_status resp = 416))"

lemma serves_range:
  assumes "serves env url full"
    and "oe_http env h url (Some (''bytes='' @ show_nat k @ ''-'')) = Some resp"
  shows "if k < length full
    then hr_status resp = 206 \<and> (hr_body resp = None \<or> hr_body resp = Some (drop k full))
    else hr_status resp = 416"
  using assms(1) [unfolded serves_def, THEN conjunct2, rule_format, OF assms(2)] .

definition always_up :: "'n otad_env \<Rightarrow> string \<Rightarrow> bool" where
  "always_up env url \<longleftrightarrow>
     (\<forall>h op. oe_fs env h op = FsOk) \<and>
     (\<forall>h range. \<exists>resp. oe_http env h url range = Some resp \<and> hr_body resp \<noteq> None)"

lemma always_up_body:
  "always_up env url \<Longrightarrow> oe_http env h url rg = Some resp \<Longrightarrow> hr_body resp \<noteq> None"
  unfolding always_up_def by (metis option.inject)

lemma always_up_fs: "always_up env url \<Longrightarrow> \<forall>h op. oe_fs env h op = FsOk"
  by (simp add: always_up_def)

definition partial_copy :: "string \<Rightarrow> bytes \<Rightarrow> 'n otad_world \<Rightarrow> bool" where
  "partial_copy path full w \<longleftrightarrow>
     (case map_of (ow_files w) path of
        None \<Rightarrow> True
      | Some d \<Rightarrow> \<exists>k. d @ pending_of path w = take k full)"

lemma take_everything [simp]: "\<exists>k. xs = take k xs"
  by (metis order_refl take_all)

lemma partial_copy_emit [simp]: "partial_copy p full (emit e w) = partial_copy p full w"
  by (simp add: partial_copy_def split: option.splits)

lemma partial_copy_disk: "disk w = disk w' \<Longrightarrow> partial_copy p full w = partial_copy p full w'"
  by (auto simp: partial_copy_def pending_of_def split: option.splits)

lemma take_of_part:
  assumes "d @ late = take k full"
  shows "\<exists>k'. d @ take n late = take k' full"
proof -
  have "d @ take n late = take (length d + n) (d @ late)" by simp
  also have "\<dots> = take (min (length d + n) k) full" by (simp only: assms take_take)
  finally show ?thesis by blast
qed

lemma partial_copy_settle: "partial_copy p full w \<Longrightarrow> partial_copy p full (settle env p w)"
  by (auto simp: partial_copy_def settle_file split: option.splits intro: take_of_part)

lemma partial_copy_existing:
  assumes "existing_size_of env path w = Inr n" "n > 0" "partial_copy path full w" "pending_of path w = []"
  shows "map_of (ow_files w) path = Some (take n full) \<and> n \<le> length full"
proof -
  obtain d where d: "map_of (ow_files w) path = Some d" "n = length d"
    using existing_size_of_Inr [OF assms(1)] assms(2) by auto
  with assms(3,4) obtain k where "d = take k full"
    by (auto simp: partial_copy_def)
  with d show ?thesis by (metis append_eq_conv_conj append_take_drop_id length_take min.cobounded1)
qed

text \<open>Storing one answer of such a server.\<close>

lemma store_body_partial:
  assumes sv: "serves env url full" and pc: "partial_copy path full w" and np: "pending_of path w = []"
    and ex: "existing_size_of env path w = Inr existing"
    and rng: "rg = (if existing > 0 then Some (''bytes='' @ show_nat existing @ ''-'') else None)"
    and resp: "oe_http env h url rg = Some resp" "hr_status resp = 206 \<or> existing = 0"
    and st: "store_body env path existing resp (emit e w) = (s, w2)"
  shows "partial_copy path full w2 \<and>
    (\<forall>chunk. s = Inr chunk \<longrightarrow>
       (\<exists>d. map_of (ow_files w2) path = Some d \<and> d @ pending_of path w2 = full \<and>
         (existing = 0 \<or> (\<forall>h. length full \<le> oe_lands env h path) \<longrightarrow> d = full))) \<and>
    (hr_body resp \<noteq> None \<longrightarrow> (\<forall>h op. oe_fs env h op = FsOk) \<longrightarrow> (\<exists>chunk. s = Inr chunk))"
proof (cases "hr_body resp")
  case None
  with st pc show ?thesis by (auto simp: store_body_def)
next
  case (Some chunk)
  show ?thesis
  proof (cases "existing > 0")
    case False
    with sv rng resp Some have "chunk = full"
      unfolding serves_def by fastforce
    moreover obtain ok where "write_file env path chunk (emit e w) = (ok, w2)"
        "s = (if ok then Inr chunk else Inl DlIo)"
      using st Some False by (auto simp: store_body_def split: prod.splits bool.splits)
    ultimately show ?thesis
      using pc np False by (elim write_file_cases) (auto simp: fs_allows_def partial_copy_def split: option.splits)
  next
    case True
    note old = partial_copy_existing [OF ex True pc np]
    have c: "existing < length full" "chunk = drop existing full"
      using serves_range [OF sv, of h existing resp] True rng resp Some by (auto split: if_splits)
    obtain ok where a: "append_file env path chunk (emit e w) = (ok, w2)"
        "s = (if ok then Inr chunk else Inl DlIo)"
      using st Some True by (auto simp: store_body_def split: prod.splits bool.splits)
    have f: "map_of (ow_files (emit e w)) path = Some (take existing full)"
      using old by simp
    have t: "take existing full @ take n chunk = take (existing + n) full" for n
      by (simp add: take_add c)
    from a(1) f show ?thesis
    proof (cases rule: append_file_cases)
      case (1 k)
      have "length full \<le> k \<Longrightarrow> take existing full @ take k chunk = full"
        by (simp add: t)
      moreover have "take existing full @ take k chunk @ drop k chunk = full"
        unfolding c by (simp only: append_take_drop_id)
      ultimately show ?thesis using 1 a(2) True by (auto simp: partial_copy_def)
    next
      case 2
      with a(2) pc show ?thesis by (auto simp: fs_allows_def)
    next
      case (3 n)
      with a(2) np t [of n] show ?thesis by (auto simp: fs_allows_def partial_copy_def)
    qed
  qed
qed

text \<open>
  Property C18. Downloads can be retried: from a server that has the bundle and honours range
  requests, however often the connection breaks or the disk refuses, the file with its pending
  bytes stays a part of the bundle from its beginning, and a download that succeeds has completed
  it (no proper beginning of the bundle may have the bundle's hash). When nothing fails any more,
  a download succeeds if it starts from scratch, or if the bytes it appends have landed before
  the hash is taken; if they have not, which the missing flush allows, it may instead have
  removed the file, so that the next one starts from scratch and succeeds.
\<close>

theorem download_converges:
  assumes sv: "serves env url full" and sha: "sha full = expected"
    and part: "\<forall>k. sha (take k full) = expected \<longrightarrow> take k full = full"
    and path: "path = path_join (dl_download_dir dl) f"
    and pc: "partial_copy path full w"
    and r: "download env sha dl url f (Some expected) cb w = (r, w')"
  shows "partial_copy path full w' \<and> (\<forall>p. r = Inr p \<longrightarrow> map_of (ow_files w') p = Some full) \<and>
    (always_up env url \<longrightarrow>
       (map_of (ow_files w) path = None \<or> (\<forall>h. length full \<le> oe_lands env h path) \<longrightarrow> r = Inr path) \<and>
       (r = Inr path \<or> map_of (ow_files w') path = None))"
  using r path
proof (cases rule: download_cases [OF r path, case_names refused offline kept stored])
  case (refused e)
  then show ?thesis
    using pc partial_copy_settle [OF pc] by (auto simp: always_up_def fs_allows_def)
next
  case (offline existing rg)
  then have "\<not> always_up env url"
    unfolding always_up_def by (metis option.distinct(1))
  with offline partial_copy_settle [OF pc] show ?thesis by simp
next
  case (kept existing resp)
  have "\<not> existing < length full"
    using serves_range [OF sv kept(3)] kept(4) by auto
  with partial_copy_existing [OF kept(1,2) partial_copy_settle [OF pc]]
  have "map_of (ow_files (settle env path w)) path = Some full" by simp
  with kept partial_copy_settle [OF pc] show ?thesis by simp
next
  case (stored existing rg resp s w2)
  note sb = store_body_partial [OF sv partial_copy_settle [OF pc] settle_clears stored(1,2,3,4,5)]
  show ?thesis
  proof (cases s)
    case (Inl e)
    then have "\<not> always_up env url"
      using sb always_up_body [OF _ stored(3)] always_up_fs [of env url] by auto
    with Inl stored(6) sb show ?thesis by simp
  next
    case (Inr chunk)
    with stored(6) obtain t u where
        v: "verify_hash env sha path (Some expected)
            (report_progress cb (of_nat (length chunk) + of_nat existing) t w2) = (u, w')"
        "r = (case u of Inl e \<Rightarrow> Inl e | Inr _ \<Rightarrow> Inr path)"
      by auto
    from sb Inr obtain d where d: "map_of (ow_files w2) path = Some d" "d @ pending_of path w2 = full"
        "existing = 0 \<or> (\<forall>h. length full \<le> oe_lands env h path) \<Longrightarrow> d = full" by blast
    have fresh: "map_of (ow_files w) path = None \<Longrightarrow> existing = 0"
      using stored(1) by (simp add: existing_size_of_def settle_file)
    have "sha d = expected \<longleftrightarrow> d = full"
      using part [rule_format, of "length d"] d(2) sha by (metis append_eq_conv_conj)
    with v d(1) consider (hit) "u = Inr ()" "disk w' = disk w2" "d = full"
      | (miss) "d \<noteq> full" "\<exists>e. u = Inl e" "map_of (ow_files w') path = None"
      | (stuck) h op where "\<not> fs_allows env op h" "\<exists>e. u = Inl e" "disk w' = disk w2"
      by (auto simp: verify_hash_def read_file_def remove_file_def hashmap_simps split: if_splits)
    then show ?thesis
    proof cases
      case hit
      with v(2) d sb show ?thesis by (auto simp: partial_copy_disk [OF hit(2)])
    next
      case miss
      with v(2) d fresh show ?thesis by (auto simp: partial_copy_def)
    next
      case stuck
      then have "\<not> always_up env url" by (auto simp: always_up_def fs_allows_def)
      with stuck v(2) sb show ?thesis by (auto simp: partial_copy_disk [OF stuck(3)])
    qed
  qed
qed

text \<open>A server with the bundle 1, 2, 3.\<close>

definition range_env :: "unit otad_env" where
  "range_env =
     \<lparr>oe_http = (\<lambda>h url rg. case rg of
         None \<Rightarrow> Some \<lparr>hr_status = 200, hr_content_length = Some 3, hr_body = Some [1, 2, 3]\<rparr>
       | Some t \<Rightarrow> let k = decimal_value (drop 6 (butlast t))
           in if k < 3 then Some \<lparr>hr_status = 206, hr_content_length = None, hr_body = Some (drop k [1, 2, 3])\<rparr>
              else Some \<lparr>hr_status = 416, hr_content_length = None, hr_body = Some []\<rparr>),
      oe_run = (\<lambda>h p args. None), oe_fs = (\<lambda>h op. FsOk), oe_lands = (\<lambda>h p. 3)\<rparr>"

lemma range_env_serves: "serves range_env url [1, 2, 3] \<and> always_up range_env url"
  by (auto simp: serves_def always_up_def range_env_def decimal_value_show_nat butlast_append Let_def
      split: option.splits)

theorem download_converges_witness:
  "\<exists>w'. download range_env string_of sample_downloader ''u'' ''b'' (Some (string_of [1, 2, 3])) True
       \<lparr>ow_events = [], ow_files = [(''/d/b'', [1, 2])], ow_pending = []\<rparr> = (Inr ''/d/b'', w') \<and>
     map_of (ow_files w') ''/d/b'' = Some [1, 2, 3]"
proof -
  let ?w = "\<lparr>ow_events = [], ow_files = [(''/d/b'', [1, 2])], ow_pending = []\<rparr> :: unit otad_world"
  obtain r w' where r: "download range_env string_of sample_downloader ''u'' ''b''
      (Some (string_of [1, 2, 3])) True ?w = (r, w')"
    by (cases "download range_env string_of sample_downloader ''u'' ''b''
      (Some (string_of [1, 2, 3])) True ?w") auto
  have path: "''/d/b'' = path_join (dl_download_dir sample_downloader) ''b''"
    by (simp add: path_join_def starts_with_def)
  have "\<exists>k. [1, 2] = take k [1, 2, 3 :: u8]"
    by (rule exI [of _ 2]) simp
  then have "partial_copy ''/d/b'' [1, 2, 3] ?w"
    by (simp add: partial_copy_def pending_of_def)
  moreover have "inj string_of"
    by (metis injI bytes_of_string_of)
  then have "\<forall>k. string_of (take k [1, 2, 3]) = string_of [1, 2, 3] \<longrightarrow> take k [1, 2, 3 :: u8] = [1, 2, 3]"
    by (auto dest: injD)
  ultimately have "r = Inr ''/d/b'' \<and> map_of (ow_files w') ''/d/b'' = Some [1, 2, 3]"
    using download_converges [OF _ refl _ path _ r] range_env_serves
    by (auto simp: range_env_def)
  with r show ?thesis by blast
qed

text \<open>
  With the same faultless server and disk, but with the appended bytes landing a moment later, a
  resumed download takes the hash of an incomplete file, fails and removes what it had.
\<close>

lemma flawless_resume_fails:
  "\<exists>w'. download (range_env\<lparr>oe_lands := \<lambda>h p. 0\<rparr>) string_of sample_downloader ''u'' ''b''
       (Some (string_of [1, 2, 3])) False
       \<lparr>ow_events = [], ow_files = [(''/d/b'', [1, 2])], ow_pending = []\<rparr> =
     (Inl (DlHashMismatch (string_of [1, 2, 3]) (string_of [1, 2])), w') \<and> ow_files w' = []"
proof -
  have neq: "string_of [1, 2] \<noteq> string_of [1, 2, 3]"
    by (metis bytes_of_string_of list.inject list.distinct(1))
  have p: "path_join ''/d'' ''b'' = ''/d/b''"
    by (simp add: path_join_def starts_with_def)
  have up: "always_up range_env ''u''" and sv: "serves range_env ''u'' [1, 2, 3]"
    using range_env_serves by simp_all
  have h: "\<exists>resp. oe_http range_env [] ''u'' (Some (''bytes='' @ show_nat 2 @ ''-'')) = Some resp \<and>
      hr_status resp = 206 \<and> hr_body resp = Some [3]"
    by (simp add: range_env_def decimal_value_show_nat butlast_append Let_def)
  then show ?thesis using neq
    by (auto simp: download_def p existing_size_of_def fs_allows_def store_body_def append_file_def
        verify_hash_def read_file_def remove_file_def report_progress_def Let_def numeral_2_eq_2
        always_up_fs [OF up] set_file_def set_pending_def drop_pending_def emit_def)
qed

end
