(* ===== verification/Rauc.thy ===== *)
theory Rauc
  imports Commands
begin

section \<open>rauc-rs: the RAUC client\<close>

text \<open>
  \<open>crates/rauc-rs/src/lib.rs\<close>: the client of the command \<open>rauc\<close>, the reading of its JSON
  status, installation, marking of slots and the queries on the slots. The program is a runner
  (theory \<open>Commands\<close>), JSON values (crate serde_json) are a parameter. The progress callback
  of \<open>InstallOptions\<close>, which no code calls, is left out.
\<close>

datatype rauc_error =
    RaucIo
  | CommandFailed string
  | StatusParse string
  | RaucJson
  | InvalidSlot string
  | NoInactiveSlot

record slot_status =
  sl_name :: string
  sl_device :: string
  sl_type :: string
  sl_boot_status :: string
  sl_version :: "string option"
  sl_active :: bool

record rauc_status =
  rs_slots :: "slot_status list"
  rs_operation :: string
  rs_compatible :: "string option"
  rs_variant :: "string option"
  rs_last_error :: "string option"

record install_options =
  opt_ignore_compatible :: bool

definition install_options_default :: install_options where
  "install_options_default = \<lparr>opt_ignore_compatible = False\<rparr>"

record rauc_client =
  rauc_bin :: string

definition rauc_new :: rauc_client where
  "rauc_new = \<lparr>rauc_bin = ''/usr/bin/rauc''\<rparr>"

definition rauc_with_binary :: "string \<Rightarrow> rauc_client" where
  "rauc_with_binary p = \<lparr>rauc_bin = p\<rparr>"

subsection \<open>Running rauc\<close>

definition rauc_output ::
  "'w runner \<Rightarrow> rauc_client \<Rightarrow> string list \<Rightarrow> 'w \<Rightarrow> (rauc_error + cmd_output) \<times> 'w" where
  "rauc_output run c args w =
     (case run w (rauc_bin c) args of
        (None, w') \<Rightarrow> (Inl RaucIo, w')
      | (Some out, w') \<Rightarrow>
          if \<not> co_success out then (Inl (CommandFailed (co_stderr out)), w') else (Inr out, w'))"

definition unwrap_or :: "'a \<Rightarrow> 'a option \<Rightarrow> 'a" where
  "unwrap_or d x = (case x of None \<Rightarrow> d | Some v \<Rightarrow> v)"

definition parse_slot :: "'j json_api \<Rightarrow> 'j \<Rightarrow> slot_status" where
  "parse_slot js slot =
     \<lparr>sl_name = unwrap_or '''' (j_str js (j_index js slot ''name'')),
      sl_device = unwrap_or '''' (j_str js (j_index js slot ''device'')),
      sl_type = unwrap_or ''raw'' (j_str js (j_index js slot ''type'')),
      sl_boot_status = unwrap_or ''inactive'' (j_str js (j_index js slot ''boot_status'')),
      sl_version = j_str js (j_index js slot ''version''),
      sl_active =
        (j_str js (j_index js slot ''boot_status'') = Some ''active'' \<or>
         j_str js (j_index js slot ''state'') = Some ''active'')\<rparr>"

definition parse_status_json :: "'j json_api \<Rightarrow> 'j \<Rightarrow> rauc_error + rauc_status" where
  "parse_status_json js v =
     (let slots = (case Option.bind (j_get js v ''slots'') (j_array js) of
                     None \<Rightarrow> [] | Some arr \<Rightarrow> map (parse_slot js) arr)
      in Inr \<lparr>rs_slots = slots,
              rs_operation = unwrap_or ''idle'' (j_str js (j_index js v ''operation'')),
              rs_compatible = j_str js (j_index js v ''compatible''),
              rs_variant = j_str js (j_index js v ''variant''),
              rs_last_error = j_str js (j_index js v ''last_error'')\<rparr>)"

definition status ::
  "'w runner \<Rightarrow> 'j json_api \<Rightarrow> rauc_client \<Rightarrow> 'w \<Rightarrow> (rauc_error + rauc_status) \<times> 'w" where
  "status run js c w =
     (case rauc_output run c [''status'', ''--output-format=json''] w of
        (Inl e, w') \<Rightarrow> (Inl e, w')
      | (Inr out, w') \<Rightarrow>
          (case j_parse js (co_stdout out) of
             None \<Rightarrow> (Inl RaucJson, w')
           | Some v \<Rightarrow> (parse_status_json js v, w')))"

definition install_args :: "string \<Rightarrow> install_options \<Rightarrow> string list" where
  "install_args bundle_path options =
     [''install''] @ (if opt_ignore_compatible options then [''--ignore-compatible''] else []) @
     [bundle_path]"

definition ignore_output :: "('e + 'a) \<times> 'w \<Rightarrow> ('e + unit) \<times> 'w" where
  "ignore_output r = (case r of (Inl e, w) \<Rightarrow> (Inl e, w) | (Inr _, w) \<Rightarrow> (Inr (), w))"

definition rauc_install ::
  "'w runner \<Rightarrow> rauc_client \<Rightarrow> string \<Rightarrow> install_options \<Rightarrow> 'w \<Rightarrow> (rauc_error + unit) \<times> 'w" where
  "rauc_install run c bundle_path options w =
     ignore_output (rauc_output run c (install_args bundle_path options) w)"

definition mark_good :: "'w runner \<Rightarrow> rauc_client \<Rightarrow> 'w \<Rightarrow> (rauc_error + unit) \<times> 'w" where
  "mark_good run c w = ignore_output (rauc_output run c [''status'', ''mark-good''] w)"

definition mark_bad ::
  "'w runner \<Rightarrow> rauc_client \<Rightarrow> string option \<Rightarrow> 'w \<Rightarrow> (rauc_error + unit) \<times> 'w" where
  "mark_bad run c slot_name w =
     ignore_output
       (rauc_output run c
         ([''status'', ''mark-bad''] @ (case slot_name of None \<Rightarrow> [] | Some n \<Rightarrow> [n])) w)"

definition verify_args :: "string \<Rightarrow> string list" where
  "verify_args bundle_path = [''info'', ''--output-format=json'', bundle_path]"

definition rauc_verify_bundle ::
  "'w runner \<Rightarrow> rauc_client \<Rightarrow> string \<Rightarrow> 'w \<Rightarrow> (rauc_error + unit) \<times> 'w" where
  "rauc_verify_bundle run c bundle_path w =
     ignore_output (rauc_output run c (verify_args bundle_path) w)"

subsection \<open>Queries\<close>

definition map_result :: "('a \<Rightarrow> 'e + 'b) \<Rightarrow> ('e + 'a) \<times> 'w \<Rightarrow> ('e + 'b) \<times> 'w" where
  "map_result f r = (case r of (Inl e, w) \<Rightarrow> (Inl e, w) | (Inr x, w) \<Rightarrow> (f x, w))"

definition ok_or :: "'e \<Rightarrow> 'a option \<Rightarrow> 'e + 'a" where
  "ok_or e x = (case x of None \<Rightarrow> Inl e | Some v \<Rightarrow> Inr v)"

definition get_inactive_slot ::
  "'w runner \<Rightarrow> 'j json_api \<Rightarrow> rauc_client \<Rightarrow> 'w \<Rightarrow> (rauc_error + slot_status) \<times> 'w" where
  "get_inactive_slot run js c w =
     map_result (\<lambda>st. ok_or NoInactiveSlot (find (\<lambda>s. \<not> sl_active s) (rs_slots st)))
       (status run js c w)"

definition get_active_slot ::
  "'w runner \<Rightarrow> 'j json_api \<Rightarrow> rauc_client \<Rightarrow> 'w \<Rightarrow> (rauc_error + slot_status) \<times> 'w" where
  "get_active_slot run js c w =
     map_result (\<lambda>st. ok_or (InvalidSlot ''No active slot found'') (find sl_active (rs_slots st)))
       (status run js c w)"

definition is_busy ::
  "'w runner \<Rightarrow> 'j json_api \<Rightarrow> rauc_client \<Rightarrow> 'w \<Rightarrow> (rauc_error + bool) \<times> 'w" where
  "is_busy run js c w =
     map_result (\<lambda>st. Inr (rs_operation st \<noteq> ''idle'')) (status run js c w)"

definition current_version ::
  "'w runner \<Rightarrow> 'j json_api \<Rightarrow> rauc_client \<Rightarrow> 'w \<Rightarrow> (rauc_error + string option) \<times> 'w" where
  "current_version run js c w =
     map_result (\<lambda>st. Inr (Option.bind (find sl_active (rs_slots st)) sl_version))
       (status run js c w)"

subsection \<open>What the queries say\<close>

lemma find_first:
  "find P xs = Some x \<longleftrightarrow> (\<exists>ys zs. xs = ys @ x # zs \<and> P x \<and> (\<forall>y \<in> set ys. \<not> P y))"
proof (induction xs)
  case (Cons a xs)
  show ?case
  proof (cases "P a")
    case True
    then show ?thesis by (auto simp: Cons_eq_append_conv)
  next
    case False
    then have "find P (a # xs) = Some x \<longleftrightarrow>
        (\<exists>ys zs. xs = ys @ x # zs \<and> P x \<and> (\<forall>y \<in> set ys. \<not> P y))"
      using Cons by simp
    also have "\<dots> \<longleftrightarrow> (\<exists>ys zs. a # xs = ys @ x # zs \<and> P x \<and> (\<forall>y \<in> set ys. \<not> P y))"
    proof
      assume "\<exists>ys zs. xs = ys @ x # zs \<and> P x \<and> (\<forall>y \<in> set ys. \<not> P y)"
      then obtain ys zs where "xs = ys @ x # zs \<and> P x \<and> (\<forall>y \<in> set ys. \<not> P y)" by blast
      with False have "a # xs = (a # ys) @ x # zs \<and> P x \<and> (\<forall>y \<in> set (a # ys). \<not> P y)" by simp
      then show "\<exists>ys zs. a # xs = ys @ x # zs \<and> P x \<and> (\<forall>y \<in> set ys. \<not> P y)" by blast
    qed (use False in \<open>auto simp: Cons_eq_append_conv\<close>)
    finally show ?thesis .
  qed
qed simp

lemma find_none: "find P xs = None \<longleftrightarrow> (\<forall>x \<in> set xs. \<not> P x)"
  by (auto simp: find_None_iff)

lemma find_sat: "find P xs = Some x \<Longrightarrow> P x"
  by (auto simp: find_first)

lemma query_result:
  "fst (status run js c w) = Inr st \<Longrightarrow> fst (map_result f (status run js c w)) = f st"
  by (cases "status run js c w") (auto simp: map_result_def)

definition first_slot :: "(slot_status \<Rightarrow> bool) \<Rightarrow> rauc_status \<Rightarrow> slot_status \<Rightarrow> bool" where
  "first_slot P st s \<longleftrightarrow>
     (\<exists>before after. rs_slots st = before @ s # after \<and> P s \<and> (\<forall>x \<in> set before. \<not> P x))"

text \<open>
  The queries agree with one another on the status that rauc printed: the active
  slot is the first one marked active, the target of an update the first one that is not, they
  are different slots, the current version is the active slot's, and the failures are exactly
  the statuses without such a slot; without an active slot the version query still succeeds.
\<close>

lemma slot_queries_agree:
  assumes "fst (status run js c w) = Inr st"
  shows "(fst (get_active_slot run js c w) = Inr s \<longleftrightarrow> first_slot sl_active st s) \<and>
    (fst (get_inactive_slot run js c w) = Inr t \<longleftrightarrow> first_slot (\<lambda>x. \<not> sl_active x) st t) \<and>
    (fst (get_active_slot run js c w) = Inr s \<and> fst (get_inactive_slot run js c w) = Inr t \<longrightarrow> s \<noteq> t) \<and>
    (fst (get_active_slot run js c w) = Inr s \<longrightarrow>
       fst (current_version run js c w) = Inr (sl_version s)) \<and>
    (fst (get_inactive_slot run js c w) = Inl NoInactiveSlot \<longleftrightarrow> (\<forall>x \<in> set (rs_slots st). sl_active x)) \<and>
    ((\<forall>x \<in> set (rs_slots st). \<not> sl_active x) \<longrightarrow>
       fst (get_active_slot run js c w) = Inl (InvalidSlot ''No active slot found'') \<and>
       fst (current_version run js c w) = Inr None)"
proof -
  note q = get_active_slot_def get_inactive_slot_def current_version_def
  have act: "fst (get_active_slot run js c w) =
      ok_or (InvalidSlot ''No active slot found'') (find sl_active (rs_slots st))"
    and inact: "fst (get_inactive_slot run js c w) =
      ok_or NoInactiveSlot (find (\<lambda>s. \<not> sl_active s) (rs_slots st))"
    and ver: "fst (current_version run js c w) =
      Inr (Option.bind (find sl_active (rs_slots st)) sl_version)"
    by (simp_all add: q query_result [OF assms])
  have ok: "ok_or e x = Inr v \<longleftrightarrow> x = Some v" for e x and v :: slot_status
    by (simp add: ok_or_def split: option.splits)
  have bad: "ok_or e x = Inl e \<longleftrightarrow> x = None" for e and x :: "slot_status option"
    by (simp add: ok_or_def split: option.splits)
  have none: "\<forall>x \<in> set (rs_slots st). \<not> sl_active x \<Longrightarrow> find sl_active (rs_slots st) = None"
    by (simp add: find_none)
  show ?thesis
    unfolding act inact ver ok bad first_slot_def find_first [of sl_active, symmetric]
      find_first [of "\<lambda>x. \<not> sl_active x", symmetric]
    by (auto simp: find_none none ok_or_def dest: find_sat)
qed

text \<open>A status with two slots, its fields read by name.\<close>

definition sample_json :: "(string \<times> string) list list json_api" where
  "sample_json =
     \<lparr>j_get = (\<lambda>v k. Some v), j_index = (\<lambda>v k. map (filter (\<lambda>p. fst p = k)) v),
      j_array = (\<lambda>v. Some (map (\<lambda>x. [x]) v)),
      j_str = (\<lambda>v. case concat v of [] \<Rightarrow> None | p # _ \<Rightarrow> Some (snd p)), j_u64 = (\<lambda>v. None),
      j_bool = (\<lambda>v. None),
      j_parse = (\<lambda>b. Some [[(''name'', ''rootfs.0''), (''state'', ''inactive'')],
                        [(''name'', ''rootfs.1''), (''boot_status'', ''active''), (''version'', ''1.1.0'')]])\<rparr>"

definition sample_runner :: "unit runner" where
  "sample_runner w prog args = (Some \<lparr>co_success = True, co_stdout = [], co_stderr = []\<rparr>, w)"

lemma slot_queries_agree_witness:
  "fst (current_version sample_runner sample_json rauc_new ()) = Inr (Some ''1.1.0'')"
proof -
  let ?a = "\<lparr>sl_name = ''rootfs.1'', sl_device = [], sl_type = ''raw'', sl_boot_status = ''active'',
             sl_version = Some ''1.1.0'', sl_active = True\<rparr>"
  let ?b = "\<lparr>sl_name = ''rootfs.0'', sl_device = [], sl_type = ''raw'', sl_boot_status = ''inactive'',
             sl_version = None, sl_active = False\<rparr>"
  let ?st = "\<lparr>rs_slots = [?b, ?a], rs_operation = ''idle'', rs_compatible = None, rs_variant = None,
              rs_last_error = None\<rparr>"
  have st: "fst (status sample_runner sample_json rauc_new ()) = Inr ?st"
    by (simp add: status_def rauc_output_def sample_runner_def sample_json_def rauc_new_def
        parse_status_json_def parse_slot_def unwrap_or_def)
  have "first_slot sl_active ?st ?a"
    unfolding first_slot_def by (rule exI [of _ "[?b]"]) simp
  with slot_queries_agree [OF st, of ?a] show ?thesis by simp
qed

end
