(* ===== verification/OtadOrch.thy ===== *)
theory OtadOrch
  imports OtadDownloader Rauc UpdateVerify
begin

section \<open>otad: the orchestrator\<close>

text \<open>
  \<open>crates/otad/src/orch.rs\<close> and \<open>main.rs\<close>: the state machine of an update, from the check to
  the reboot, the polling loop and the start of the daemon. A notification is an
  event with its method and payload at the place where the code spawns the task that sends it.
  Each such task is on its own, its failure is only logged, and nothing orders the tasks: the
  history is the order of the spawns, not the order in which messages reach the bus. \<open>reboot(2)\<close> is an event: the code goes on when the call returns. The loop is modelled
  with the number of polls it has made. An error state carries the error, the code its text.
\<close>

datatype orch_error = RaucFailed rauc_error | DownloadFailed dl_error | NoDownloadUrl

datatype ota_state =
    Idle
  | Checking
  | UpdateAvailable string u64 bool
  | NoUpdate
  | Downloading string u32
  | Downloaded string string
  | Verifying string
  | Installing string
  | WaitingReboot string
  | Rebooting
  | StateError orch_error

datatype ota_payload =
    StateChanged ota_state ota_state
  | UpdateReady string string
  | UiMessage string

record 'k orchestrator =
  o_config :: ota_config
  o_verifier :: "'k bundle_verifier"
  o_downloader :: downloader
  o_rauc :: rauc_client
  o_bus_socket :: string
  o_bus_client :: bool
  o_state :: ota_state
  o_world :: "ota_payload otad_world"

definition orchestrator_new ::
  "ota_config \<Rightarrow> 'k bundle_verifier \<Rightarrow> downloader \<Rightarrow> rauc_client \<Rightarrow> string \<Rightarrow>
   ota_payload otad_world \<Rightarrow> 'k orchestrator" where
  "orchestrator_new c v dl rauc sock w =
     \<lparr>o_config = c, o_verifier = v, o_downloader = dl, o_rauc = rauc, o_bus_socket = sock,
      o_bus_client = False, o_state = Idle, o_world = w\<rparr>"

definition set_bus_client :: "'k orchestrator \<Rightarrow> 'k orchestrator" where
  "set_bus_client m = m\<lparr>o_bus_client := True\<rparr>"

definition on_world ::
  "(ota_payload otad_world \<Rightarrow> 'a \<times> ota_payload otad_world) \<Rightarrow> 'k orchestrator \<Rightarrow> 'a \<times> 'k orchestrator" where
  "on_world f m = (case f (o_world m) of (r, w) \<Rightarrow> (r, m\<lparr>o_world := w\<rparr>))"

definition happen :: "ota_payload otad_event \<Rightarrow> 'k orchestrator \<Rightarrow> 'k orchestrator" where
  "happen e m = m\<lparr>o_world := emit e (o_world m)\<rparr>"

subsection \<open>Notifications and states\<close>

definition notify_ui :: "string \<Rightarrow> ota_payload \<Rightarrow> 'k orchestrator \<Rightarrow> 'k orchestrator" where
  "notify_ui event payload m =
     (if o_bus_client m then happen (Notified (''ota.'' @ event) payload) m else m)"

definition set_state :: "ota_state \<Rightarrow> 'k orchestrator \<Rightarrow> 'k orchestrator" where
  "set_state st m =
     notify_ui ''ota.state_changed'' (StateChanged st (o_state m)) (m\<lparr>o_state := st\<rparr>)"

subsection \<open>Installation and reboot\<close>

definition reboot :: "'k orchestrator \<Rightarrow> (orch_error + unit) \<times> 'k orchestrator" where
  "reboot m =
     (Inr (),
      happen RebootCalled
       (happen (Slept 2)
         (notify_ui ''rebooting'' (UiMessage ''System is rebooting to complete update...'')
           (set_state Rebooting m))))"

definition install_update ::
  "ota_payload otad_env \<Rightarrow> string \<Rightarrow> 'k orchestrator \<Rightarrow> (orch_error + unit) \<times> 'k orchestrator" where
  "install_update env bundle_path m =
     (let version = (case o_state m of Downloaded v _ \<Rightarrow> v | _ \<Rightarrow> ''unknown'');
          m1 = set_state (Installing version) m
      in case on_world (rauc_install (otad_run env) (o_rauc m1) bundle_path install_options_default) m1 of
           (Inl e, m2) \<Rightarrow> (Inl (RaucFailed e), m2)
         | (Inr _, m2) \<Rightarrow>
             let m3 = set_state (WaitingReboot version) m2
             in if cfg_auto_reboot (o_config m3) then reboot m3
                else (Inr (), notify_ui ''reboot_needed''
                        (UiMessage ''System update installed. Please reboot.'') m3))"

definition confirm_boot ::
  "ota_payload otad_env \<Rightarrow> 'k orchestrator \<Rightarrow> (orch_error + unit) \<times> 'k orchestrator" where
  "confirm_boot env m =
     (case on_world (mark_good (otad_run env) (o_rauc m)) m of
        (Inl e, m1) \<Rightarrow> (Inl (RaucFailed e), m1) | (Inr _, m1) \<Rightarrow> (Inr (), m1))"

definition mark_boot_failed ::
  "ota_payload otad_env \<Rightarrow> 'k orchestrator \<Rightarrow> (orch_error + unit) \<times> 'k orchestrator" where
  "mark_boot_failed env m =
     (case on_world (mark_bad (otad_run env) (o_rauc m) None) m of
        (Inl e, m1) \<Rightarrow> (Inl (RaucFailed e), m1) | (Inr _, m1) \<Rightarrow> (Inr (), m1))"

subsection \<open>One check\<close>

text \<open>What the definitions need from JSON and SHA-256.\<close>

record 'j ota_api =
  api_json :: "'j json_api"
  api_info :: "bytes \<Rightarrow> update_info option"
  api_sha_hex :: "bytes \<Rightarrow> string"

definition bundle_filename :: "update_info \<Rightarrow> string" where
  "bundle_filename info = ''update-'' @ ui_version info @ ''.raucb''"

text \<open>From the verification of the stored bundle on.\<close>

definition verify_and_install ::
  "ota_payload otad_env \<Rightarrow> update_info \<Rightarrow> string \<Rightarrow> 'k orchestrator \<Rightarrow>
   (orch_error + unit) \<times> 'k orchestrator" where
  "verify_and_install env info path m =
     (let m1 = set_state (Verifying (ui_version info)) (set_state (Downloaded (ui_version info) path) m)
      in case on_world (rauc_verify_bundle (otad_run env) (o_rauc m1) path) m1 of
           (Inl e, m2) \<Rightarrow> (Inl (RaucFailed e), m2)
         | (Inr _, m2) \<Rightarrow>
             if cfg_auto_install (o_config m2) then install_update env path m2
             else (Inr (), notify_ui ''update_ready'' (UpdateReady (ui_version info) path) m2))"

text \<open>An update that the server offers.\<close>

definition apply_update ::
  "ota_payload otad_env \<Rightarrow> 'j ota_api \<Rightarrow> update_info \<Rightarrow> 'k orchestrator \<Rightarrow>
   (orch_error + unit) \<times> 'k orchestrator" where
  "apply_update env api info m =
     (let m1 = set_state (Downloading (ui_version info) 0)
                (set_state (UpdateAvailable (ui_version info) (ui_size info) (ui_critical info)) m)
      in case ui_download_url info of
           None \<Rightarrow> (Inl NoDownloadUrl, m1)
         | Some url \<Rightarrow>
             (case on_world (download env (api_sha_hex api) (o_downloader m1) url (bundle_filename info)
                      (Some (ui_sha256 info)) True) m1 of
                (Inl e, m2) \<Rightarrow> (Inl (DownloadFailed e), m2)
              | (Inr path, m2) \<Rightarrow> verify_and_install env info path m2))"

definition check_and_update ::
  "ota_payload otad_env \<Rightarrow> 'j ota_api \<Rightarrow> 'k orchestrator \<Rightarrow> (orch_error + unit) \<times> 'k orchestrator" where
  "check_and_update env api m =
     (let m1 = set_state Checking m
      in case on_world (current_version (otad_run env) (api_json api) (o_rauc m1)) m1 of
           (Inl e, m2) \<Rightarrow> (Inl (RaucFailed e), m2)
         | (Inr v, m2) \<Rightarrow>
             (let current = or_else v ''0.0.0''
              in case on_world (check_update env (api_info api) (o_downloader m2)
                     (cfg_device (o_config m2)) (cfg_channel (o_config m2)) current) m2 of
                   (Inl e, m3) \<Rightarrow> (Inl (DownloadFailed e), m3)
                 | (Inr None, m3) \<Rightarrow> (Inr (), set_state NoUpdate m3)
                 | (Inr (Some info), m3) \<Rightarrow> apply_update env api info m3))"

subsection \<open>The polling loop and the start\<close>

definition poll_once ::
  "ota_payload otad_env \<Rightarrow> 'j ota_api \<Rightarrow> 'k orchestrator \<Rightarrow> 'k orchestrator" where
  "poll_once env api m =
     (case check_and_update env api (happen (Slept (unat (cfg_poll_interval_secs (o_config m)))) m) of
        (Inl e, m1) \<Rightarrow> set_state (StateError e) m1
      | (Inr _, m1) \<Rightarrow> m1)"

primrec polls ::
  "nat \<Rightarrow> ota_payload otad_env \<Rightarrow> 'j ota_api \<Rightarrow> 'k orchestrator \<Rightarrow> 'k orchestrator" where
  "polls 0 env api m = m"
| "polls (Suc n) env api m = polls n env api (poll_once env api m)"

definition run_polling_loop ::
  "nat \<Rightarrow> ota_payload otad_env \<Rightarrow> 'j ota_api \<Rightarrow> 'k orchestrator \<Rightarrow> 'k orchestrator" where
  "run_polling_loop n env api m = polls n env api (snd (check_and_update env api m))"

text \<open>
  The command line, and the verifier made from it. \<open>None\<close> is a panic: a key that is not
  hexadecimal, not 32 bytes long or not a point of the curve.
\<close>

record otad_args =
  oa_config :: string
  oa_bus_socket :: string
  oa_public_key :: "string option"
  oa_check_once :: bool

definition otad_verifier ::
  "('j, 'sk, 'k) crypto_api \<Rightarrow> hex_api \<Rightarrow> string option \<Rightarrow> string \<Rightarrow> 'k bundle_verifier option" where
  "otad_verifier crypto hex public_key device =
     (case public_key of
        Some key_hex \<Rightarrow>
          (case hex_decode hex key_hex of
             None \<Rightarrow> None
           | Some key_bytes \<Rightarrow>
               if length key_bytes \<noteq> 32 then None
               else (case verifier_new crypto key_bytes of
                       Inl _ \<Rightarrow> None | Inr v \<Rightarrow> Some (set_allowed_devices [device] v)))
      | None \<Rightarrow>
          (case verifier_new crypto (replicate 32 0) of Inl _ \<Rightarrow> None | Inr v \<Rightarrow> Some v))"

text \<open>
  \<open>main\<close>: the exit code and the orchestrator after \<open>n\<close> polls. \<open>config_text\<close> is what the file
  holds, \<open>bus_up\<close> whether the bus accepts the connection.
\<close>

definition otad_main ::
  "('v, 'sk, 'k) crypto_api \<Rightarrow> hex_api \<Rightarrow> (string \<Rightarrow> ota_config_yaml option) \<Rightarrow>
   (string \<Rightarrow> bytes option option) \<Rightarrow> (bytes \<Rightarrow> bool) \<Rightarrow> ota_payload otad_env \<Rightarrow> 'j ota_api \<Rightarrow> nat \<Rightarrow>
   string option \<Rightarrow> bool \<Rightarrow> otad_args \<Rightarrow> (string, bytes) hashmap \<Rightarrow> (nat \<times> 'k orchestrator) option" where
  "otad_main crypto hex from_yaml file_at pem_ok env api n config_text bus_up args files =
     (let config = (case config_load from_yaml config_text of Inl _ \<Rightarrow> config_default | Inr c \<Rightarrow> c)
      in case otad_verifier crypto hex (oa_public_key args) (cfg_device config) of
           None \<Rightarrow> None
         | Some v \<Rightarrow>
             let dl = downloader_new file_at pem_ok (cfg_server_url config) (cfg_download_dir config)
                        (cfg_tls_ca_bundle config);
                 m = orchestrator_new config v dl rauc_new (oa_bus_socket args)
                       \<lparr>ow_events = [], ow_files = files, ow_pending = []\<rparr>;
                 m1 = (if bus_up then set_bus_client m else m)
             in Some (if oa_check_once args
                      then (case check_and_update env api m1 of (Inl _, m2) \<Rightarrow> (1, m2) | (Inr _, m2) \<Rightarrow> (0, m2))
                      else (0, run_polling_loop n env api m1)))"

subsection \<open>The interface of an invariant of the orchestrator\<close>

abbreviation events :: "'k orchestrator \<Rightarrow> ota_payload otad_event list" where
  "events m \<equiv> ow_events (o_world m)"

lemma notify_ui_simps [simp]:
  "o_state (notify_ui ev p m) = o_state m" "o_config (notify_ui ev p m) = o_config m"
  "o_rauc (notify_ui ev p m) = o_rauc m" "o_downloader (notify_ui ev p m) = o_downloader m"
  "o_bus_client (notify_ui ev p m) = o_bus_client m" "o_verifier (notify_ui ev p m) = o_verifier m"
  "events (notify_ui ev p m) =
     events m @ (if o_bus_client m then [Notified (''ota.'' @ ev) p] else [])"
  by (simp_all add: notify_ui_def happen_def)

lemma set_state_simps [simp]:
  "o_state (set_state st m) = st" "o_config (set_state st m) = o_config m"
  "o_rauc (set_state st m) = o_rauc m" "o_downloader (set_state st m) = o_downloader m"
  "o_bus_client (set_state st m) = o_bus_client m" "o_verifier (set_state st m) = o_verifier m"
  "events (set_state st m) = events m @
     (if o_bus_client m then [Notified (''ota.'' @ ''ota.state_changed'') (StateChanged st (o_state m))] else [])"
  by (simp_all add: set_state_def)

lemma happen_simps [simp]:
  "o_state (happen e m) = o_state m" "o_config (happen e m) = o_config m"
  "o_rauc (happen e m) = o_rauc m" "o_downloader (happen e m) = o_downloader m"
  "o_bus_client (happen e m) = o_bus_client m" "o_verifier (happen e m) = o_verifier m"
  "events (happen e m) = events m @ [e]"
  by (simp_all add: happen_def)

text \<open>Every call of rauc is one event, whatever its answer.\<close>

lemma rauc_output_world: "snd (rauc_output (otad_run env) c args w) = emit (Ran (rauc_bin c) args) w"
  by (auto simp: rauc_output_def otad_run_def split: option.splits)

lemma ignore_output_world [simp]: "snd (ignore_output r) = snd r"
  by (cases r) (auto simp: ignore_output_def split: sum.splits)

lemma map_result_world [simp]: "snd (map_result f r) = snd r"
  by (cases r) (auto simp: map_result_def split: sum.splits)

definition status_args :: "string list" where
  "status_args = [''status'', ''--output-format=json'']"

lemma status_world: "snd (status (otad_run env) js c w) = emit (Ran (rauc_bin c) status_args) w"
  using rauc_output_world [of env c status_args w]
  by (auto simp: status_def status_args_def split: prod.splits sum.splits option.splits)

lemma on_world_runs:
  "on_world (current_version (otad_run env) js c) m = (r, m') \<Longrightarrow> m' = happen (Ran (rauc_bin c) status_args) m"
  "on_world (rauc_verify_bundle (otad_run env) c p) m = (s, m') \<Longrightarrow> m' = happen (Ran (rauc_bin c) (verify_args p)) m"
  "on_world (rauc_install (otad_run env) c p opts) m = (s, m') \<Longrightarrow>
     m' = happen (Ran (rauc_bin c) (install_args p opts)) m"
proof -
  have step: "on_world f m = (x, m') \<Longrightarrow> m' = m\<lparr>o_world := snd (f (o_world m))\<rparr>" for f x
    by (auto simp: on_world_def split: prod.splits)
  show "on_world (current_version (otad_run env) js c) m = (r, m') \<Longrightarrow> m' = happen (Ran (rauc_bin c) status_args) m"
    by (drule step) (simp add: current_version_def status_world happen_def)
  show "on_world (rauc_verify_bundle (otad_run env) c p) m = (s, m') \<Longrightarrow> m' = happen (Ran (rauc_bin c) (verify_args p)) m"
    by (drule step) (simp add: rauc_verify_bundle_def rauc_output_world happen_def)
  show "on_world (rauc_install (otad_run env) c p opts) m = (s, m') \<Longrightarrow>
      m' = happen (Ran (rauc_bin c) (install_args p opts)) m"
    by (drule step) (simp add: rauc_install_def rauc_output_world happen_def)
qed

lemma on_world_quiet:
  "on_world (check_update env parse dl d c v) m = (r, m') \<Longrightarrow>
     \<exists>w. m' = m\<lparr>o_world := w\<rparr> \<and> quietly (o_world m) w"
  "on_world (download env sha dl url f e cb) m = (s, m') \<Longrightarrow>
     \<exists>w. m' = m\<lparr>o_world := w\<rparr> \<and> quietly (o_world m) w"
  using check_update_quiet [of "o_world m" env parse dl d c v] download_quiet [of env sha dl url f e cb "o_world m"]
  by (auto simp: on_world_def split: prod.splits)

text \<open>The verification that comes before an installation: nothing but notifications in between.\<close>

fun is_notified :: "'n otad_event \<Rightarrow> bool" where
  "is_notified (Notified _ _) = True"
| "is_notified _ = False"

definition verified ::
  "ota_payload otad_env \<Rightarrow> string \<Rightarrow> string \<Rightarrow> ota_payload otad_event list \<Rightarrow> bool" where
  "verified env bin path es \<longleftrightarrow>
     (\<exists>pre mid out. es = pre @ Ran bin (verify_args path) # mid \<and> list_all is_notified mid \<and>
        oe_run env pre bin (verify_args path) = Some out \<and> co_success out)"

lemma rauc_verify_ok:
  assumes "on_world (rauc_verify_bundle (otad_run env) c p) m = (Inr u, m')"
  shows "verified env (rauc_bin c) p (events m')"
proof -
  have "m' = happen (Ran (rauc_bin c) (verify_args p)) m"
    by (rule on_world_runs(2) [OF assms])
  moreover have "\<exists>out. oe_run env (events m) (rauc_bin c) (verify_args p) = Some out \<and> co_success out"
    using assms by (auto simp: on_world_def rauc_verify_bundle_def ignore_output_def rauc_output_def
        otad_run_def split: prod.splits option.splits sum.splits if_splits)
  ultimately show ?thesis
    unfolding verified_def by (metis happen_simps(7) list.pred_inject(1))
qed

lemma verified_notify: "verified env b p es \<Longrightarrow> list_all is_notified mid \<Longrightarrow> verified env b p (es @ mid)"
  unfolding verified_def by fastforce

text \<open>
  The state machine that the head of \<open>orch.rs\<close> draws, the changes of the code that are not in the
  drawing, and what a change carries over. The code starts a check from wherever the last one
  ended: there is no way back to \<open>Idle\<close>. It finds out that there is no update while it checks,
  not from an available update.
\<close>

definition documented_edge :: "ota_state \<Rightarrow> ota_state \<Rightarrow> bool" where
  "documented_edge old new =
     (case old of
        Idle \<Rightarrow> new = Checking
      | Checking \<Rightarrow> (case new of UpdateAvailable _ _ _ \<Rightarrow> True | _ \<Rightarrow> False)
      | UpdateAvailable _ _ _ \<Rightarrow> (case new of Downloading _ _ \<Rightarrow> True | NoUpdate \<Rightarrow> True | _ \<Rightarrow> False)
      | Downloading _ _ \<Rightarrow> (case new of Downloaded _ _ \<Rightarrow> True | _ \<Rightarrow> False)
      | Downloaded _ _ \<Rightarrow> (case new of Verifying _ \<Rightarrow> True | _ \<Rightarrow> False)
      | Verifying _ \<Rightarrow> (case new of Installing _ \<Rightarrow> True | _ \<Rightarrow> False)
      | Installing _ \<Rightarrow> (case new of WaitingReboot _ \<Rightarrow> True | _ \<Rightarrow> False)
      | WaitingReboot _ \<Rightarrow> new = Rebooting
      | Rebooting \<Rightarrow> new = Idle
      | _ \<Rightarrow> False)"

fun failing :: "ota_state \<Rightarrow> bool" where
  "failing Checking = True"
| "failing (Downloading _ _) = True"
| "failing (Verifying _) = True"
| "failing (Installing _) = True"
| "failing _ = False"

definition undocumented_edge :: "ota_state \<Rightarrow> ota_state \<Rightarrow> bool" where
  "undocumented_edge old new =
     (case new of
        Checking \<Rightarrow> old \<in> {Checking, NoUpdate, Rebooting} \<or>
          (case old of Downloading _ _ \<Rightarrow> True | Verifying _ \<Rightarrow> True | Installing _ \<Rightarrow> True
             | WaitingReboot _ \<Rightarrow> True | StateError _ \<Rightarrow> True | _ \<Rightarrow> False)
      | NoUpdate \<Rightarrow> old = Checking
      | StateError _ \<Rightarrow> failing old
      | _ \<Rightarrow> False)"

definition version_carried :: "ota_state \<Rightarrow> ota_state \<Rightarrow> bool" where
  "version_carried old new =
     (case (old, new) of
        (UpdateAvailable u _ _, Downloading v k) \<Rightarrow> v = u \<and> k = 0
      | (Downloading u _, Downloaded v _) \<Rightarrow> v = u
      | (Downloaded u _, Verifying v) \<Rightarrow> v = u
      | (Verifying _, Installing v) \<Rightarrow> v = ''unknown''
      | (Installing u, WaitingReboot v) \<Rightarrow> v = u
      | _ \<Rightarrow> True)"

definition ota_edge :: "ota_state \<Rightarrow> ota_state \<Rightarrow> bool" where
  "ota_edge old new \<longleftrightarrow>
     documented_edge old new \<and> new \<noteq> NoUpdate \<and> new \<noteq> Idle \<and> version_carried old new \<or>
     undocumented_edge old new"

fun resting :: "ota_state \<Rightarrow> bool" where
  "resting (UpdateAvailable _ _ _) = False"
| "resting (Downloaded _ _) = False"
| "resting _ = True"

lemma ota_edge_cases:
  "ota_edge old new =
     (case new of
        Idle \<Rightarrow> False
      | Checking \<Rightarrow> resting old
      | UpdateAvailable _ _ _ \<Rightarrow> old = Checking
      | NoUpdate \<Rightarrow> old = Checking
      | Downloading v k \<Rightarrow> (case old of UpdateAvailable u _ _ \<Rightarrow> u = v \<and> k = 0 | _ \<Rightarrow> False)
      | Downloaded v _ \<Rightarrow> (case old of Downloading u _ \<Rightarrow> u = v | _ \<Rightarrow> False)
      | Verifying v \<Rightarrow> (case old of Downloaded u _ \<Rightarrow> u = v | _ \<Rightarrow> False)
      | Installing v \<Rightarrow> (case old of Verifying _ \<Rightarrow> v = ''unknown'' | _ \<Rightarrow> False)
      | WaitingReboot v \<Rightarrow> old = Installing v
      | Rebooting \<Rightarrow> (case old of WaitingReboot _ \<Rightarrow> True | _ \<Rightarrow> False)
      | StateError _ \<Rightarrow>
          (case old of Checking \<Rightarrow> True | Downloading _ _ \<Rightarrow> True | Verifying _ \<Rightarrow> True
             | Installing _ \<Rightarrow> True | _ \<Rightarrow> False))"
  by (cases old; cases new)
    (auto simp: ota_edge_def documented_edge_def undocumented_edge_def version_carried_def)

text \<open>
  An invariant of the orchestrator is a predicate that its elementary operations keep: a state
  change along an edge, another notification, a download or check, a call of rauc, a pause and
  the reboot call. Installation counts only right after a successful verification of the same
  file and with automatic installation switched on.
\<close>

locale orch_invariant =
  fixes env :: "ota_payload otad_env" and P :: "'k orchestrator \<Rightarrow> bool"
  assumes on_state: "P m \<Longrightarrow> ota_edge (o_state m) st \<Longrightarrow> P (set_state st m)"
    and on_notice: "P m \<Longrightarrow> \<forall>a b. pl \<noteq> StateChanged a b \<Longrightarrow> P (notify_ui ev pl m)"
    and on_quiet: "P m \<Longrightarrow> quietly (o_world m) w \<Longrightarrow> P (m\<lparr>o_world := w\<rparr>)"
    and on_query: "P m \<Longrightarrow> args = status_args \<or> args = verify_args p \<Longrightarrow>
      P (happen (Ran (rauc_bin (o_rauc m)) args) m)"
    and on_install: "P m \<Longrightarrow> verified env (rauc_bin (o_rauc m)) p (events m) \<Longrightarrow>
      cfg_auto_install (o_config m) \<Longrightarrow>
      P (happen (Ran (rauc_bin (o_rauc m)) (install_args p install_options_default)) m)"
    and on_pause: "P m \<Longrightarrow> P (happen (Slept k) m)"
    and on_reboot: "P m \<Longrightarrow> P (happen RebootCalled m)"
begin

lemma P_reboot: "P m \<Longrightarrow> ota_edge (o_state m) Rebooting \<Longrightarrow> P (snd (reboot m))"
  by (simp add: reboot_def on_state on_notice on_pause on_reboot)

lemma P_install_update:
  assumes "P m" "o_state m = Verifying v" "verified env (rauc_bin (o_rauc m)) p (events m)"
    and "cfg_auto_install (o_config m)"
  shows "P (snd (install_update env p m))"
proof -
  let ?m1 = "set_state (Installing ''unknown'') m"
  have m1: "P ?m1" using assms by - (rule on_state, auto simp: ota_edge_cases)
  have "P (happen (Ran (rauc_bin (o_rauc ?m1)) (install_args p install_options_default)) ?m1)"
    using assms by (intro on_install [OF m1]) (auto intro: verified_notify)
  then have *: "P (set_state (WaitingReboot ''unknown'')
      (happen (Ran (rauc_bin (o_rauc m)) (install_args p install_options_default)) ?m1))" (is "P ?m3")
    by - (rule on_state, auto simp: ota_edge_cases)
  have "P (snd (reboot ?m3))" by (rule P_reboot [OF *]) (simp add: ota_edge_cases)
  then show ?thesis
    using m1 * assms(2) \<open>P (happen _ ?m1)\<close>
    by (auto simp: install_update_def Let_def split: prod.splits sum.splits
        dest!: on_world_runs intro: on_notice)
qed

lemma P_verify_and_install:
  assumes "P m" "o_state m = Downloading (ui_version info) k"
  shows "P (snd (verify_and_install env info p m))"
proof -
  let ?m1 = "set_state (Verifying (ui_version info)) (set_state (Downloaded (ui_version info) p) m)"
  have "P (set_state (Downloaded (ui_version info) p) m)" using assms by - (rule on_state, auto simp: ota_edge_cases)
  then have m1: "P ?m1" by - (rule on_state, auto simp: ota_edge_cases)
  obtain r m2 where r: "on_world (rauc_verify_bundle (otad_run env) (o_rauc ?m1) p) ?m1 = (r, m2)"
    by (cases "on_world (rauc_verify_bundle (otad_run env) (o_rauc ?m1) p) ?m1") auto
  then have m2: "m2 = happen (Ran (rauc_bin (o_rauc ?m1)) (verify_args p)) ?m1"
    by (rule on_world_runs(2))
  then have "P m2" using on_query [OF m1] by blast
  show ?thesis
  proof (cases r)
    case (Inl e)
    with r \<open>P m2\<close> show ?thesis by (simp add: verify_and_install_def Let_def)
  next
    case (Inr u)
    with r have "verified env (rauc_bin (o_rauc m2)) p (events m2)"
      using rauc_verify_ok m2 by fastforce
    then have "cfg_auto_install (o_config m2) \<Longrightarrow> P (snd (install_update env p m2))"
      using P_install_update [OF \<open>P m2\<close>] m2 by simp
    moreover have "P (notify_ui ''update_ready'' (UpdateReady (ui_version info) p) m2)"
      using \<open>P m2\<close> by (simp add: on_notice)
    ultimately show ?thesis
      using r Inr by (simp add: verify_and_install_def Let_def)
  qed
qed

lemma P_apply_update:
  assumes "P m" "o_state m = Checking"
  shows "P (snd (apply_update env api info m))"
proof -
  let ?m0 = "set_state (UpdateAvailable (ui_version info) (ui_size info) (ui_critical info)) m"
  let ?m1 = "set_state (Downloading (ui_version info) 0) ?m0"
  have "P ?m0" using assms by - (rule on_state, auto simp: ota_edge_cases)
  then have m1: "P ?m1" by - (rule on_state, auto simp: ota_edge_cases)
  have "P (m2 :: 'k orchestrator) \<and> o_state m2 = Downloading (ui_version info) 0"
    if "on_world (download env sha dl url f e cb) ?m1 = (r, m2)" for sha dl url f e cb r m2
    using on_world_quiet(2) [OF that] on_quiet [OF m1] by auto
  then show ?thesis
    using m1 by (auto simp: apply_update_def Let_def P_verify_and_install
        split: option.splits prod.splits sum.splits)
qed

lemma P_check_and_update:
  assumes "P m" "resting (o_state m)"
  shows "P (snd (check_and_update env api m))"
proof -
  let ?m1 = "set_state Checking m"
  have m1: "P ?m1" using assms by - (rule on_state, auto simp: ota_edge_cases)
  obtain r m2 where r: "on_world (current_version (otad_run env) (api_json api) (o_rauc ?m1)) ?m1 = (r, m2)"
    by (cases "on_world (current_version (otad_run env) (api_json api) (o_rauc ?m1)) ?m1") auto
  then have "m2 = happen (Ran (rauc_bin (o_rauc ?m1)) status_args) ?m1" by (rule on_world_runs(1))
  then have m2: "P m2" "o_state m2 = Checking"
    using on_query [OF m1, of status_args] by simp_all
  have m3: "P m3 \<and> o_state m3 = Checking"
    if "on_world (check_update env parse dl d c v) m2 = (s, m3)" for parse dl d c v s m3
    using on_world_quiet(1) [OF that] on_quiet [OF m2(1)] m2(2) by auto
  then have "P (set_state NoUpdate m3)"
    if "on_world (check_update env parse dl d c v) m2 = (s, m3)" for parse dl d c v s m3
    using that by - (rule on_state, auto simp: ota_edge_cases)
  then show ?thesis
    using r m2 m3 by (auto simp: check_and_update_def Let_def P_apply_update
        split: option.splits prod.splits sum.splits)
qed

end

subsection \<open>How a check ends\<close>

lemma failing_edge: "failing s \<Longrightarrow> ota_edge s (StateError e) \<and> resting s"
  by (cases s) (auto simp: ota_edge_cases)

lemma on_world_state: "on_world f m = (r, m') \<Longrightarrow> \<exists>w. m' = m\<lparr>o_world := w\<rparr>"
  by (auto simp: on_world_def split: prod.splits)

definition ends_well :: "(orch_error + unit) \<times> 'k orchestrator \<Rightarrow> bool" where
  "ends_well r \<longleftrightarrow> (case r of (Inl e, m) \<Rightarrow> failing (o_state m) | (Inr _, m) \<Rightarrow> resting (o_state m))"

lemma install_ends: "ends_well (install_update env p m)"
  by (auto simp: install_update_def ends_well_def reboot_def Let_def split: prod.splits sum.splits
      dest!: on_world_state)

lemma verify_ends: "ends_well (verify_and_install env info p m)"
  using install_ends
  by (fastforce simp: verify_and_install_def ends_well_def Let_def split: prod.splits sum.splits
      dest!: on_world_state)

lemma apply_ends: "ends_well (apply_update env api info m)"
  using verify_ends
  by (auto simp: apply_update_def Let_def split: prod.splits sum.splits option.splits
      dest!: on_world_state) (auto simp: ends_well_def)

lemma check_ends: "ends_well (check_and_update env api m)"
  using apply_ends
  by (auto simp: check_and_update_def Let_def split: prod.splits sum.splits option.splits
      dest!: on_world_state) (auto simp: ends_well_def)

lemma poll_once_resting: "resting (o_state (poll_once env api m))"
  using check_ends [of env api "happen (Slept (unat (cfg_poll_interval_secs (o_config m)))) m"]
  by (auto simp: poll_once_def ends_well_def split: prod.splits sum.splits)

lemma check_resting: "resting (o_state (snd (check_and_update env api m)))"
  using check_ends [of env api m]
  by (auto simp: ends_well_def dest!: failing_edge split: prod.splits sum.splits)

context orch_invariant
begin

lemma P_poll_once:
  assumes "P m" "resting (o_state m)"
  shows "P (poll_once env api m)"
proof -
  let ?m0 = "happen (Slept (unat (cfg_poll_interval_secs (o_config m)))) m"
  obtain r m1 where r: "check_and_update env api ?m0 = (r, m1)" by force
  have "P m1"
    using P_check_and_update [of ?m0 api] assms r by (simp add: on_pause)
  with check_ends [of env api ?m0] r show ?thesis
    by (auto simp: poll_once_def ends_well_def intro!: on_state dest: failing_edge split: sum.splits)
qed

lemma P_polls: "P m \<Longrightarrow> resting (o_state m) \<Longrightarrow> P (polls n env api m)"
  by (induction n arbitrary: m) (simp_all add: P_poll_once poll_once_resting)

lemma P_run: "P m \<Longrightarrow> resting (o_state m) \<Longrightarrow> P (run_polling_loop n env api m)"
  by (simp add: run_polling_loop_def P_polls P_check_and_update check_resting)

end

subsection \<open>What the loop runs\<close>

text \<open>
  An event is in order when it follows its history: the only programs are status queries,
  verifications and guarded installations by the configured rauc.
\<close>

definition run_in_order ::
  "ota_payload otad_env \<Rightarrow> string \<Rightarrow> bool \<Rightarrow> ota_payload otad_event list \<Rightarrow> ota_payload otad_event \<Rightarrow> bool" where
  "run_in_order env bin auto_install h e =
     (case e of
        Ran b args \<Rightarrow> b = bin \<and>
          (args = status_args \<or> (\<exists>p. args = verify_args p) \<or>
           (\<exists>p. args = [''install'', p] \<and> auto_install \<and> verified env bin p h))
      | _ \<Rightarrow> True)"

definition all_in_order ::
  "ota_payload otad_env \<Rightarrow> string \<Rightarrow> bool \<Rightarrow> ota_payload otad_event list \<Rightarrow> bool" where
  "all_in_order env bin auto_install es \<longleftrightarrow>
     (\<forall>h e t. es = h @ e # t \<longrightarrow> run_in_order env bin auto_install h e)"

lemma all_in_order_Nil [simp]: "all_in_order env bin a []"
  by (simp add: all_in_order_def)

lemma all_in_order_snoc [simp]:
  "all_in_order env bin a (es @ [e]) \<longleftrightarrow> all_in_order env bin a es \<and> run_in_order env bin a es e"
proof -
  have *: "es @ [e] = h @ x # t \<longleftrightarrow> (\<exists>u. t = u @ [e] \<and> es = h @ x # u) \<or> (t = [] \<and> x = e \<and> h = es)" for h x t
    by (cases t rule: rev_cases) auto
  show ?thesis unfolding all_in_order_def * by blast
qed

lemma all_in_order_quiet:
  "list_all quiet qs \<Longrightarrow> all_in_order env bin a (es @ qs) = all_in_order env bin a es"
proof (induction qs rule: rev_induct)
  case (snoc q qs)
  then have "run_in_order env bin a (es @ qs) q"
    by (cases q) (auto simp: run_in_order_def)
  with snoc show ?case
    using all_in_order_snoc [of env bin a "es @ qs" q] by simp
qed simp

definition order_inv :: "ota_payload otad_env \<Rightarrow> string \<Rightarrow> bool \<Rightarrow> 'k orchestrator \<Rightarrow> bool" where
  "order_inv env bin a m \<longleftrightarrow> rauc_bin (o_rauc m) = bin \<and> cfg_auto_install (o_config m) = a \<and>
     all_in_order env bin a (events m)"

interpretation order: orch_invariant env "order_inv env bin a"
proof
  fix m :: "'k orchestrator" and w
  assume "order_inv env bin a m" "quietly (o_world m) w"
  then show "order_inv env bin a (m\<lparr>o_world := w\<rparr>)"
    by (auto simp: order_inv_def quietly_def all_in_order_quiet)
qed (auto simp: order_inv_def run_in_order_def install_args_def install_options_default_def)

text \<open>
  Property C9. However often otad polls and whatever the server, the disk and rauc answer: every
  program it runs is the configured rauc, asked for its status, for the verification of a bundle
  (\<open>info\<close>) or for an installation; and an installation is run only with automatic installation
  switched on and right after rauc has verified the same file, with nothing but notifications in
  between. The daemon starts in any state in which a check can start, with an empty history.
\<close>

theorem installs_only_verified:
  assumes "events m = []" "resting (o_state m)"
    and "events (run_polling_loop n env api m) = h @ Ran bin args # t"
  shows "bin = rauc_bin (o_rauc m) \<and>
    (args = [''status'', ''--output-format=json''] \<or>
     (\<exists>path. args = [''info'', ''--output-format=json'', path]) \<or>
     (\<exists>path. args = [''install'', path] \<and> cfg_auto_install (o_config m) \<and> verified env bin path h))"
proof -
  let ?bin = "rauc_bin (o_rauc m)" and ?a = "cfg_auto_install (o_config m)"
  have "order_inv env ?bin ?a m"
    using assms(1) by (simp add: order_inv_def)
  then have "order_inv env ?bin ?a (run_polling_loop n env api m)"
    using assms(2) by (rule order.P_run)
  then have "run_in_order env ?bin ?a h (Ran bin args)"
    using assms(3) by (simp add: order_inv_def all_in_order_def)
  then show ?thesis
    by (auto simp: run_in_order_def status_args_def verify_args_def)
qed

text \<open>
  The daemon never tells rauc that a boot was good or bad: \<open>mark-good\<close> and
  \<open>mark-bad\<close> are not among the commands that the polling loop runs, although the start-up
  documentation ends the update with a confirmation.
\<close>

lemma never_marks_slots:
  assumes "events m = []" "resting (o_state m)"
    and "Ran bin args \<in> set (events (run_polling_loop n env api m))"
  shows "args \<noteq> [''status'', ''mark-good''] \<and> args \<noteq> [''status'', ''mark-bad'']"
proof -
  let ?bin = "rauc_bin (o_rauc m)" and ?a = "cfg_auto_install (o_config m)"
  have "order_inv env ?bin ?a m"
    using assms(1) by (simp add: order_inv_def)
  then have "order_inv env ?bin ?a (run_polling_loop n env api m)"
    using assms(2) by (rule order.P_run)
  moreover obtain h t where "events (run_polling_loop n env api m) = h @ Ran bin args # t"
    using assms(3) by (meson split_list)
  ultimately have "run_in_order env ?bin ?a h (Ran bin args)"
    by (simp add: order_inv_def all_in_order_def)
  then show ?thesis
    by (auto simp: run_in_order_def status_args_def verify_args_def)
qed

subsection \<open>What the bus sees\<close>

text \<open>The state changes among the events, in the order of the history, and the walk they make.\<close>

fun change_of :: "ota_payload otad_event \<Rightarrow> (ota_state \<times> ota_state) list" where
  "change_of (Notified _ (StateChanged new old)) = [(old, new)]"
| "change_of _ = []"

definition changes :: "ota_payload otad_event list \<Rightarrow> (ota_state \<times> ota_state) list" where
  "changes es = concat (map change_of es)"

fun walk :: "ota_state \<Rightarrow> (ota_state \<times> ota_state) list \<Rightarrow> ota_state option" where
  "walk s [] = Some s"
| "walk s ((old, new) # cs) = (if old = s \<and> ota_edge old new then walk new cs else None)"

lemma walk_snoc: "walk s cs = Some u \<Longrightarrow> ota_edge u v \<Longrightarrow> walk s (cs @ [(u, v)]) = Some v"
  by (induction s cs rule: walk.induct) (auto split: if_splits)

lemma changes_append [simp]: "changes (es @ fs) = changes es @ changes fs"
  by (simp add: changes_def)

lemma changes_quiet: "list_all quiet qs \<Longrightarrow> changes qs = []"
proof (induction qs)
  case (Cons q qs)
  then show ?case by (cases q) (auto simp: changes_def)
qed (simp add: changes_def)

definition walk_inv :: "ota_state \<Rightarrow> 'k orchestrator \<Rightarrow> bool" where
  "walk_inv s m \<longleftrightarrow> o_bus_client m \<and> walk s (changes (events m)) = Some (o_state m)"

lemma changes_single [simp]:
  "changes [Notified k (StateChanged new old)] = [(old, new)]"
  "changes [Slept n] = []" "changes [RebootCalled] = []" "changes [Ran b args] = []" "changes [] = []"
  by (simp_all add: changes_def)

lemma changes_notice: "\<forall>a b. pl \<noteq> StateChanged a b \<Longrightarrow> changes [Notified k pl] = []"
  by (cases pl) (auto simp: changes_def)

interpretation walking: orch_invariant env "walk_inv s"
proof
  fix m :: "'k orchestrator" and w
  assume "walk_inv s m" "quietly (o_world m) w"
  then show "walk_inv s (m\<lparr>o_world := w\<rparr>)"
    by (auto simp: walk_inv_def quietly_def changes_quiet)
qed (auto simp: walk_inv_def changes_notice walk_snoc)

text \<open>
  Property C27. The state changes that otad makes, in the order in which it makes them and spawns
  their announcements (the order in which the spawned tasks reach the bus is not fixed), form one
  path: each change starts where the one before ended, and the last one ends in the state otad is
  in. Every change is an edge of the state machine documented in \<open>orch.rs\<close>, with the version of
  the offer carried over up to the verification, except that otad never goes from an available
  update to \<open>NoUpdate\<close> and never returns to \<open>Idle\<close>, or one of three kinds that are not documented:
  from checking to \<open>NoUpdate\<close>, from a state in which a step failed to an error, and from any
  state other than an available or a downloaded update to the next check.
  Assumed are a connection to the bus (without one nothing is announced), an empty history, and a
  start in a state in which a check can start.
\<close>

theorem state_changes_form_a_path:
  assumes "events m = []" "resting (o_state m)" "o_bus_client m"
  shows "walk (o_state m) (changes (events (run_polling_loop n env api m))) =
    Some (o_state (run_polling_loop n env api m))"
proof -
  have "walk_inv (o_state m) m"
    using assms by (simp add: walk_inv_def)
  then have "walk_inv (o_state m) (run_polling_loop n env api m)"
    using assms(2) by (rule walking.P_run)
  then show ?thesis by (simp add: walk_inv_def)
qed

text \<open>The version during installation.\<close>

definition version_inv :: "'k orchestrator \<Rightarrow> bool" where
  "version_inv m \<longleftrightarrow>
     (case o_state m of Installing v \<Rightarrow> v = ''unknown'' | WaitingReboot v \<Rightarrow> v = ''unknown'' | _ \<Rightarrow> True)"

interpretation version: orch_invariant env version_inv
  by unfold_locales (auto simp: version_inv_def ota_edge_cases split: ota_state.splits)

text \<open>
  The version that otad reports while it installs and while it waits for the
  reboot is never the version it installs: it is the text \<open>unknown\<close>, because the state in which
  the version is looked up has already been left.
\<close>

lemma installed_version_unknown:
  assumes "o_state m = Idle" "o_state (run_polling_loop n env api m) = WaitingReboot v"
  shows "v = ''unknown''"
proof -
  have "version_inv (run_polling_loop n env api m)"
    using assms(1) by (intro version.P_run) (simp_all add: version_inv_def)
  with assms(2) show ?thesis by (simp add: version_inv_def)
qed

subsection \<open>The verifier plays no part\<close>

lemma verifier_swap [simp]:
  "set_state st (m\<lparr>o_verifier := v\<rparr>) = (set_state st m)\<lparr>o_verifier := v\<rparr>"
  "notify_ui ev pl (m\<lparr>o_verifier := v\<rparr>) = (notify_ui ev pl m)\<lparr>o_verifier := v\<rparr>"
  "happen e (m\<lparr>o_verifier := v\<rparr>) = (happen e m)\<lparr>o_verifier := v\<rparr>"
  "on_world f (m\<lparr>o_verifier := v\<rparr>) = apsnd (\<lambda>m. m\<lparr>o_verifier := v\<rparr>) (on_world f m)"
  by (auto simp: set_state_def notify_ui_def happen_def on_world_def split: prod.splits)

lemma reboot_swap [simp]: "reboot (m\<lparr>o_verifier := v\<rparr>) = apsnd (\<lambda>m. m\<lparr>o_verifier := v\<rparr>) (reboot m)"
  by (simp add: reboot_def)

lemma install_swap [simp]:
  "install_update env p (m\<lparr>o_verifier := v\<rparr>) = apsnd (\<lambda>m. m\<lparr>o_verifier := v\<rparr>) (install_update env p m)"
  by (auto simp: install_update_def Let_def split: prod.splits sum.splits)

lemma verify_swap [simp]:
  "verify_and_install env info p (m\<lparr>o_verifier := v\<rparr>) =
     apsnd (\<lambda>m. m\<lparr>o_verifier := v\<rparr>) (verify_and_install env info p m)"
  by (auto simp: verify_and_install_def Let_def split: prod.splits sum.splits)

lemma apply_swap [simp]:
  "apply_update env api info (m\<lparr>o_verifier := v\<rparr>) =
     apsnd (\<lambda>m. m\<lparr>o_verifier := v\<rparr>) (apply_update env api info m)"
  by (auto simp: apply_update_def Let_def split: prod.splits sum.splits option.splits)

lemma check_swap [simp]:
  "check_and_update env api (m\<lparr>o_verifier := v\<rparr>) =
     apsnd (\<lambda>m. m\<lparr>o_verifier := v\<rparr>) (check_and_update env api m)"
  by (auto simp: check_and_update_def Let_def split: prod.splits sum.splits option.splits)

lemma poll_swap [simp]:
  "poll_once env api (m\<lparr>o_verifier := v\<rparr>) = (poll_once env api m)\<lparr>o_verifier := v\<rparr>"
  by (auto simp: poll_once_def split: prod.splits sum.splits)

lemma polls_swap [simp]:
  "polls n env api (m\<lparr>o_verifier := v\<rparr>) = (polls n env api m)\<lparr>o_verifier := v\<rparr>"
  by (induction n arbitrary: m) simp_all

text \<open>
  The bundle verifier that \<open>main\<close> sets up from the public key has no influence: with
  any other verifier (other keys, other devices, another age limit) otad does the same, event
  for event. Its checks of signature, device, age and downgrade are never applied to an update.
\<close>

lemma verifier_never_consulted:
  "run_polling_loop n env api (m\<lparr>o_verifier := v\<rparr>) =
   (run_polling_loop n env api m)\<lparr>o_verifier := v\<rparr>"
  by (simp add: run_polling_loop_def)

subsection \<open>A run\<close>

text \<open>A device on version 2.0.0 whose server offers 1.0.0 and whose rauc accepts the bundle.\<close>

definition demo_env :: "ota_payload otad_env" where
  "demo_env =
     \<lparr>oe_http = (\<lambda>h url rg. Some \<lparr>hr_status = 200, hr_content_length = None, hr_body = Some [1]\<rparr>),
      oe_run = (\<lambda>h b args. Some \<lparr>co_success = True, co_stdout = [], co_stderr = []\<rparr>),
      oe_fs = (\<lambda>h op. FsOk), oe_lands = (\<lambda>h p. 0)\<rparr>"

definition demo_info :: update_info where
  "demo_info =
     \<lparr>ui_version = ''1.0.0'', ui_channel = ''stable'', ui_timestamp = 0, ui_critical = False,
      ui_description = [], ui_download_url = Some ''u'', ui_caibx_url = None, ui_sha256 = ''x'',
      ui_size = 1, ui_delta_size = None, ui_signature = []\<rparr>"

definition demo_json :: "string list json_api" where
  "demo_json =
     \<lparr>j_get = (\<lambda>v k. Some v), j_index = (\<lambda>v k. if k = ''version'' then [''2.0.0''] else [''active'']),
      j_array = (\<lambda>v. Some [v]), j_str = (\<lambda>v. Some (hd v)), j_u64 = (\<lambda>v. None), j_bool = (\<lambda>v. None),
      j_parse = (\<lambda>b. Some [])\<rparr>"

definition demo_api :: "string list ota_api" where
  "demo_api = \<lparr>api_json = demo_json, api_info = (\<lambda>b. Some demo_info), api_sha_hex = (\<lambda>b. ''x'')\<rparr>"

definition demo_orch :: "unit orchestrator" where
  "demo_orch =
     set_bus_client (orchestrator_new (config_default\<lparr>cfg_auto_install := True\<rparr>) sample_verifier
       sample_downloader rauc_new ''bus'' \<lparr>ow_events = [], ow_files = [], ow_pending = []\<rparr>)"

lemma demo_setup:
  "o_state demo_orch = Idle" "events demo_orch = []" "o_bus_client demo_orch"
  "o_rauc demo_orch = rauc_new" "o_downloader demo_orch = sample_downloader"
  by (simp_all add: demo_orch_def set_bus_client_def orchestrator_new_def)

lemma demo_rauc:
  "on_world (current_version (otad_run demo_env) demo_json c) m =
     (Inr (Some ''2.0.0''), happen (Ran (rauc_bin c) status_args) m)"
  "on_world (rauc_verify_bundle (otad_run demo_env) c p) m =
     (Inr (), happen (Ran (rauc_bin c) (verify_args p)) m)"
  "on_world (rauc_install (otad_run demo_env) c p opts) m =
     (Inr (), happen (Ran (rauc_bin c) (install_args p opts)) m)"
  by (simp_all add: on_world_def current_version_def rauc_verify_bundle_def rauc_install_def
      ignore_output_def map_result_def status_def rauc_output_def otad_run_def demo_env_def
      demo_json_def parse_status_json_def parse_slot_def happen_def status_args_def)

lemma demo_check:
  "on_world (check_update demo_env (\<lambda>b. Some demo_info) dl d c v) m =
     (Inr (Some demo_info), happen (Requested (check_url dl d c v) None) m)"
  by (simp add: on_world_def check_update_def demo_env_def happen_def)

lemma demo_download:
  assumes "ow_files (o_world m) = []" "ow_pending (o_world m) = []"
  shows "\<exists>w. on_world (download demo_env (\<lambda>b. ''x'') dl u f (Some ''x'') cb) m =
    (Inr (path_join (dl_download_dir dl) f), m\<lparr>o_world := w\<rparr>)"
  using assms by (auto simp: on_world_def download_def existing_size_of_def fs_allows_def demo_env_def
      store_body_def write_file_def verify_hash_def read_file_def Let_def)

lemma demo_install:
  assumes "o_state m = Verifying v" "\<not> cfg_auto_reboot (o_config m)"
  shows "\<exists>m'. install_update demo_env p m = (Inr (), m') \<and> o_state m' = WaitingReboot ''unknown'' \<and>
    Ran (rauc_bin (o_rauc m)) [''install'', p] \<in> set (events m')"
  using assms by (simp add: install_update_def demo_rauc Let_def install_args_def
      install_options_default_def)

lemma demo_verify:
  assumes "cfg_auto_install (o_config m)" "\<not> cfg_auto_reboot (o_config m)"
  shows "\<exists>m'. verify_and_install demo_env info p m = (Inr (), m') \<and>
    o_state m' = WaitingReboot ''unknown'' \<and> Ran (rauc_bin (o_rauc m)) [''install'', p] \<in> set (events m')"
proof -
  let ?m2 = "happen (Ran (rauc_bin (o_rauc m)) (verify_args p))
    (set_state (Verifying (ui_version info)) (set_state (Downloaded (ui_version info) p) m))"
  show ?thesis
    using demo_install [of ?m2 "ui_version info" p] assms
    by (simp add: verify_and_install_def demo_rauc Let_def)
qed

lemma files_unchanged [simp]:
  "ow_files (o_world (happen e m)) = ow_files (o_world m)"
  "ow_files (o_world (set_state st m)) = ow_files (o_world m)"
  "ow_pending (o_world (happen e m)) = ow_pending (o_world m)"
  "ow_pending (o_world (set_state st m)) = ow_pending (o_world m)"
  by (simp_all add: happen_def set_state_def notify_ui_def)

lemma demo_apply:
  assumes "cfg_auto_install (o_config m)" "\<not> cfg_auto_reboot (o_config m)" "ow_files (o_world m) = []"
    and "ow_pending (o_world m) = []"
  shows "\<exists>m'. apply_update demo_env demo_api demo_info m = (Inr (), m') \<and>
    o_state m' = WaitingReboot ''unknown'' \<and>
    (\<exists>p. Ran (rauc_bin (o_rauc m)) [''install'', p] \<in> set (events m'))"
proof -
  let ?m1 = "set_state (Downloading ''1.0.0'' 0) (set_state (UpdateAvailable ''1.0.0'' 1 False) m)"
  let ?p = "path_join (dl_download_dir (o_downloader m)) (bundle_filename demo_info)"
  obtain w where w: "on_world (download demo_env (\<lambda>b. ''x'') (o_downloader m) ''u''
      (bundle_filename demo_info) (Some ''x'') True) ?m1 = (Inr ?p, ?m1\<lparr>o_world := w\<rparr>)"
    using demo_download [of ?m1 "o_downloader m" "''u''" "bundle_filename demo_info" True] assms(3,4)
    by auto
  have info: "ui_version demo_info = ''1.0.0''" "ui_size demo_info = 1" "\<not> ui_critical demo_info"
    "ui_download_url demo_info = Some ''u''" "ui_sha256 demo_info = ''x''"
    by (simp_all add: demo_info_def)
  show ?thesis
    using demo_verify [of "?m1\<lparr>o_world := w\<rparr>" demo_info ?p] assms w
    by (auto simp: apply_update_def info demo_api_def Let_def)
qed

lemma demo_run:
  "o_state (run_polling_loop 0 demo_env demo_api demo_orch) = WaitingReboot ''unknown'' \<and>
   (\<exists>p. Ran ''/usr/bin/rauc'' [''install'', p] \<in> set (events (run_polling_loop 0 demo_env demo_api demo_orch)))"
proof -
  have api: "api_json demo_api = demo_json" "api_info demo_api = (\<lambda>b. Some demo_info)"
    by (simp_all add: demo_api_def)
  have cfg: "cfg_auto_install (o_config demo_orch)" "\<not> cfg_auto_reboot (o_config demo_orch)"
      "ow_files (o_world demo_orch) = []" "ow_pending (o_world demo_orch) = []" "rauc_bin (o_rauc demo_orch) = ''/usr/bin/rauc''"
    by (simp_all add: demo_orch_def set_bus_client_def orchestrator_new_def config_default_def rauc_new_def)
  let ?m1 = "happen (Ran (rauc_bin (o_rauc demo_orch)) status_args) (set_state Checking demo_orch)"
  let ?m2 = "happen (Requested (check_url (o_downloader ?m1) (cfg_device (o_config ?m1))
      (cfg_channel (o_config ?m1)) ''2.0.0'') None) ?m1"
  have "check_and_update demo_env demo_api demo_orch = apply_update demo_env demo_api demo_info ?m2"
    by (simp add: check_and_update_def api demo_rauc demo_check Let_def or_else_def)
  with demo_apply [of ?m2] cfg show ?thesis
    by (auto simp: run_polling_loop_def)
qed

text \<open>The run installs 1.0.0 over 2.0.0, which the verifier would call a downgrade.\<close>

lemma downgrade_installed:
  "is_downgrade ''2.0.0'' (ui_version demo_info) \<and>
   o_state (run_polling_loop 0 demo_env demo_api demo_orch) = WaitingReboot ''unknown''"
  using demo_run by (simp add: demo_info_def downgrade_eval)

lemma installed_version_unknown_witness:
  "\<exists>v. o_state (run_polling_loop 0 demo_env demo_api demo_orch) = WaitingReboot v \<and> v = ''unknown''"
  using installed_version_unknown [OF demo_setup(1) demo_run [THEN conjunct1]] demo_run by blast

theorem state_changes_form_a_path_witness:
  "walk Idle (changes (events (run_polling_loop 0 demo_env demo_api demo_orch))) =
     Some (WaitingReboot ''unknown'')"
  using state_changes_form_a_path [of demo_orch 0 demo_env demo_api] demo_setup demo_run by simp

theorem installs_only_verified_witness:
  "\<exists>h p t. events (run_polling_loop 0 demo_env demo_api demo_orch) =
     h @ Ran ''/usr/bin/rauc'' [''install'', p] # t \<and> verified demo_env ''/usr/bin/rauc'' p h"
proof -
  obtain p where "Ran ''/usr/bin/rauc'' [''install'', p] \<in>
      set (events (run_polling_loop 0 demo_env demo_api demo_orch))"
    using demo_run by blast
  then obtain h t where es: "events (run_polling_loop 0 demo_env demo_api demo_orch) =
      h @ Ran ''/usr/bin/rauc'' [''install'', p] # t"
    by (meson split_list)
  have "resting (o_state demo_orch)" by (simp add: demo_setup)
  from installs_only_verified [OF demo_setup(2) this es] have "verified demo_env ''/usr/bin/rauc'' p h"
    by auto
  with es show ?thesis by blast
qed

lemma never_marks_slots_witness:
  "\<exists>p. [''install'', p] \<noteq> [''status'', ''mark-good''] \<and>
     Ran ''/usr/bin/rauc'' [''install'', p] \<in> set (events (run_polling_loop 0 demo_env demo_api demo_orch))"
proof -
  obtain p where p: "Ran ''/usr/bin/rauc'' [''install'', p] \<in>
      set (events (run_polling_loop 0 demo_env demo_api demo_orch))"
    using demo_run by blast
  have "resting (o_state demo_orch)" by (simp add: demo_setup)
  from never_marks_slots [OF demo_setup(2) this p] p show ?thesis by blast
qed

end
