(* ===== verification/OtadPipeline.thy ===== *)
theory OtadPipeline
  imports OtadOrch
begin

section \<open>otad: from the offer to the installation\<close>

text \<open>
  One check of \<open>crates/otad/src/orch.rs\<close> taken through \<open>downloader.rs\<close> and \<open>rauc-rs\<close>: what the
  file that rauc is told to install has to do with what the server offered.
\<close>

subsection \<open>What a stage adds to the history\<close>

text \<open>
  A stage that installs at most the files of a set: it only adds events, and every installation
  among them is of one of these files.
\<close>

definition installs_within :: "string set \<Rightarrow> 'k orchestrator \<Rightarrow> 'k orchestrator \<Rightarrow> bool" where
  "installs_within S m m' \<longleftrightarrow>
     (\<exists>new. events m' = events m @ new \<and> (\<forall>bin p. Ran bin [''install'', p] \<in> set new \<longrightarrow> p \<in> S))"


lemma within_trans [trans]:
  "installs_within S m m' \<Longrightarrow> installs_within S m' m'' \<Longrightarrow> installs_within S m m''"
  unfolding installs_within_def by fastforce





lemma files_notify [simp]:
  "ow_files (o_world (notify_ui ev pl m)) = ow_files (o_world m)"
  "ow_pending (o_world (notify_ui ev pl m)) = ow_pending (o_world m)"
  by (simp_all add: notify_ui_def)













end
