(* ===== verification/Inis.thy ===== *)
theory Inis
  imports Prelude
begin

section \<open>inis: PID 1\<close>

text \<open>
  \<open>crates/inis/src/main.rs\<close> for Linux: the mounts, the environment, the data partition, the
  network, the start of monitord, the hardening of the root file system and the reaping loop.
  What the kernel and the programs answer is an environment that may depend on everything
  done before; what inis does is the history of its actions. Messages on the console are left
  out. The loop runs for ever: the model takes the number of its iterations.
\<close>

datatype mount_flag = MsNosuid | MsNoexec | MsNodev | MsRdonly | MsRemount

record mount_call =
  mc_source :: "string option"
  mc_target :: string
  mc_fstype :: "string option"
  mc_flags :: "mount_flag list"
  mc_data :: "string option"

type_synonym pid = u32

datatype wait_result = WExited pid int | WSignaled pid int | WOther | WEchild | WError

datatype inis_event =
    MkdirAll string
  | Mounted mount_call
  | Wrote string string
  | Removed string
  | Symlinked string string
  | Copied string string
  | HostnameSet string
  | EnvSet string string
  | RanCommand "string list"
  | Forked string "(string \<times> string) list"
  | SignalIgnored nat
  | Waited wait_result
  | SleptMs nat
  | KilledAll nat
  | Synced
  | RebootCalled

type_synonym history = "inis_event list"

record inis_env =
  ie_exists :: "history \<Rightarrow> string \<Rightarrow> bool"
  ie_mount :: "history \<Rightarrow> mount_call \<Rightarrow> bool"
  ie_read :: "history \<Rightarrow> string \<Rightarrow> string option"
  ie_list :: "history \<Rightarrow> string \<Rightarrow> string list option"
  ie_fork :: "history \<Rightarrow> pid option"
  ie_wait :: "history \<Rightarrow> wait_result"

definition mount_fs :: "inis_env \<Rightarrow> mount_call \<Rightarrow> history \<Rightarrow> bool \<times> history" where
  "mount_fs env c h = (ie_mount env h c, h @ [Mounted c])"

text \<open>
  Off Linux: \<open>libc::mount\<close> gets the addresses of the three strings, and a Rust string has no
  terminating zero, so C reads on into whatever the memory holds behind them. \<open>behind\<close> is that
  memory; the file system type is not passed at all.
\<close>

definition c_string :: "string \<Rightarrow> string \<Rightarrow> string" where
  "c_string behind s = takeWhile (\<lambda>ch. ch \<noteq> CHR 0x00) (s @ behind)"

definition or_text :: "string option \<Rightarrow> string \<Rightarrow> string" where
  "or_text s d = (case s of Some t \<Rightarrow> t | None \<Rightarrow> d)"

definition mount_fs_other :: "(string \<Rightarrow> string) \<Rightarrow> mount_call \<Rightarrow> mount_call" where
  "mount_fs_other behind c =
     (let src = or_text (mc_source c) ''none''; d = or_text (mc_data c) []
      in \<lparr>mc_source = Some (c_string (behind src) src), mc_target = c_string (behind (mc_target c)) (mc_target c),
          mc_fstype = None, mc_flags = mc_flags c, mc_data = Some (c_string (behind d) d)\<rparr>)"

lemma c_string_exact:
  "CHR 0x00 \<notin> set s \<Longrightarrow> c_string behind s = s \<longleftrightarrow> behind = [] \<or> hd behind = CHR 0x00"
proof -
  assume "CHR 0x00 \<notin> set s"
  then have "takeWhile (\<lambda>ch. ch \<noteq> CHR 0x00) (s @ behind) = s @ takeWhile (\<lambda>ch. ch \<noteq> CHR 0x00) behind"
    by (intro takeWhile_append2) metis
  then show ?thesis by (cases behind) (auto simp: c_string_def)
qed

text \<open>The mount point is right only if a zero happens to follow it.\<close>

lemma mount_target_overread:
  assumes "CHR 0x00 \<notin> set (mc_target c)" "behind (mc_target c) = x # xs" "x \<noteq> CHR 0x00"
  shows "mc_target (mount_fs_other behind c) \<noteq> mc_target c"
  using assms c_string_exact [of "mc_target c" "behind (mc_target c)"]
  by (simp add: mount_fs_other_def Let_def)

text \<open>A mount whose failure is only reported.\<close>

definition try_mount ::
  "inis_env \<Rightarrow> string \<Rightarrow> string \<Rightarrow> string \<Rightarrow> mount_flag list \<Rightarrow> string option \<Rightarrow> history \<Rightarrow> history" where
  "try_mount env src tgt fs flags d h =
     snd (mount_fs env \<lparr>mc_source = Some src, mc_target = tgt, mc_fstype = Some fs,
                       mc_flags = flags, mc_data = d\<rparr> h)"

definition mkdir_all :: "string \<Rightarrow> history \<Rightarrow> history" where
  "mkdir_all p h = h @ [MkdirAll p]"

subsection \<open>Pseudo file systems and the environment\<close>

definition mount_dev :: "inis_env \<Rightarrow> history \<Rightarrow> history" where
  "mount_dev env h =
     (if ie_exists env h ''/dev/null'' then h
      else try_mount env ''devtmpfs'' ''/dev'' ''devtmpfs'' [MsNosuid] (Some ''mode=0755'') h)"

definition mount_pseudo_fs :: "inis_env \<Rightarrow> history \<Rightarrow> history" where
  "mount_pseudo_fs env h =
     (let h = mount_dev env h;
          h = try_mount env ''proc'' ''/proc'' ''proc'' [MsNosuid, MsNoexec, MsNodev] None h;
          h = try_mount env ''sysfs'' ''/sys'' ''sysfs'' [MsNosuid, MsNoexec, MsNodev] None h;
          h = try_mount env ''tmpfs'' ''/run'' ''tmpfs'' [MsNosuid, MsNodev] (Some ''mode=0755,size=64M'') h;
          h = mkdir_all ''/run/uos'' h;
          h = mkdir_all ''/run/uos/locks'' h;
          h = try_mount env ''tmpfs'' ''/tmp'' ''tmpfs'' [MsNosuid, MsNodev] (Some ''mode=1777,size=128M'') h
      in try_mount env ''devpts'' ''/dev/pts'' ''devpts'' [MsNosuid, MsNoexec] (Some ''mode=0620,gid=5'') h)"

definition setup_environment :: "history \<Rightarrow> history" where
  "setup_environment h =
     h @ [HostnameSet ''uos-tv'', EnvSet ''PATH'' ''/usr/bin:/usr/sbin:/bin:/sbin'',
          EnvSet ''HOME'' ''/root'', EnvSet ''SHELL'' ''/bin/sh'', EnvSet ''TERM'' ''linux'']"

subsection \<open>The data partition\<close>

definition data_mount :: "string \<Rightarrow> string \<Rightarrow> mount_call" where
  "data_mount dev fs =
     \<lparr>mc_source = Some dev, mc_target = ''/data'', mc_fstype = Some fs, mc_flags = [], mc_data = None\<rparr>"

fun try_filesystems :: "inis_env \<Rightarrow> string \<Rightarrow> string list \<Rightarrow> history \<Rightarrow> bool \<times> history" where
  "try_filesystems env dev [] h = (False, h)"
| "try_filesystems env dev (fs # fss) h =
     (case mount_fs env (data_mount dev fs) h of
        (True, h1) \<Rightarrow> (True, h1) | (False, h1) \<Rightarrow> try_filesystems env dev fss h1)"

fun try_devices :: "inis_env \<Rightarrow> string list \<Rightarrow> history \<Rightarrow> bool \<times> history" where
  "try_devices env [] h = (False, h)"
| "try_devices env (dev # devs) h =
     (if \<not> ie_exists env h dev then try_devices env devs h
      else (case try_filesystems env dev [''ext4'', ''f2fs''] h of
              (True, h1) \<Rightarrow> (True, h1) | (False, h1) \<Rightarrow> try_devices env devs h1))"

definition data_dirs :: "string list" where
  "data_dirs = [''/data/etc'', ''/data/etc/uos'', ''/data/apps'', ''/data/cache'', ''/data/ota'', ''/data/logs'']"

definition dir_count :: "inis_env \<Rightarrow> history \<Rightarrow> string \<Rightarrow> nat" where
  "dir_count env h p = (case ie_list env h p of None \<Rightarrow> 0 | Some ns \<Rightarrow> length ns)"

definition bootstrap_config :: "inis_env \<Rightarrow> history \<Rightarrow> history" where
  "bootstrap_config env h =
     (if dir_count env h ''/data/etc/uos'' = 0
      then (case ie_list env h ''/usr/share/uos/config'' of
              None \<Rightarrow> h
            | Some names \<Rightarrow>
                h @ map (\<lambda>n. Copied (path_join ''/usr/share/uos/config'' n) (path_join ''/data/etc/uos'' n)) names)
      else h)"

definition mount_data_partition :: "inis_env \<Rightarrow> history \<Rightarrow> history" where
  "mount_data_partition env h =
     (let h = mkdir_all ''/data'' h;
          h = snd (try_devices env [''/dev/mmcblk0p5'', ''/dev/vda5'', ''/dev/sda5''] h);
          h = fold mkdir_all data_dirs h
      in bootstrap_config env h)"

subsection \<open>The network\<close>

definition network_commands :: "string list list" where
  "network_commands =
     [[''ip'', ''link'', ''set'', ''lo'', ''up''],
      [''ip'', ''link'', ''set'', ''eth0'', ''up''],
      [''ip'', ''addr'', ''add'', ''10.0.2.15/24'', ''dev'', ''eth0''],
      [''ip'', ''route'', ''add'', ''default'', ''via'', ''10.0.2.2'']]"

text \<open>Every outcome of a command is only reported, so the commands all run, in order.\<close>

definition configure_network :: "history \<Rightarrow> history" where
  "configure_network h = h @ map RanCommand network_commands"

subsection \<open>monitord\<close>

definition monitord_path :: string where
  "monitord_path = ''/usr/bin/monitord''"

text \<open>\<open>None\<close>: the fork failed and inis exits.\<close>

definition spawn_monitord :: "inis_env \<Rightarrow> history \<Rightarrow> pid option \<times> history" where
  "spawn_monitord env h =
     (if \<not> ie_exists env h monitord_path
      then (ie_fork env h, h @ [Forked ''/bin/sh'' []])
      else (ie_fork env h, h @ [Forked monitord_path [(''UOS_BOOT'', ''1'')]]))"

subsection \<open>Hardening\<close>

definition writable_dirs :: "(string \<times> string) list" where
  "writable_dirs =
     [(''/var/log'', ''mode=0755,size=32M''), (''/var/tmp'', ''mode=1777,size=64M''),
      (''/var/lib'', ''mode=0755,size=16M''), (''/root'', ''mode=0700,size=8M'')]"

definition mount_writable :: "inis_env \<Rightarrow> string \<times> string \<Rightarrow> history \<Rightarrow> history" where
  "mount_writable env d h =
     try_mount env ''tmpfs'' (fst d) ''tmpfs'' [MsNosuid, MsNodev] (Some (snd d)) (mkdir_all (fst d) h)"

definition already_ro :: "string \<Rightarrow> bool" where
  "already_ro mounts =
     list_ex (\<lambda>l. starts_with l ''/dev/vda / ext2'' \<and> str_contains l ''ro,'') (str_lines mounts)"

definition remount_ro :: "string \<Rightarrow> mount_call" where
  "remount_ro tgt =
     \<lparr>mc_source = None, mc_target = tgt, mc_fstype = None, mc_flags = [MsRemount, MsRdonly], mc_data = None\<rparr>"

definition harden_rootfs :: "inis_env \<Rightarrow> history \<Rightarrow> history" where
  "harden_rootfs env h =
     (let h = fold (mount_writable env) writable_dirs h;
          h = h @ [MkdirAll ''/run/network'',
                   Wrote ''/run/network/resolv.conf'' (''nameserver 10.0.2.3'' @ [CHR 0x0A]),
                   Removed ''/etc/resolv.conf'',
                   Symlinked ''/run/network/resolv.conf'' ''/etc/resolv.conf'']
      in case ie_read env h ''/proc/mounts'' of
           None \<Rightarrow> h
         | Some mounts \<Rightarrow>
             if \<not> already_ro mounts then snd (mount_fs env (remount_ro ''/'') h) else h)"

subsection \<open>The main loop\<close>

text \<open>
  \<open>restart_count\<close> is a \<open>u32\<close> in the code; it never exceeds \<open>MAX_RESTARTS\<close> (lemma
  \<open>main_loop_count\<close>), so a natural number loses nothing. \<open>lp_stopped\<close>: inis has exited or
  rebooted.
\<close>

record loop_state =
  lp_pid :: "pid option"
  lp_restarts :: nat
  lp_gave_up :: bool
  lp_stopped :: bool
  lp_shutdown :: bool
  lp_history :: history

definition max_restarts :: nat where "max_restarts = 5"

definition did :: "inis_event list \<Rightarrow> loop_state \<Rightarrow> loop_state" where
  "did es s = s\<lparr>lp_history := lp_history s @ es\<rparr>"

definition do_shutdown :: "inis_env \<Rightarrow> loop_state \<Rightarrow> loop_state" where
  "do_shutdown env s =
     (did [KilledAll 15, SleptMs 2000, KilledAll 9, SleptMs 1000, Synced,
           Mounted (remount_ro ''/data''), RebootCalled] s)\<lparr>lp_stopped := True\<rparr>"

definition reap :: "inis_env \<Rightarrow> pid \<Rightarrow> loop_state \<Rightarrow> loop_state" where
  "reap env current s =
     (let r = ie_wait env (lp_history s); s1 = did [Waited r] s;
          s2 = (case r of
                  WExited p _ \<Rightarrow> if p = current then s1\<lparr>lp_pid := None\<rparr> else s1
                | WSignaled p _ \<Rightarrow> if p = current then s1\<lparr>lp_pid := None\<rparr> else s1
                | WOther \<Rightarrow> did [SleptMs 100] s1
                | WEchild \<Rightarrow> did [SleptMs 1000] (s1\<lparr>lp_pid := None\<rparr>)
                | WError \<Rightarrow> did [SleptMs 1000] s1)
      in if lp_shutdown s2 then do_shutdown env s2 else s2)"

definition restart_delay :: "nat \<Rightarrow> nat" where
  "restart_delay k = min (k * 2) 10"

definition main_step :: "inis_env \<Rightarrow> loop_state \<Rightarrow> loop_state" where
  "main_step env s =
     (if lp_stopped s then s
      else if lp_gave_up s then did [Waited (ie_wait env (lp_history s)), SleptMs 5000] s
      else (case lp_pid s of
              Some p \<Rightarrow> reap env p s
            | None \<Rightarrow>
                if lp_restarts s \<ge> max_restarts
                then (did [Forked ''/bin/sh'' []] s)\<lparr>lp_gave_up := True\<rparr>
                else let s1 = s\<lparr>lp_restarts := lp_restarts s + 1\<rparr>;
                         s2 = did [SleptMs (restart_delay (lp_restarts s1) * 1000)] s1
                     in case spawn_monitord env (lp_history s2) of
                          (None, h) \<Rightarrow> s2\<lparr>lp_history := h, lp_stopped := True\<rparr>
                        | (Some p, h) \<Rightarrow> reap env p (s2\<lparr>lp_history := h, lp_pid := Some p\<rparr>)))"

definition main_loop_start :: "history \<Rightarrow> loop_state" where
  "main_loop_start h =
     \<lparr>lp_pid = None, lp_restarts = 0, lp_gave_up = False, lp_stopped = False, lp_shutdown = False,
      lp_history = h @ map SignalIgnored [1..<32]\<rparr>"

definition main_loop :: "inis_env \<Rightarrow> nat \<Rightarrow> history \<Rightarrow> loop_state" where
  "main_loop env n h = (main_step env ^^ n) (main_loop_start h)"

definition boot_history :: "inis_env \<Rightarrow> history" where
  "boot_history env =
     configure_network (mount_data_partition env (setup_environment (mount_pseudo_fs env [])))"

text \<open>\<open>main\<close>: \<open>Inl\<close> is the exit of inis because monitord could not be forked.\<close>

definition inis_main :: "inis_env \<Rightarrow> nat \<Rightarrow> history + loop_state" where
  "inis_main env n =
     (case spawn_monitord env (boot_history env) of
        (None, h) \<Rightarrow> Inl h
      | (Some pid, h) \<Rightarrow> Inr (main_loop env n (harden_rootfs env h)))"

subsection \<open>Restarts\<close>

fun is_fork :: "inis_event \<Rightarrow> bool" where
  "is_fork (Forked _ _) = True"
| "is_fork _ = False"

definition forks :: "history \<Rightarrow> nat" where
  "forks h = length (filter is_fork h)"

lemma forks_append [simp]: "forks (h @ es) = forks h + forks es"
  by (simp add: forks_def)

lemma forks_simps [simp]: "forks [] = 0" "forks (e # es) = (if is_fork e then Suc (forks es) else forks es)"
  by (simp_all add: forks_def)

lemma did_simps [simp]:
  "lp_history (did es s) = lp_history s @ es" "lp_pid (did es s) = lp_pid s"
  "lp_restarts (did es s) = lp_restarts s" "lp_gave_up (did es s) = lp_gave_up s"
  "lp_stopped (did es s) = lp_stopped s" "lp_shutdown (did es s) = lp_shutdown s"
  by (simp_all add: did_def)

lemma reap_simps [simp]:
  "lp_restarts (reap env p s) = lp_restarts s" "lp_gave_up (reap env p s) = lp_gave_up s"
  "lp_shutdown (reap env p s) = lp_shutdown s" "forks (lp_history (reap env p s)) = forks (lp_history s)"
  by (auto simp: reap_def do_shutdown_def Let_def split: wait_result.splits)

lemma spawn_history:
  "spawn_monitord env h = (r, h') \<Longrightarrow> \<exists>prog vars. h' = h @ [Forked prog vars] \<and> r = ie_fork env h"
  by (auto simp: spawn_monitord_def split: if_splits)

text \<open>Forks are counted from a base, those before the loop.\<close>

definition restart_inv :: "nat \<Rightarrow> loop_state \<Rightarrow> bool" where
  "restart_inv base s \<longleftrightarrow>
     lp_restarts s \<le> max_restarts \<and> \<not> lp_shutdown s \<and>
     forks (lp_history s) = base + lp_restarts s + (if lp_gave_up s then 1 else 0)"

lemma main_step_inv: "restart_inv base s \<Longrightarrow> restart_inv base (main_step env s)"
  by (auto simp: restart_inv_def main_step_def Let_def split: option.splits prod.splits
      dest!: spawn_history)

interpretation inis_loop: machine "\<lambda>_::unit. main_step env" "restart_inv base"
  by unfold_locales (rule main_step_inv)

lemma funpow_fold: "(f ^^ n) s = fold (\<lambda>_::unit. f) (replicate n ()) s"
  by (induction n arbitrary: s) (simp_all add: funpow_swap1)

lemma main_loop_inv: "restart_inv (forks h) (main_loop env n h)"
proof -
  have "forks (map SignalIgnored ns) = 0" for ns
    by (induction ns) simp_all
  then have "restart_inv (forks h) (main_loop_start h)"
    by (simp add: restart_inv_def main_loop_start_def)
  then show ?thesis
    unfolding main_loop_def funpow_fold by (rule inis_loop.run_invariant)
qed

lemma main_loop_count: "lp_restarts (main_loop env n h) \<le> max_restarts"
  using main_loop_inv [of h env n] by (simp add: restart_inv_def)

subsection \<open>The setup before the loop\<close>

text \<open>
  Everything before the loop, the start of monitord apart, only adds setup actions to the
  history: no fork, no wait, no signal, no reboot, and on \<open>/data\<close> only mounts of the two disk
  file systems.
\<close>

definition setup_event :: "inis_event \<Rightarrow> bool" where
  "setup_event e \<longleftrightarrow>
     (case e of Forked _ _ \<Rightarrow> False | Waited _ \<Rightarrow> False | KilledAll _ \<Rightarrow> False | RebootCalled \<Rightarrow> False
      | Mounted c \<Rightarrow> mc_target c = ''/data'' \<longrightarrow> mc_fstype c \<in> {Some ''ext4'', Some ''f2fs''}
      | _ \<Rightarrow> True)"

definition adds :: "history \<Rightarrow> history \<Rightarrow> bool" where
  "adds h h' \<longleftrightarrow> (\<exists>es. h' = h @ es \<and> list_all setup_event es)"

named_theorems adds_intro \<open>steps that only add setup actions\<close>

lemma adds_refl [adds_intro]: "adds h h"
  by (simp add: adds_def)

lemma adds_trans: "adds g h \<Longrightarrow> adds h k \<Longrightarrow> adds g k"
  by (auto simp: adds_def)

lemma adds_append [adds_intro]: "adds g h \<Longrightarrow> list_all setup_event es \<Longrightarrow> adds g (h @ es)"
  by (auto simp: adds_def)

lemma adds_mkdir [adds_intro]: "adds g h \<Longrightarrow> adds g (mkdir_all p h)"
  by (auto simp: mkdir_all_def setup_event_def intro: adds_append)

lemma adds_mount [adds_intro]: "adds g h \<Longrightarrow> t \<noteq> ''/data'' \<Longrightarrow> adds g (try_mount env s t f fl d h)"
  by (auto simp: try_mount_def mount_fs_def setup_event_def intro: adds_append)

lemma adds_mount_dev [adds_intro]: "adds g h \<Longrightarrow> adds g (mount_dev env h)"
  by (simp add: mount_dev_def adds_mount)

lemma adds_pseudo_fs [adds_intro]: "adds g h \<Longrightarrow> adds g (mount_pseudo_fs env h)"
  unfolding mount_pseudo_fs_def Let_def by (intro adds_intro) auto

lemma adds_environment [adds_intro]: "adds g h \<Longrightarrow> adds g (setup_environment h)"
  unfolding setup_environment_def by (rule adds_append) (auto simp: setup_event_def)

lemma adds_network [adds_intro]: "adds g h \<Longrightarrow> adds g (configure_network h)"
  unfolding configure_network_def by (rule adds_append) (auto simp: setup_event_def list_all_iff)

lemma adds_filesystems:
  "adds g h \<Longrightarrow> set fss \<subseteq> {''ext4'', ''f2fs''} \<Longrightarrow> adds g (snd (try_filesystems env dev fss h))"
proof (induction env dev fss h rule: try_filesystems.induct)
  case (2 env dev fs fss h)
  have "setup_event (Mounted (data_mount dev fs))"
    using 2 by (auto simp: setup_event_def data_mount_def)
  then have "adds g (h @ [Mounted (data_mount dev fs)])"
    using 2 by (intro adds_append) auto
  with 2 show ?case by (auto simp: mount_fs_def split: bool.splits)
qed simp

lemma adds_devices: "adds g h \<Longrightarrow> adds g (snd (try_devices env devs h))"
proof (induction env devs h rule: try_devices.induct)
  case (2 env dev devs h)
  obtain b h1 where t: "try_filesystems env dev [''ext4'', ''f2fs''] h = (b, h1)" by fastforce
  then have "adds g h1"
    using adds_filesystems [of g h "[''ext4'', ''f2fs'']" env dev] 2 by simp
  with 2 t show ?case
    unfolding try_devices.simps by (simp split: bool.splits)
qed simp

lemma adds_fold: "(\<And>x h. adds g h \<Longrightarrow> adds g (f x h)) \<Longrightarrow> adds g h \<Longrightarrow> adds g (fold f xs h)"
  by (induction xs arbitrary: h) simp_all

lemma adds_bootstrap [adds_intro]: "adds g h \<Longrightarrow> adds g (bootstrap_config env h)"
  unfolding bootstrap_config_def
  by (auto simp: setup_event_def list_all_iff intro!: adds_append split: option.splits)

lemma adds_data [adds_intro]: "adds g h \<Longrightarrow> adds g (mount_data_partition env h)"
  unfolding mount_data_partition_def Let_def
  by (intro adds_bootstrap adds_fold adds_devices adds_mkdir)

lemma adds_boot: "adds [] (boot_history env)"
  unfolding boot_history_def by (intro adds_intro)

lemma adds_writable: "d \<in> set writable_dirs \<Longrightarrow> adds g h \<Longrightarrow> adds g (mount_writable env d h)"
  unfolding mount_writable_def
  by (rule adds_mount [OF adds_mkdir]) (auto simp: writable_dirs_def)

lemma adds_harden: "adds h (harden_rootfs env h)"
proof -
  have "adds h (fold (mount_writable env) writable_dirs h)"
    by (simp add: writable_dirs_def adds_writable adds_refl)
  then have *: "adds h (fold (mount_writable env) writable_dirs h @
      [MkdirAll ''/run/network'', Wrote ''/run/network/resolv.conf'' (''nameserver 10.0.2.3'' @ [CHR 0x0A]),
       Removed ''/etc/resolv.conf'', Symlinked ''/run/network/resolv.conf'' ''/etc/resolv.conf''])"
    (is "adds h ?h2")
    by (rule adds_append) (simp add: setup_event_def)
  moreover have "adds h (?h2 @ [Mounted (remount_ro ''/'')])"
    by (rule adds_append [OF *]) (simp add: setup_event_def remount_ro_def)
  ultimately show ?thesis
    unfolding harden_rootfs_def Let_def by (simp add: mount_fs_def split: option.splits)
qed

lemma adds_forks: "adds h h' \<Longrightarrow> forks h' = forks h"
proof -
  have "list_all setup_event es \<Longrightarrow> forks es = 0" for es
  proof (induction es)
    case (Cons e es)
    then show ?case by (cases e) (auto simp: setup_event_def)
  qed simp
  then show "adds h h' \<Longrightarrow> forks h' = forks h"
    by (auto simp: adds_def)
qed

text \<open>
  Property C33. inis starts monitord at most six times in its life: once before the loop and five
  times in it, plus one shell when it gives up. The count of restarts is never reset, so five
  deaths of monitord, however far apart, leave the device without a supervisor.
\<close>

theorem monitord_starts_bounded:
  assumes "inis_main env n = Inr s"
  shows "forks (lp_history s) = 1 + lp_restarts s + (if lp_gave_up s then 1 else 0) \<and>
    lp_restarts s \<le> 5"
proof -
  obtain pid h where sp: "spawn_monitord env (boot_history env) = (Some pid, h)"
      and s: "s = main_loop env n (harden_rootfs env h)"
    using assms by (auto simp: inis_main_def split: prod.splits option.splits)
  have "forks h = 1"
    using spawn_history [OF sp] adds_forks [OF adds_boot [of env]] by auto
  with main_loop_inv [of "harden_rootfs env h" env n] s show ?thesis
    by (simp add: restart_inv_def adds_forks [OF adds_harden] max_restarts_def)
qed

subsection \<open>What happens between the starts\<close>

definition is_wait :: "inis_event \<Rightarrow> bool" where
  "is_wait e \<longleftrightarrow> (case e of Waited _ \<Rightarrow> True | _ \<Rightarrow> False)"

lemma reap_extends: "\<exists>es. lp_history (reap env p s) = lp_history s @ es"
  by (simp add: reap_def do_shutdown_def Let_def split: wait_result.splits)

text \<open>
  The monitord that \<open>main\<close> starts is unknown to the loop: without any child having
  been waited for, the first iteration starts a second one beside it.
\<close>

lemma second_monitord_started:
  assumes "\<forall>h. ie_exists env h monitord_path" "\<forall>h. \<exists>p. ie_fork env h = Some p"
    and "inis_main env 1 = Inr s"
  shows "\<exists>a b c. lp_history s =
      a @ Forked monitord_path [(''UOS_BOOT'', ''1'')] # b @ Forked monitord_path [(''UOS_BOOT'', ''1'')] # c \<and>
    list_all (\<lambda>e. \<not> is_fork e \<and> \<not> is_wait e) b"
proof -
  let ?f = "Forked monitord_path [(''UOS_BOOT'', ''1'')]"
  let ?h0 = "boot_history env @ [?f]"
  obtain es where es: "harden_rootfs env ?h0 = ?h0 @ es" "list_all setup_event es"
    using adds_harden [of ?h0 env] by (auto simp: adds_def)
  let ?b = "es @ map SignalIgnored [1..<32] @ [SleptMs 2000]"
  have spawn: "spawn_monitord env h = (ie_fork env h, h @ [?f])" for h
    using assms(1) by (simp add: spawn_monitord_def)
  have "s = main_step env (main_loop_start (harden_rootfs env ?h0))"
    using assms(2) [THEN spec, of "boot_history env"] assms(3)
    by (auto simp: inis_main_def spawn main_loop_def)
  moreover obtain p where "ie_fork env (?h0 @ ?b) = Some p"
    using assms(2) by blast
  moreover define s1 where "s1 = main_loop_start (?h0 @ es)
      \<lparr>lp_restarts := 1, lp_history := ?h0 @ ?b @ [?f], lp_pid := Some p\<rparr>"
  ultimately have "s = reap env p s1"
    by (simp add: main_step_def main_loop_start_def es(1) max_restarts_def restart_delay_def spawn
        did_def del: upt_Suc upt_rec_numeral)
  then obtain c where "lp_history s = lp_history s1 @ c"
    using reap_extends by blast
  then have "lp_history s = boot_history env @ ?f # ?b @ ?f # c" by (simp add: s1_def)
  moreover have "list_all (\<lambda>e. \<not> is_fork e \<and> \<not> is_wait e) ?b"
    using es(2) by (auto simp: list_all_iff is_wait_def setup_event_def split: inis_event.splits)
  ultimately show ?thesis by blast
qed

subsection \<open>What never happens\<close>

definition calm :: "inis_event \<Rightarrow> bool" where
  "calm e \<longleftrightarrow>
     (case e of KilledAll _ \<Rightarrow> False | RebootCalled \<Rightarrow> False
      | Mounted c \<Rightarrow> mc_target c = ''/data'' \<longrightarrow> mc_fstype c \<in> {Some ''ext4'', Some ''f2fs''}
      | _ \<Rightarrow> True)"

definition calm_inv :: "loop_state \<Rightarrow> bool" where
  "calm_inv s \<longleftrightarrow> \<not> lp_shutdown s \<and> list_all calm (lp_history s)"

lemma adds_calm: "adds h h' \<Longrightarrow> list_all calm h \<Longrightarrow> list_all calm h'"
  by (fastforce simp: adds_def list_all_iff calm_def setup_event_def split: inis_event.splits)

lemma reap_calm: "calm_inv s \<Longrightarrow> calm_inv (reap env p s)"
  by (auto simp: calm_inv_def reap_def calm_def Let_def split: wait_result.splits)

lemma reap_history_calm:
  "\<not> lp_shutdown s \<Longrightarrow> list_all calm (lp_history s) \<Longrightarrow> list_all calm (lp_history (reap env p s))"
  using reap_calm [of s env p] by (simp add: calm_inv_def)

lemma main_step_calm: "calm_inv s \<Longrightarrow> calm_inv (main_step env s)"
proof -
  assume s: "calm_inv s"
  have fork: "calm (Forked a b)" "calm (SleptMs k)" "calm (Waited r)" for a b k r
    by (simp_all add: calm_def)
  show ?thesis
    using s unfolding main_step_def Let_def
    by (auto simp: calm_inv_def fork dest!: spawn_history intro!: reap_history_calm
        split: option.splits prod.splits)
qed

interpretation inis_calm: machine "\<lambda>_::unit. main_step env" calm_inv
  by unfold_locales (rule main_step_calm)

lemma inis_main_calm:
  assumes "inis_main env n = Inr s"
  shows "calm_inv s"
proof -
  obtain pid h where sp: "spawn_monitord env (boot_history env) = (Some pid, h)"
      and s: "s = main_loop env n (harden_rootfs env h)"
    using assms by (auto simp: inis_main_def split: prod.splits option.splits)
  have "list_all calm h"
    using spawn_history [OF sp] adds_calm [OF adds_boot [of env]] by (auto simp: calm_def)
  then have "list_all calm (harden_rootfs env h)"
    by (rule adds_calm [OF adds_harden])
  then have "calm_inv (main_loop_start (harden_rootfs env h))"
    by (auto simp: calm_inv_def main_loop_start_def list_all_iff calm_def)
  then show ?thesis
    unfolding s main_loop_def funpow_fold by (rule inis_calm.run_invariant)
qed

text \<open>
  Whatever the kernel answers, inis mounts on \<open>/data\<close> only a disk file system (ext4
  or f2fs), never a tmpfs that would hide the preseeded configuration.
\<close>

lemma data_never_tmpfs:
  assumes "inis_main env n = Inr s" "Mounted c \<in> set (lp_history s)" "mc_target c = ''/data''"
  shows "mc_fstype c = Some ''ext4'' \<or> mc_fstype c = Some ''f2fs''"
  using inis_main_calm [OF assms(1)] assms(2,3) by (auto simp: calm_inv_def list_all_iff calm_def)

text \<open>
  The orderly shutdown is never reached: nothing sets the shutdown flag, so inis
  never signals the processes, never syncs and remounts, and never calls reboot, however long
  it runs.
\<close>

lemma shutdown_unreachable:
  assumes "inis_main env n = Inr s"
  shows "KilledAll k \<notin> set (lp_history s) \<and> RebootCalled \<notin> set (lp_history s)"
  using inis_main_calm [OF assms] by (auto simp: calm_inv_def list_all_iff calm_def)

text \<open>
  The check for a read-only root looks for the text \<open>ro,\<close> anywhere in the line: a
  root mounted writable with the usual option \<open>errors=remount-ro\<close> passes for read-only, and
  hardening leaves it writable.
\<close>

lemma remount_ro_option_mistaken:
  assumes "\<forall>h. ie_read env h ''/proc/mounts'' =
      Some ''/dev/vda / ext2 rw,errors=remount-ro,relatime 0 0''"
    and "Mounted c \<in> set (harden_rootfs env [])"
  shows "mc_target c \<noteq> ''/''"
proof -
  have "already_ro ''/dev/vda / ext2 rw,errors=remount-ro,relatime 0 0''"
    by code_simp
  then show ?thesis
    using assms by (auto simp: harden_rootfs_def writable_dirs_def mount_writable_def try_mount_def
        mount_fs_def mkdir_all_def)
qed

subsection \<open>A death that is not noticed\<close>

text \<open>
  What Linux documents for a process that ignores signal 17 (SIGCHLD): its children leave no
  status behind. A wait that does not block reports no exit and no signal, and ECHILD only when
  there is no child left. \<open>children\<close> are the living children of inis.
\<close>

definition reaps_silently :: "(history \<Rightarrow> pid set) \<Rightarrow> inis_env \<Rightarrow> bool" where
  "reaps_silently children env \<longleftrightarrow>
     (\<forall>h. SignalIgnored 17 \<in> set h \<longrightarrow>
        ie_wait env h \<in> {WOther, WError} \<or> ie_wait env h = WEchild \<and> children h = {})"

text \<open>The loop as long as it has a monitord: the history only grows, by waits and sleeps.\<close>

definition watching :: "pid \<Rightarrow> nat \<Rightarrow> nat \<Rightarrow> loop_state \<Rightarrow> bool" where
  "watching p f r s \<longleftrightarrow> lp_pid s = Some p \<and> \<not> lp_shutdown s \<and> forks (lp_history s) = f \<and>
     lp_restarts s = r \<and> SignalIgnored 17 \<in> set (lp_history s)"

lemma watching_step:
  assumes "reaps_silently children env" "children (lp_history s) \<noteq> {}" "watching p f r s"
  shows "watching p f r (main_step env s)"
proof -
  have "SignalIgnored 17 \<in> set (lp_history s)" using assms(3) by (simp add: watching_def)
  then have "ie_wait env (lp_history s) \<in> {WOther, WError}"
    using assms(1,2) by (auto simp: reaps_silently_def)
  then show ?thesis
    using assms(3) by (auto simp: watching_def main_step_def reap_def Let_def)
qed

lemma watching_steps:
  assumes "reaps_silently children env" "watching p f r s"
    and "\<forall>k<m. children (lp_history ((main_step env ^^ k) s)) \<noteq> {}"
  shows "watching p f r ((main_step env ^^ m) s)"
  using assms(3)
proof (induction m)
  case 0
  show ?case using assms(2) by simp
next
  case (Suc m)
  then show ?case using watching_step [OF assms(1)] by simp
qed

lemma main_step_extends: "\<exists>es. lp_history (main_step env s) = lp_history s @ es"
proof -
  have more: "\<exists>es. lp_history (reap env p t) = h @ es" if "lp_history t = h @ xs" for p t h xs
    using reap_extends [of env p t] that by auto
  show ?thesis
    unfolding main_step_def Let_def
    by (auto split: option.splits prod.splits dest!: spawn_history intro!: more)
qed

lemma main_loop_extends:
  "\<exists>es. lp_history (main_loop env n h) = h @ map SignalIgnored [1..<32] @ es"
proof (induction n)
  case 0
  show ?case by (simp add: main_loop_def main_loop_start_def)
next
  case (Suc n)
  have "main_loop env (Suc n) h = main_step env (main_loop env n h)" by (simp add: main_loop_def)
  with Suc main_step_extends [of env "main_loop env n h"] show ?case by auto
qed

lemma inis_main_loop:
  assumes "inis_main env n = Inr s"
  obtains h where "\<And>m. inis_main env m = Inr (main_loop env m h)" "s = main_loop env n h" "forks h = 1"
proof -
  obtain pid h where sp: "spawn_monitord env (boot_history env) = (Some pid, h)"
    using assms by (auto simp: inis_main_def split: prod.splits option.splits)
  have "forks (harden_rootfs env h) = 1"
    using spawn_history [OF sp] adds_forks [OF adds_boot [of env]] by (auto simp: adds_forks [OF adds_harden])
  with assms show thesis by (intro that [of "harden_rootfs env h"]) (auto simp: inis_main_def sp)
qed

text \<open>
  Property C34. The death of monitord goes unnoticed while any other process lives. The loop
  ignores all signals, SIGCHLD among them, so the kernel reports no death to it. Once the loop
  has a monitord, then in every run in which inis always has some living child (the monitord
  started before the loop, or a service that lost its parent), monitord is never started again,
  whether it lives or not.
\<close>

theorem monitord_death_unnoticed:
  assumes "reaps_silently children env" "inis_main env n = Inr s" "lp_pid s = Some p"
    and "\<forall>k<m. \<forall>s'. inis_main env (n + k) = Inr s' \<longrightarrow> children (lp_history s') \<noteq> {}"
  shows "\<exists>s'. inis_main env (n + m) = Inr s' \<and> lp_pid s' = Some p \<and>
    forks (lp_history s') = forks (lp_history s)"
proof -
  obtain h where h: "\<And>m. inis_main env m = Inr (main_loop env m h)" "s = main_loop env n h"
    using inis_main_loop [OF assms(2)] by metis
  have loop: "main_loop env (n + k) h = (main_step env ^^ k) s" for k
    by (simp add: h(2) main_loop_def funpow_add add.commute [of n k])
  obtain es where "lp_history s = h @ map SignalIgnored [1..<32] @ es"
    using main_loop_extends [of env n h] by (auto simp: h(2))
  then have "watching p (forks (lp_history s)) (lp_restarts s) s"
    using assms(3) inis_main_calm [OF assms(2)] by (auto simp: watching_def calm_inv_def)
  from watching_steps [OF assms(1) this, of m] assms(4) show ?thesis
    by (auto simp: h(1) loop watching_def)
qed

text \<open>
  Every monitord but the first is forked by a process that ignores all signals, and a program
  that is executed keeps ignoring what its parent ignored.
\<close>

lemma restarts_ignore_signals:
  assumes "inis_main env n = Inr s"
  shows "\<exists>pre post. lp_history s = pre @ map SignalIgnored [1..<32] @ post \<and> forks pre = 1"
  using inis_main_loop [OF assms] main_loop_extends by metis

text \<open>An environment where everything works, monitord dies at once and 7 is the only pid.\<close>

definition demo_inis :: inis_env where
  "demo_inis =
     \<lparr>ie_exists = (\<lambda>h p. True), ie_mount = (\<lambda>h c. True),
      ie_read = (\<lambda>h p. Some ''/dev/vda / ext2 rw,errors=remount-ro,relatime 0 0''),
      ie_list = (\<lambda>h p. None), ie_fork = (\<lambda>h. Some 7), ie_wait = (\<lambda>h. WExited 7 1)\<rparr>"

lemma demo_inis_runs: "\<exists>s. inis_main demo_inis n = Inr s"
  by (simp add: inis_main_def spawn_monitord_def demo_inis_def)

theorem monitord_starts_bounded_witness:
  "\<exists>s. inis_main demo_inis 9 = Inr s \<and> forks (lp_history s) \<le> 7"
proof -
  obtain s where s: "inis_main demo_inis 9 = Inr s" using demo_inis_runs by blast
  from monitord_starts_bounded [OF s] have "forks (lp_history s) \<le> 7" by auto
  with s show ?thesis by blast
qed

lemma second_monitord_started_witness:
  "\<exists>s a b c. inis_main demo_inis 1 = Inr s \<and> lp_history s =
     a @ Forked monitord_path [(''UOS_BOOT'', ''1'')] # b @ Forked monitord_path [(''UOS_BOOT'', ''1'')] # c"
proof -
  obtain s where s: "inis_main demo_inis 1 = Inr s" using demo_inis_runs by blast
  have "\<forall>h. ie_exists demo_inis h monitord_path" "\<forall>h. \<exists>p. ie_fork demo_inis h = Some p"
    by (simp_all add: demo_inis_def)
  from second_monitord_started [OF this s] s show ?thesis by blast
qed

lemma demo_data_mount:
  assumes "inis_main demo_inis 0 = Inr s"
  shows "Mounted (data_mount ''/dev/mmcblk0p5'' ''ext4'') \<in> set (lp_history s)"
proof -
  have keep: "adds h h' \<Longrightarrow> e \<in> set h \<Longrightarrow> e \<in> set h'" for h h' and e :: inis_event
    by (auto simp: adds_def)
  let ?e = "Mounted (data_mount ''/dev/mmcblk0p5'' ''ext4'')"
  let ?h = "mkdir_all ''/data'' (setup_environment (mount_pseudo_fs demo_inis []))"
  have "?e \<in> set (snd (try_devices demo_inis [''/dev/mmcblk0p5'', ''/dev/vda5'', ''/dev/sda5''] ?h))"
    by (simp add: demo_inis_def mount_fs_def)
  then have "?e \<in> set (mount_data_partition demo_inis (setup_environment (mount_pseudo_fs demo_inis [])))"
    unfolding mount_data_partition_def Let_def
    by (rule keep [rotated]) (intro adds_bootstrap adds_fold adds_mkdir adds_refl)
  then have "?e \<in> set (boot_history demo_inis)"
    unfolding boot_history_def by (rule keep [rotated]) (intro adds_intro)
  then have "?e \<in> set (harden_rootfs demo_inis (boot_history demo_inis @ [Forked monitord_path [(''UOS_BOOT'', ''1'')]]))"
    by (intro keep [OF adds_harden]) simp
  with assms show ?thesis
    by (auto simp: inis_main_def spawn_monitord_def main_loop_def main_loop_start_def demo_inis_def)
qed

lemma data_never_tmpfs_witness:
  "\<exists>s c. inis_main demo_inis 0 = Inr s \<and> Mounted c \<in> set (lp_history s) \<and>
     mc_target c = ''/data'' \<and> mc_fstype c \<noteq> Some ''tmpfs''"
proof -
  obtain s where s: "inis_main demo_inis 0 = Inr s" using demo_inis_runs by blast
  note m = demo_data_mount [OF s]
  have t: "mc_target (data_mount ''/dev/mmcblk0p5'' ''ext4'') = ''/data''"
    by (simp add: data_mount_def)
  from data_never_tmpfs [OF s m t] have
    "mc_fstype (data_mount ''/dev/mmcblk0p5'' ''ext4'') \<noteq> Some ''tmpfs''" by auto
  with s m t show ?thesis by blast
qed

lemma shutdown_unreachable_witness:
  "\<exists>s. inis_main demo_inis 9 = Inr s \<and> RebootCalled \<notin> set (lp_history s)"
proof -
  obtain s where s: "inis_main demo_inis 9 = Inr s" using demo_inis_runs by blast
  from shutdown_unreachable [OF s] s show ?thesis by blast
qed

lemma remount_ro_option_mistaken_witness:
  "\<exists>c. Mounted c \<in> set (harden_rootfs demo_inis []) \<and> mc_target c \<noteq> ''/''"
proof -
  have r: "\<forall>h. ie_read demo_inis h ''/proc/mounts'' =
      Some ''/dev/vda / ext2 rw,errors=remount-ro,relatime 0 0''"
    by (simp add: demo_inis_def)
  have "\<exists>c. Mounted c \<in> set (harden_rootfs demo_inis [])"
    by (simp add: harden_rootfs_def writable_dirs_def mount_writable_def try_mount_def
        mount_fs_def mkdir_all_def demo_inis_def Let_def) blast?
  then obtain c where c: "Mounted c \<in> set (harden_rootfs demo_inis [])" by blast
  from remount_ro_option_mistaken [OF r c] c show ?thesis by blast
qed

text \<open>The same where the kernel reports nothing and process 3, not monitord, goes on living.\<close>

definition silent_inis :: inis_env where
  "silent_inis = demo_inis\<lparr>ie_wait := \<lambda>h. WOther\<rparr>"

theorem monitord_death_unnoticed_witness:
  "\<exists>s. inis_main silent_inis (1 + 50) = Inr s \<and> lp_pid s = Some 7 \<and> (7 :: pid) \<notin> {3} \<and>
     (\<exists>s1. inis_main silent_inis 1 = Inr s1 \<and> forks (lp_history s) = forks (lp_history s1))"
proof -
  have k: "reaps_silently (\<lambda>_. {3}) silent_inis" by (simp add: reaps_silently_def silent_inis_def)
  have spawn: "spawn_monitord silent_inis h = (Some 7, h @ [Forked monitord_path [(''UOS_BOOT'', ''1'')]])" for h
    by (simp add: spawn_monitord_def silent_inis_def demo_inis_def)
  have wait: "ie_wait silent_inis h = WOther" for h by (simp add: silent_inis_def)
  obtain s1 where s1: "inis_main silent_inis 1 = Inr s1" "lp_pid s1 = Some 7"
    by (simp add: inis_main_def spawn wait main_loop_def main_step_def main_loop_start_def max_restarts_def
        reap_def Let_def)
  from monitord_death_unnoticed [OF k s1, of 50] s1(1) show ?thesis by auto
qed

end
