(* ===== verification/Daemon.thy ===== *)
theory Daemon
  imports StardustClient
begin

section \<open>What the bus daemons have in common\<close>

text \<open>
  Every daemon under \<open>crates/\<close> opens the same way (connect to the bus, register a name,
  subscribe to a topic) and announces its state the same way (\<open>Message::new(..).src(..).param(
  "payload", ..)\<close>, published by a task of its own whose result is dropped). The literals of
  the \<open>json!\<close> macro are data here; turning a literal into a value of crate serde_json is a
  parameter.
\<close>

datatype json_lit =
    JNull
  | JBool bool
  | JNum int
  | JStr string
  | JArr "json_lit list"
  | JObj "(string \<times> json_lit) list"

definition json_opt_str :: "string option \<Rightarrow> json_lit" where
  "json_opt_str v = (case v of None \<Rightarrow> JNull | Some s \<Rightarrow> JStr s)"

record status_msg =
  st_method :: string
  st_src :: string
  st_payload :: json_lit

text \<open>
  What a daemon's client works with: JSON for strings and objects, identifiers (the one of the
  next message is taken at the length of the queue), the time, the order of the subscribers.
\<close>

record ('m, 'v) bus_env =
  be_to_json :: "string \<Rightarrow> bytes option"
  be_api :: "('m, 'v) json_object_api"
  be_value :: "json_lit \<Rightarrow> 'v option"
  be_uid :: "nat \<Rightarrow> uuid"
  be_now :: u64
  be_ord :: "string list \<Rightarrow> string list"

definition next_uid :: "('m, 'v) bus_env \<Rightarrow> client \<Rightarrow> uuid" where
  "next_uid env c = be_uid env (length (cl_queue c))"

definition status_message :: "('m, 'v) bus_env \<Rightarrow> uuid \<Rightarrow> status_msg \<Rightarrow> stardust_error + message" where
  "status_message env uid st =
     param (be_api env) ''payload'' (be_value env (st_payload st))
       (with_src (st_src st) (message_new uid (be_now env) (st_method st)))"

text \<open>
  The task that publishes owns a clone of the client; when it ends the clone is dropped, and
  dropping a client unsubscribes the topics all its clones share.
\<close>

definition drop_clone :: "('m, 'v) bus_env \<Rightarrow> client \<Rightarrow> client" where
  "drop_clone env c =
     client_drop (be_to_json env) (be_ord env)
       (map (\<lambda>i. (be_uid env (length (cl_queue c) + i), be_now env)) [0..<length (cl_subscribers c)]) c"

definition publish_status :: "('m, 'v) bus_env \<Rightarrow> status_msg \<Rightarrow> client \<Rightarrow> client" where
  "publish_status env st c =
     (case status_message env (next_uid env c) st of
        Inl _ \<Rightarrow> c
      | Inr msg \<Rightarrow> drop_clone env (snd (client_publish msg c)))"

text \<open>Publishing in place, without a clone.\<close>

definition publish_here :: "('m, 'v) bus_env \<Rightarrow> status_msg \<Rightarrow> client \<Rightarrow> client" where
  "publish_here env st c =
     (case status_message env (next_uid env c) st of
        Inl _ \<Rightarrow> c
      | Inr msg \<Rightarrow> snd (client_publish msg c))"

text \<open>
  The opening: the registration's result is ignored, the subscription's decides whether a task
  that reads the topic is started.
\<close>

definition daemon_register :: "('m, 'v) bus_env \<Rightarrow> string \<Rightarrow> client option \<Rightarrow> client option" where
  "daemon_register env name conn =
     map_option (\<lambda>c. snd (client_register (be_to_json env) (next_uid env c) (be_now env) name c)) conn"

definition daemon_subscribe :: "('m, 'v) bus_env \<Rightarrow> string \<Rightarrow> chan \<Rightarrow> client \<Rightarrow> client \<times> bool" where
  "daemon_subscribe env topic tx c =
     (case client_subscribe (be_to_json env) (next_uid env c) (be_now env) topic tx c of
        (Inl _, c') \<Rightarrow> (c', False)
      | (Inr _, c') \<Rightarrow> (c', True))"

definition daemon_open ::
  "('m, 'v) bus_env \<Rightarrow> string \<Rightarrow> string \<Rightarrow> chan \<Rightarrow> client option \<Rightarrow> (client \<times> bool) option" where
  "daemon_open env name topic tx conn =
     map_option (daemon_subscribe env topic tx) (daemon_register env name conn)"

lemmas client_ops_defs = client_register_def client_subscribe_def client_send_def client_publish_def
lemmas message_builders = params_raw_def with_src_def message_new_def

lemma daemon_open_fresh:
  assumes "be_to_json env name = Some b1" "be_to_json env topic = Some b2"
  shows "\<exists>c m1 m2. daemon_open env name topic tx (Some client_connected) = Some (c, True) \<and>
    cl_open c \<and> cl_subscribers c = [(topic, [tx])] \<and> cl_service_name c = Some name \<and>
    cl_queue c = [m1, m2] \<and> msg_method m1 = ''__stardust.register'' \<and> msg_params m1 = b1 \<and>
    msg_method m2 = ''__stardust.subscribe'' \<and> msg_params m2 = b2 \<and> msg_src m2 = name"
  using assms
  by (simp add: daemon_open_def daemon_register_def daemon_subscribe_def client_ops_defs
      client_connected_def name_or_default_def message_builders)

lemma drop_clone_one:
  assumes "cl_open c" "cl_subscribers c = [(topic, txs)]" "be_to_json env topic = Some b"
    and "fair_order (be_ord env)"
  shows "\<exists>m. cl_queue (drop_clone env c) = cl_queue c @ [m] \<and>
    msg_method m = ''__stardust.unsubscribe'' \<and> msg_params m = b"
proof -
  have "be_ord env [topic] = [topic]"
    using fair_order_mset [OF assms(4), of "[topic]"] by simp
  with assms(1-3) show ?thesis
    by (simp add: drop_clone_def client_drop_def keys_def client_send_def message_builders)
qed

lemma publish_status_queue:
  assumes "cl_open c" "cl_subscribers c = [(topic, txs)]" "be_to_json env topic = Some b"
    and "fair_order (be_ord env)" "be_value env (st_payload st) = Some v"
    and "jo_render (be_api env) (jo_insert (be_api env) ''payload'' v (jo_empty (be_api env))) = Some raw"
  shows "\<exists>m1 m2. cl_queue (publish_status env st c) = cl_queue c @ [m1, m2] \<and>
    msg_method m1 = st_method st \<and> msg_src m1 = st_src st \<and> msg_params m1 = raw \<and>
    msg_method m2 = ''__stardust.unsubscribe'' \<and> msg_params m2 = b"
proof -
  obtain m1 where m1: "status_message env (next_uid env c) st = Inr m1"
    "msg_method m1 = st_method st" "msg_src m1 = st_src st" "msg_params m1 = raw"
    using assms(5,6) by (simp add: status_message_def param_def message_builders)
  let ?c1 = "snd (client_publish m1 c)"
  have "cl_open ?c1" "cl_subscribers ?c1 = [(topic, txs)]" "cl_queue ?c1 = cl_queue c @ [m1]"
    using assms(1,2) by (simp_all add: client_publish_def client_send_def)
  from drop_clone_one [OF this(1,2) assms(3,4)] m1 this(3) show ?thesis
    by (auto simp: publish_status_def)
qed

subsection \<open>A daemon that announces its state stops hearing commands\<close>

definition subscribed :: "conn_id \<Rightarrow> string \<Rightarrow> broker_state \<Rightarrow> bool" where
  "subscribed cid topic st =
     (case map_of (subscriptions st) topic of None \<Rightarrow> False | Some cs \<Rightarrow> cid \<in> set cs)"

definition control_methods :: "string list" where
  "control_methods = [''__stardust.register'', ''__stardust.subscribe'', ''__stardust.unsubscribe'']"

lemma run_broker_append_fst:
  "fst (run_broker h (xs @ ys) st) = fst (run_broker h ys (fst (run_broker h xs st)))"
  by (induction xs arbitrary: st) (simp_all add: case_prod_beta Let_def)

text \<open>
  Property C16. A daemon that has opened its subscription loses it with its first announcement.
  When the broker has run what the opening queued, the daemon's connection is subscribed; when
  it has also run what the announcement queued it is not, because the publishing task drops its
  clone of the client and the drop unsubscribes every topic. This holds for every daemon name,
  topic and rendering of strings as JSON.
\<close>

theorem announcement_unsubscribes_daemon:
  assumes "daemon_open env name topic tx (Some client_connected) = Some (c, True)"
    and "be_to_json env name = Some b1" "be_to_json env topic = Some b2" "fair_order (be_ord env)"
    and "be_value env (st_payload st) = Some v"
    and "jo_render (be_api env) (jo_insert (be_api env) ''payload'' v (jo_empty (be_api env))) = Some raw"
    and "st_method st \<notin> set control_methods"
  shows "subscribed cid (from_utf8_lossy b2)
      (fst (run_broker h (map (dispatch cid reply) (cl_queue c)) B)) \<and>
    \<not> subscribed cid (from_utf8_lossy b2)
      (fst (run_broker h (map (dispatch cid reply) (cl_queue (publish_status env st c))) B))"
proof -
  obtain m1 m2 where c: "cl_open c" "cl_subscribers c = [(topic, [tx])]" "cl_queue c = [m1, m2]"
    and m: "msg_method m1 = ''__stardust.register''"
      "msg_method m2 = ''__stardust.subscribe''" "msg_params m2 = b2"
    using daemon_open_fresh [OF assms(2,3), of tx] assms(1) by auto
  obtain m3 m4 where q: "cl_queue (publish_status env st c) = cl_queue c @ [m3, m4]"
    and m': "msg_method m3 = st_method st" "msg_method m4 = ''__stardust.unsubscribe''" "msg_params m4 = b2"
    using publish_status_queue [OF c(1,2) assms(3-6)] by blast
  let ?T = "from_utf8_lossy b2"
  have d: "dispatch cid reply m2 = Subscribe cid ?T" "dispatch cid reply m4 = Unsubscribe cid ?T"
    "dispatch cid reply m3 = Route \<lparr>env_msg = m3, env_sender = cid\<rparr>"
    "dispatch cid reply m1 = Register cid (from_utf8_lossy (msg_params m1)) reply"
    using m m' assms(7) by (simp_all add: dispatch_def control_methods_def)
  show ?thesis
    unfolding q c(3) by (simp add: d subscribed_def hashmap_simps Let_def split: option.splits)
qed

text \<open>A JSON library that quotes strings and renders every object as \<open>{}\<close>.\<close>

definition brace_env :: "(unit, unit) bus_env" where
  "brace_env =
     \<lparr>be_to_json = plain_json,
      be_api = \<lparr>jo_parse = \<lambda>_. Some (), jo_empty = (), jo_insert = \<lambda>_ _ _. (), jo_render = \<lambda>_. Some (bytes_of ''{}'')\<rparr>,
      be_value = \<lambda>_. Some (), be_uid = of_nat, be_now = 0, be_ord = id\<rparr>"

theorem announcement_unsubscribes_daemon_witness:
  "\<exists>c. daemon_open brace_env ''audiod'' ''audio.command.*'' 0 (Some client_connected) = Some (c, True) \<and>
     \<not> subscribed 7 (from_utf8_lossy (0x22 # bytes_of ''audio.command.*'' @ [0x22]))
       (fst (run_broker \<lparr>ord_topics = id, ord_conns = id\<rparr>
         (map (dispatch 7 0) (cl_queue (publish_status brace_env
            \<lparr>st_method = ''audio.status'', st_src = ''audiod'', st_payload = JNull\<rparr> c))) broker_init))"
proof -
  let ?st = "\<lparr>st_method = ''audio.status'', st_src = ''audiod'', st_payload = JNull\<rparr>"
  have json: "be_to_json brace_env s = Some (0x22 # bytes_of s @ [0x22])" for s
    by (simp add: brace_env_def plain_json_def)
  obtain c where c: "daemon_open brace_env ''audiod'' ''audio.command.*'' 0 (Some client_connected) = Some (c, True)"
    using daemon_open_fresh [OF json json] by blast
  have "fair_order (be_ord brace_env)" "be_value brace_env (st_payload ?st) = Some ()"
    "jo_render (be_api brace_env) (jo_insert (be_api brace_env) ''payload'' () (jo_empty (be_api brace_env))) =
       Some (bytes_of ''{}'')"
    "st_method ?st \<notin> set control_methods"
    by (simp_all add: brace_env_def control_methods_def)
  from announcement_unsubscribes_daemon [OF c json json this] c show ?thesis by blast
qed

end
