(* ===== verification/Audiod.thy ===== *)
theory Audiod
  imports Daemon "HOL-Library.Signed_Division"
begin

section \<open>audiod: volume and mute\<close>

text \<open>
  \<open>crates/audiod\<close>: the volume controller with its optional ALSA mixer, the list of outputs, and
  the commands of the bus. The mixer may be absent; where it is there, each call of \<open>apply\<close> looks
  up its \<open>Master\<close> control, which may be missing, and asks it for a switch and a raw volume, each
  of which ALSA may refuse without the code noticing. \<open>i64\<close> arithmetic wraps, and division rounds
  towards zero.
\<close>

type_synonym i64 = "64 word"

definition MIN_VOLUME :: u32 where "MIN_VOLUME = 0"
definition MAX_VOLUME :: u32 where "MAX_VOLUME = 100"
definition DEFAULT_VOLUME :: u32 where "DEFAULT_VOLUME = 70"
definition VOLUME_STEP :: u32 where "VOLUME_STEP = 5"

lemmas volume_consts = MIN_VOLUME_def MAX_VOLUME_def DEFAULT_VOLUME_def VOLUME_STEP_def

text \<open>
  What ALSA answers to one call of \<open>apply\<close> when it finds the control: the range of the raw
  volume, and whether it accepts the switch and the volume.
\<close>

record alsa_answer =
  al_range :: "i64 \<times> i64"
  al_switch_ok :: bool
  al_volume_ok :: bool

text \<open>
  The controller, and what it has made of the hardware: the switch and the raw volume that ALSA
  accepted last, absent as long as there was none.
\<close>

record volume_controller =
  vc_volume :: u32
  vc_muted :: bool
  vc_previous :: u32
  vc_mixer :: bool
  vc_switch :: "bool option"
  vc_raw :: "i64 option"

text \<open>
  Opening the mixer: with the ALSA backend the default card and its \<open>Master\<close> control, without it
  nothing. The cards are those that can be opened and have a name.
\<close>

definition open_alsa :: "bool \<Rightarrow> 'm option \<Rightarrow> 'm option \<times> (string \<times> nat) option" where
  "open_alsa backend mixer =
     (if backend then
        (case mixer of Some m \<Rightarrow> (Some m, Some (''Master'', 0)) | None \<Rightarrow> (None, None))
      else (None, None))"

record card_info =
  ci_index :: int
  ci_name :: string

definition audio_cards :: "bool \<Rightarrow> (int \<times> string option) option list \<Rightarrow> card_info list" where
  "audio_cards backend items =
     (if backend
      then List.map_filter (\<lambda>item. case item of
             Some (index, Some name) \<Rightarrow> Some \<lparr>ci_index = index, ci_name = name\<rparr> | _ \<Rightarrow> None) items
      else [])"

definition volume_new :: "bool \<Rightarrow> volume_controller" where
  "volume_new mixer =
     \<lparr>vc_volume = DEFAULT_VOLUME, vc_muted = False, vc_previous = DEFAULT_VOLUME,
      vc_mixer = mixer, vc_switch = None, vc_raw = None\<rparr>"

definition alsa_raw :: "u32 \<Rightarrow> i64 \<times> i64 \<Rightarrow> i64" where
  "alsa_raw v r =
     (let (lo, hi) = r; long_vol = ucast v :: i64
      in lo + word_of_int (sint (long_vol * (hi - lo)) sdiv 100))"

definition volume_apply :: "alsa_answer option \<Rightarrow> volume_controller \<Rightarrow> volume_controller" where
  "volume_apply selem vc =
     (if \<not> vc_mixer vc then vc
      else (case selem of
              None \<Rightarrow> vc
            | Some a \<Rightarrow>
                let vc1 = (if al_switch_ok a then vc\<lparr>vc_switch := Some (\<not> vc_muted vc)\<rparr> else vc)
                in if al_volume_ok a then vc1\<lparr>vc_raw := Some (alsa_raw (vc_volume vc) (al_range a))\<rparr>
                   else vc1))"

definition set_volume :: "alsa_answer option \<Rightarrow> u32 \<Rightarrow> volume_controller \<Rightarrow> volume_controller" where
  "set_volume selem vol vc = volume_apply selem (vc\<lparr>vc_volume := max (min vol MAX_VOLUME) MIN_VOLUME\<rparr>)"

definition volume_up :: "alsa_answer option \<Rightarrow> volume_controller \<Rightarrow> volume_controller" where
  "volume_up selem vc =
     (let vc1 = vc\<lparr>vc_volume := min (vc_volume vc + VOLUME_STEP) MAX_VOLUME\<rparr>;
          vc2 = (if vc_muted vc1 then vc1\<lparr>vc_muted := False\<rparr> else vc1)
      in volume_apply selem vc2)"

definition saturating_sub :: "u32 \<Rightarrow> u32 \<Rightarrow> u32" where
  "saturating_sub a b = (if b \<le> a then a - b else 0)"

definition volume_down :: "alsa_answer option \<Rightarrow> volume_controller \<Rightarrow> volume_controller" where
  "volume_down selem vc =
     volume_apply selem (vc\<lparr>vc_volume := max (saturating_sub (vc_volume vc) VOLUME_STEP) MIN_VOLUME\<rparr>)"

definition toggle_mute :: "alsa_answer option \<Rightarrow> volume_controller \<Rightarrow> volume_controller" where
  "toggle_mute selem vc =
     volume_apply selem
       (if vc_muted vc then vc\<lparr>vc_muted := False, vc_volume := vc_previous vc\<rparr>
        else vc\<lparr>vc_muted := True, vc_previous := vc_volume vc, vc_volume := 0\<rparr>)"

record audio_device =
  ad_name :: string
  ad_available :: bool
  ad_default :: bool

definition list_outputs :: "audio_device list" where
  "list_outputs =
     [\<lparr>ad_name = ''HDMI'', ad_available = True, ad_default = True\<rparr>,
      \<lparr>ad_name = ''Analog'', ad_available = True, ad_default = False\<rparr>,
      \<lparr>ad_name = ''Bluetooth'', ad_available = False, ad_default = False\<rparr>]"

text \<open>
  The state as it is announced, and the commands; a command answers what it publishes. Each calls
  \<open>apply\<close> at most once, with what ALSA answers then.
\<close>

definition audio_status :: "volume_controller \<Rightarrow> status_msg" where
  "audio_status vc =
     \<lparr>st_method = ''audio.status'', st_src = ''audiod'',
      st_payload = JObj
        [(''volume'', JNum (uint (vc_volume vc))), (''muted'', JBool (vc_muted vc)),
         (''min_volume'', JNum (uint MIN_VOLUME)), (''max_volume'', JNum (uint MAX_VOLUME))]\<rparr>"

definition audio_command ::
  "(bytes \<Rightarrow> u32 option) \<Rightarrow> message \<Rightarrow> alsa_answer option \<Rightarrow> volume_controller \<Rightarrow>
   volume_controller \<times> status_msg list" where
  "audio_command parse_u32 msg selem vc =
     (if msg_method msg = ''audio.command.set_volume'' then
        (case parse_u32 (msg_params msg) of
           Some vol \<Rightarrow> (let vc' = set_volume selem vol vc in (vc', [audio_status vc']))
         | None \<Rightarrow> (vc, []))
      else if msg_method msg = ''audio.command.mute'' then
        (let vc' = toggle_mute selem vc in (vc', [audio_status vc']))
      else if msg_method msg = ''audio.command.volume_up'' then
        (let vc' = volume_up selem vc in (vc', [audio_status vc']))
      else if msg_method msg = ''audio.command.volume_down'' then
        (let vc' = volume_down selem vc in (vc', [audio_status vc']))
      else (vc, []))"

text \<open>
  The daemon: the controller and its client (\<open>None\<close> without a bus). Its events are a message on
  the command topic, which only arrives when there is a client, with what ALSA answers to the
  \<open>apply\<close> of the command, and the minute of the main loop.
\<close>

record audiod =
  au_volume :: volume_controller
  au_client :: "client option"

datatype audiod_event = AudioCommand message "alsa_answer option" | AudioMinute

definition audiod_publish ::
  "('m, 'v) bus_env \<Rightarrow> status_msg list \<Rightarrow> audiod \<Rightarrow> audiod" where
  "audiod_publish env sts d =
     d\<lparr>au_client := map_option (fold (publish_status env) sts) (au_client d)\<rparr>"

definition audiod_start ::
  "('m, 'v) bus_env \<Rightarrow> chan \<Rightarrow> bool \<Rightarrow> client option \<Rightarrow> audiod" where
  "audiod_start env tx mixer conn =
     (let vc = volume_new mixer;
          opened = daemon_open env ''audiod'' ''audio.command.*'' tx conn
      in audiod_publish env [audio_status vc] \<lparr>au_volume = vc, au_client = map_option fst opened\<rparr>)"

definition audiod_step ::
  "('m, 'v) bus_env \<Rightarrow> (bytes \<Rightarrow> u32 option) \<Rightarrow> audiod_event \<Rightarrow> audiod \<Rightarrow> audiod" where
  "audiod_step env parse_u32 e d =
     (case e of
        AudioCommand msg selem \<Rightarrow>
          (case au_client d of
             None \<Rightarrow> d
           | Some _ \<Rightarrow>
               (let (vc', sts) = audio_command parse_u32 msg selem (au_volume d)
                in audiod_publish env sts (d\<lparr>au_volume := vc'\<rparr>)))
      | AudioMinute \<Rightarrow> audiod_publish env [audio_status (au_volume d)] d)"

subsection \<open>The raw volume\<close>

lemma sint_of_int: "- (2 ^ 63) \<le> i \<Longrightarrow> i < 2 ^ 63 \<Longrightarrow> sint (word_of_int i :: i64) = i"
  by (simp add: signed_of_int signed_take_bit_int_eq_self)

lemma sint_offset:
  fixes lo hi :: i64
  assumes "0 \<le> q" "q \<le> sint hi - sint lo"
  shows "sint (lo + word_of_int q :: i64) = sint lo + q"
proof -
  have "- (2 ^ 63) \<le> sint lo" "sint hi < 2 ^ 63"
    using sint_ge [of lo] sint_lt [of hi] by simp_all
  then have "sint (word_of_int (sint lo + q) :: i64) = sint lo + q"
    using assms by (intro sint_of_int) simp_all
  moreover have "lo + word_of_int q = word_of_int (sint lo + q)"
    by (simp only: of_int_add of_int_sint scast_id)
  ultimately show ?thesis by (simp only:)
qed

lemma alsa_raw_exact:
  assumes v: "v \<le> 100" and lo_hi: "sint lo \<le> sint hi" "sint hi - sint lo < 2 ^ 56"
  shows "sint (alsa_raw v (lo, hi)) = sint lo + uint v * (sint hi - sint lo) div 100"
proof -
  let ?d = "sint hi - sint lo"
  have v100: "0 \<le> uint v" "uint v \<le> 100"
    using v by (simp_all add: word_le_def)
  then have prod: "0 \<le> uint v * ?d" "uint v * ?d \<le> 100 * ?d"
    using lo_hi(1) mult_right_mono [of "uint v" 100 ?d] by simp_all
  then have q: "0 \<le> uint v * ?d div 100" "uint v * ?d div 100 \<le> ?d"
    by (simp_all add: pos_imp_zdiv_nonneg_iff)
  have "(ucast v :: i64) * (hi - lo) = word_of_int (uint v * ?d)"
    by (simp flip: unsigned_of_int add: wi_hom_mult [symmetric] wi_hom_sub [symmetric])
  moreover have "sint (word_of_int (uint v * ?d) :: i64) = uint v * ?d"
  proof (rule sint_of_int)
    have "100 * ?d < 2 ^ 63" using lo_hi(2) by simp
    with prod(2) show "uint v * ?d < 2 ^ 63" by (rule le_less_trans)
    show "- (2 ^ 63) \<le> uint v * ?d" using prod(1) by (rule order_trans [rotated]) simp
  qed
  ultimately have "sint ((ucast v :: i64) * (hi - lo)) = uint v * ?d"
    by simp
  moreover have "(uint v * ?d) sdiv 100 = uint v * ?d div 100"
    using prod(1) by (simp add: signed_divide_int_def sgn_if)
  ultimately have "alsa_raw v (lo, hi) = lo + word_of_int (uint v * ?d div 100)"
    by (simp add: alsa_raw_def)
  with sint_offset [OF q] show ?thesis by (simp only:)
qed

lemma alsa_raw_within:
  assumes "v \<le> 100" "sint lo \<le> sint hi" "sint hi - sint lo < 2 ^ 56"
  shows "sint lo \<le> sint (alsa_raw v (lo, hi)) \<and> sint (alsa_raw v (lo, hi)) \<le> sint hi"
proof -
  have "0 \<le> uint v * (sint hi - sint lo)" "uint v * (sint hi - sint lo) \<le> 100 * (sint hi - sint lo)"
    using assms by (simp_all add: word_le_def mult_right_mono del: right_diff_distrib_numeral)
  then have "0 \<le> uint v * (sint hi - sint lo) div 100"
    "uint v * (sint hi - sint lo) div 100 \<le> sint hi - sint lo" by simp_all
  with alsa_raw_exact [OF assms] show ?thesis by simp
qed

subsection \<open>The state invariants\<close>

text \<open>
  The volumes are percentages, and without a mixer nothing is set; every raw volume comes from a
  percentage; the hardware is as the controller says.
\<close>

definition vc_ok :: "volume_controller \<Rightarrow> bool" where
  "vc_ok vc \<longleftrightarrow> vc_volume vc \<le> 100 \<and> vc_previous vc \<le> 100 \<and>
     (vc_mixer vc \<or> vc_switch vc = None \<and> vc_raw vc = None)"

definition raw_ok :: "i64 \<times> i64 \<Rightarrow> volume_controller \<Rightarrow> bool" where
  "raw_ok r vc \<longleftrightarrow> (\<forall>raw. vc_raw vc = Some raw \<longrightarrow> (\<exists>v \<le> 100. raw = alsa_raw v r))"

definition untouched :: "volume_controller \<Rightarrow> bool" where
  "untouched vc \<longleftrightarrow> vc_switch vc = None \<and> vc_raw vc = None"

definition obeyed :: "i64 \<times> i64 \<Rightarrow> volume_controller \<Rightarrow> bool" where
  "obeyed r vc \<longleftrightarrow> vc_switch vc = Some (\<not> vc_muted vc) \<and> vc_raw vc = Some (alsa_raw (vc_volume vc) r)"

text \<open>Answers with a given range, and answers that accept everything.\<close>

definition in_range :: "i64 \<times> i64 \<Rightarrow> alsa_answer option \<Rightarrow> bool" where
  "in_range r selem \<longleftrightarrow> (case selem of None \<Rightarrow> True | Some a \<Rightarrow> al_range a = r)"

definition accepts :: "i64 \<times> i64 \<Rightarrow> alsa_answer option \<Rightarrow> bool" where
  "accepts r selem \<longleftrightarrow>
     (case selem of None \<Rightarrow> False | Some a \<Rightarrow> al_range a = r \<and> al_switch_ok a \<and> al_volume_ok a)"

fun answer_of :: "audiod_event \<Rightarrow> alsa_answer option option" where
  "answer_of (AudioCommand msg selem) = Some selem"
| "answer_of AudioMinute = None"

lemma volume_apply_fields [simp]:
  "vc_volume (volume_apply a vc) = vc_volume vc" "vc_muted (volume_apply a vc) = vc_muted vc"
  "vc_previous (volume_apply a vc) = vc_previous vc" "vc_mixer (volume_apply a vc) = vc_mixer vc"
  by (simp_all add: volume_apply_def Let_def split: option.splits)

lemma apply_ok:
  assumes "vc_volume vc \<le> 100" "vc_previous vc \<le> 100" "vc_mixer vc \<or> untouched vc"
  shows "vc_ok (volume_apply a vc)"
    and "raw_ok r vc \<Longrightarrow> in_range r a \<Longrightarrow> raw_ok r (volume_apply a vc)"
    and "accepts r a \<Longrightarrow> untouched (volume_apply a vc) \<or> obeyed r (volume_apply a vc)"
  using assms by (auto simp: vc_ok_def raw_ok_def untouched_def obeyed_def in_range_def accepts_def
      volume_apply_def Let_def split: option.splits)

text \<open>Every operation ends with \<open>apply\<close>, on percentages and with the hardware as it was.\<close>

definition same_hw :: "volume_controller \<Rightarrow> volume_controller \<Rightarrow> bool" where
  "same_hw vc vc' \<longleftrightarrow>
     vc_mixer vc' = vc_mixer vc \<and> vc_switch vc' = vc_switch vc \<and> vc_raw vc' = vc_raw vc \<and>
     vc_volume vc' \<le> 100 \<and> vc_previous vc' \<le> 100"

lemma operations_apply:
  assumes "vc_ok vc"
  shows "\<exists>vc'. same_hw vc vc' \<and> set_volume a v vc = volume_apply a vc'"
    and "\<exists>vc'. same_hw vc vc' \<and> volume_up a vc = volume_apply a vc'"
    and "\<exists>vc'. same_hw vc vc' \<and> volume_down a vc = volume_apply a vc'"
    and "\<exists>vc'. same_hw vc vc' \<and> toggle_mute a vc = volume_apply a vc'"
proof -
  have v: "vc_volume vc \<le> 100" "vc_previous vc \<le> 100"
    using assms by (auto simp: vc_ok_def)
  have down: "saturating_sub (vc_volume vc) 5 \<le> 100"
    using v(1) by (simp add: saturating_sub_def) unat_arith
  show "\<exists>vc'. same_hw vc vc' \<and> set_volume a v vc = volume_apply a vc'"
    unfolding set_volume_def Let_def
    by (rule exI, rule conjI [rotated], rule refl) (use v in \<open>simp add: same_hw_def volume_consts\<close>)
  show "\<exists>vc'. same_hw vc vc' \<and> volume_up a vc = volume_apply a vc'"
    unfolding volume_up_def Let_def
    by (rule exI, rule conjI [rotated], rule refl) (use v in \<open>simp add: same_hw_def volume_consts\<close>)
  show "\<exists>vc'. same_hw vc vc' \<and> volume_down a vc = volume_apply a vc'"
    unfolding volume_down_def Let_def
    by (rule exI, rule conjI [rotated], rule refl) (use v down in \<open>simp add: same_hw_def volume_consts\<close>)
  show "\<exists>vc'. same_hw vc vc' \<and> toggle_mute a vc = volume_apply a vc'"
    unfolding toggle_mute_def Let_def
    by (rule exI, rule conjI [rotated], rule refl) (use v in \<open>simp add: same_hw_def volume_consts\<close>)
qed

lemma command_apply:
  assumes "vc_ok vc"
  shows "fst (audio_command parse_u32 msg a vc) = vc \<or>
    (\<exists>vc'. same_hw vc vc' \<and> fst (audio_command parse_u32 msg a vc) = volume_apply a vc')"
  using operations_apply [OF assms, of a]
  by (simp add: audio_command_def Let_def split: option.splits)

lemma audiod_publish_volume [simp]: "au_volume (audiod_publish env sts d) = au_volume d"
  by (simp add: audiod_publish_def)

lemma audiod_step_apply:
  assumes "vc_ok (au_volume d)"
  shows "au_volume (audiod_step env parse_u32 e d) = au_volume d \<or>
    (\<exists>vc' a. answer_of e = Some a \<and> same_hw (au_volume d) vc' \<and>
       au_volume (audiod_step env parse_u32 e d) = volume_apply a vc')"
proof (cases e)
  case (AudioCommand msg a)
  with command_apply [OF assms, of parse_u32 msg a] show ?thesis
    by (auto simp: audiod_step_def case_prod_beta split: option.splits)
qed (simp add: audiod_step_def)

lemma audiod_step_ok:
  assumes ok: "vc_ok (au_volume d)"
  shows "vc_ok (au_volume (audiod_step env parse_u32 e d))"
    and "raw_ok r (au_volume d) \<Longrightarrow> pred_option (in_range r) (answer_of e) \<Longrightarrow>
      raw_ok r (au_volume (audiod_step env parse_u32 e d))"
    and "untouched (au_volume d) \<or> obeyed r (au_volume d) \<Longrightarrow> pred_option (accepts r) (answer_of e) \<Longrightarrow>
      untouched (au_volume (audiod_step env parse_u32 e d)) \<or>
      obeyed r (au_volume (audiod_step env parse_u32 e d))"
proof -
  have mixer: "vc_mixer vc' \<or> untouched vc'" if "same_hw (au_volume d) vc'" for vc'
    using that ok by (auto simp: same_hw_def vc_ok_def untouched_def)
  have raw: "raw_ok r vc'" if "same_hw (au_volume d) vc'" "raw_ok r (au_volume d)" for vc'
    using that by (simp add: same_hw_def raw_ok_def)
  note step = audiod_step_apply [OF ok, of env parse_u32 e]
  show "vc_ok (au_volume (audiod_step env parse_u32 e d))"
    using step ok mixer apply_ok(1) by (auto simp: same_hw_def)
  show "raw_ok r (au_volume (audiod_step env parse_u32 e d))"
    if "raw_ok r (au_volume d)" "pred_option (in_range r) (answer_of e)"
    using step that mixer raw apply_ok(2) [where r = r] by (auto simp: same_hw_def)
  show "untouched (au_volume (audiod_step env parse_u32 e d)) \<or>
      obeyed r (au_volume (audiod_step env parse_u32 e d))"
    if "untouched (au_volume d) \<or> obeyed r (au_volume d)" "pred_option (accepts r) (answer_of e)"
    using step
  proof
    assume "\<exists>vc' a. answer_of e = Some a \<and> same_hw (au_volume d) vc' \<and>
      au_volume (audiod_step env parse_u32 e d) = volume_apply a vc'"
    then obtain vc' a where a: "answer_of e = Some a" "same_hw (au_volume d) vc'"
      "au_volume (audiod_step env parse_u32 e d) = volume_apply a vc'" by blast
    then show ?thesis
      using apply_ok(3) [of vc' r a] mixer [OF a(2)] that(2) by (simp add: same_hw_def)
  qed (use that in simp)
qed

interpretation audio: machine "audiod_step env parse_u32" "\<lambda>d. vc_ok (au_volume d)"
  for env parse_u32
  by unfold_locales (simp add: audiod_step_ok)

lemma audiod_run_ok:
  assumes "vc_ok (au_volume d)"
  shows "\<forall>e \<in> set es. pred_option (in_range r) (answer_of e) \<Longrightarrow> raw_ok r (au_volume d) \<Longrightarrow>
      raw_ok r (au_volume (fold (audiod_step env parse_u32) es d))"
    and "\<forall>e \<in> set es. pred_option (accepts r) (answer_of e) \<Longrightarrow>
      untouched (au_volume d) \<or> obeyed r (au_volume d) \<Longrightarrow>
      untouched (au_volume (fold (audiod_step env parse_u32) es d)) \<or>
      obeyed r (au_volume (fold (audiod_step env parse_u32) es d))"
  using assms by (induction es arbitrary: d) (simp_all add: audiod_step_ok)

lemma audiod_start_ok:
  "vc_ok (au_volume (audiod_start env tx mixer conn))"
  "raw_ok r (au_volume (audiod_start env tx mixer conn))"
  "untouched (au_volume (audiod_start env tx mixer conn))"
  by (simp_all add: audiod_start_def Let_def vc_ok_def raw_ok_def untouched_def volume_new_def volume_consts)

text \<open>
  Property C29. Whatever commands arrive, in whatever order and with whatever parameters, with a
  mixer or without one and whatever ALSA answers, the volume of audiod and the volume it
  remembers for unmuting stay within 0 to 100, from the start on. For a control whose raw range
  is \<open>lo\<close> to \<open>hi\<close>, not reversed and smaller than 2 to the 56: every raw volume that the hardware
  was made to take lies within the range, whatever ALSA refused in between; and as long as the
  control was found and accepted everything, the hardware is still untouched or agrees with
  audiod, with the raw volume at the percentage of the volume and the switch off exactly while
  muted.
\<close>

theorem audio_state_valid:
  assumes run: "fold (audiod_step env parse_u32) es (audiod_start env tx mixer conn) = d"
    and range: "sint lo \<le> sint hi" "sint hi - sint lo < 2 ^ 56"
  shows "vc_volume (au_volume d) \<le> 100 \<and> vc_previous (au_volume d) \<le> 100 \<and>
    ((\<forall>e \<in> set es. pred_option (in_range (lo, hi)) (answer_of e)) \<longrightarrow>
       (\<forall>raw. vc_raw (au_volume d) = Some raw \<longrightarrow> sint lo \<le> sint raw \<and> sint raw \<le> sint hi)) \<and>
    ((\<forall>e \<in> set es. pred_option (accepts (lo, hi)) (answer_of e)) \<longrightarrow>
       vc_switch (au_volume d) = None \<and> vc_raw (au_volume d) = None \<or>
       vc_switch (au_volume d) = Some (\<not> vc_muted (au_volume d)) \<and>
       (\<exists>raw. vc_raw (au_volume d) = Some raw \<and>
          sint raw = sint lo + uint (vc_volume (au_volume d)) * (sint hi - sint lo) div 100))"
proof -
  note start = audiod_start_ok [where env = env and tx = tx and mixer = mixer and conn = conn]
  have ok: "vc_ok (au_volume d)"
    unfolding run [symmetric] by (rule audio.run_invariant [OF start(1)])
  then have v: "vc_volume (au_volume d) \<le> 100" "vc_previous (au_volume d) \<le> 100"
    by (simp_all add: vc_ok_def)
  moreover have "sint lo \<le> sint raw \<and> sint raw \<le> sint hi"
    if "\<forall>e \<in> set es. pred_option (in_range (lo, hi)) (answer_of e)" "vc_raw (au_volume d) = Some raw" for raw
    using audiod_run_ok(1) [OF start(1) that(1) start(2), of env parse_u32] that(2) alsa_raw_within [OF _ range]
    by (auto simp: run raw_ok_def)
  moreover have "untouched (au_volume d) \<or> obeyed (lo, hi) (au_volume d)"
    if "\<forall>e \<in> set es. pred_option (accepts (lo, hi)) (answer_of e)"
    using audiod_run_ok(2) [OF start(1) that, of env parse_u32] start(3) by (simp add: run)
  ultimately show ?thesis
    using alsa_raw_exact [OF v(1) range] by (auto simp: untouched_def obeyed_def)
qed

text \<open>
  Where ALSA refuses the volume but not the switch, the two disagree with what audiod announces,
  and audiod does not know.
\<close>

lemma refused_volume_unnoticed:
  assumes "vc_mixer vc" "al_switch_ok a" "\<not> al_volume_ok a"
  shows "vc_volume (set_volume (Some a) 30 vc) = 30 \<and> vc_raw (set_volume (Some a) 30 vc) = vc_raw vc"
  using assms by (simp add: set_volume_def volume_apply_def volume_consts)

text \<open>Muting twice gives the volume back; a volume set while muted is lost on unmuting.\<close>

lemma mute_twice:
  "\<not> vc_muted vc \<Longrightarrow>
   \<not> vc_muted (toggle_mute b (toggle_mute a vc)) \<and> vc_volume (toggle_mute b (toggle_mute a vc)) = vc_volume vc"
  by (simp add: toggle_mute_def)

lemma set_while_muted_is_lost:
  "vc_muted vc \<Longrightarrow>
   vc_muted (set_volume a v vc) \<and> vc_volume (toggle_mute b (set_volume a v vc)) = vc_previous vc"
  by (simp add: toggle_mute_def set_volume_def)

text \<open>Turning up while muted starts from silence, not from the volume before.\<close>

lemma volume_up_while_muted:
  "vc_volume (volume_up b (toggle_mute a vc)) = (if vc_muted vc then min (vc_previous vc + 5) 100 else 5)"
  by (simp add: volume_up_def toggle_mute_def Let_def volume_consts min_def)

text \<open>A JSON library that renders nothing.\<close>

definition no_json_env :: "(unit, unit) bus_env" where
  "no_json_env =
     \<lparr>be_to_json = \<lambda>_. Some [],
      be_api = \<lparr>jo_parse = \<lambda>_. None, jo_empty = (), jo_insert = \<lambda>_ _ _. (), jo_render = \<lambda>_. None\<rparr>,
      be_value = \<lambda>_. None, be_uid = of_nat, be_now = 0, be_ord = id\<rparr>"

theorem audio_state_valid_witness:
  "\<exists>d raw. fold (audiod_step no_json_env (\<lambda>_. Some 250))
       [AudioCommand (message_new 1 0 ''audio.command.set_volume'')
          (Some \<lparr>al_range = (-5, 200), al_switch_ok = True, al_volume_ok = True\<rparr>)]
       (audiod_start no_json_env 0 True (Some client_connected)) = d \<and>
     vc_switch (au_volume d) = Some True \<and> vc_raw (au_volume d) = Some raw \<and> sint raw = 200 \<and>
     vc_volume (au_volume d) \<le> 100"
proof -
  let ?a = "\<lparr>al_range = (-5, 200), al_switch_ok = True, al_volume_ok = True\<rparr>"
  let ?es = "[AudioCommand (message_new 1 0 ''audio.command.set_volume'') (Some ?a)]"
  let ?d = "fold (audiod_step no_json_env (\<lambda>_. Some 250)) ?es
       (audiod_start no_json_env 0 True (Some client_connected))"
  have hw: "vc_switch (au_volume ?d) = Some True" "vc_volume (au_volume ?d) = 100"
    by (simp_all add: audiod_start_def Let_def daemon_open_def daemon_register_def
        audiod_publish_def audiod_step_def audio_command_def
        message_new_def set_volume_def volume_new_def volume_apply_def MAX_VOLUME_def MIN_VOLUME_def)
  have sints: "sint (-5 :: i64) \<le> sint (200 :: i64)" "sint (200 :: i64) - sint (-5 :: i64) < 2 ^ 56"
    by simp_all
  have "\<forall>e \<in> set ?es. pred_option (accepts (-5, 200)) (answer_of e)"
    by (simp add: accepts_def)
  with audio_state_valid [OF refl sints, of no_json_env "\<lambda>_. Some 250" ?es 0 True "Some client_connected"] hw
  have "\<exists>raw. vc_raw (au_volume ?d) = Some raw \<and> sint raw = sint (-5 :: i64) + uint (100 :: u32) * (sint (200 :: i64) - sint (-5 :: i64)) div 100"
    by (simp del: fold_simps)
  then obtain raw where "vc_raw (au_volume ?d) = Some raw" "sint raw = 200" by auto
  with hw show ?thesis
    by (intro exI [of _ ?d] exI [of _ raw] conjI refl) (simp_all del: fold_simps)
qed

end
