(* ===== verification/Inputd.thy ===== *)
theory Inputd
  imports Daemon
begin

section \<open>inputd: keys and the remote control\<close>

text \<open>
  \<open>crates/inputd\<close>: the scan for event devices, the translation of evdev events, the table of
  the infrared remote, the blocking read loop and the dispatch onto the bus. What the kernel
  gives (directory entries, opened devices, fetched events) is data; the reader thread's
  channel is a predicate on what was sent before.
\<close>

datatype remote_key =
    Up | Down | Left | Right | Ok | Back | Home | Menu
  | VolumeUp | VolumeDown | Mute | Power | Source | ChannelUp | ChannelDown
  | Red | Green | Blue | Yellow | Play | Pause | Stop | Forward | Rewind
  | Numeric u8

datatype event_kind = KeyPress u16 | KeyRelease u16 | RemoteButton remote_key

record input_event =
  ie_device :: string
  ie_kind :: event_kind

definition ir_table :: "(nat \<times> remote_key) list" where
  "ir_table =
     [(103, Up), (108, Down), (105, Left), (106, Right), (28, Ok), (158, Back), (102, Home),
      (139, Menu), (115, VolumeUp), (114, VolumeDown), (113, Mute), (116, Power), (142, Power),
      (362, Source), (402, ChannelUp), (403, ChannelDown), (398, Red), (399, Green), (400, Blue),
      (401, Yellow), (207, Play), (119, Pause), (128, Stop), (208, Forward), (168, Rewind),
      (2, Numeric 1), (3, Numeric 2), (4, Numeric 3), (5, Numeric 4), (6, Numeric 5),
      (7, Numeric 6), (8, Numeric 7), (9, Numeric 8), (10, Numeric 9), (11, Numeric 0)]"

definition ir_decode :: "u16 \<Rightarrow> remote_key option" where
  "ir_decode code = map_of ir_table (unat code)"

fun ir_name :: "remote_key \<Rightarrow> string" where
  "ir_name Up = ''Up''"
| "ir_name Down = ''Down''"
| "ir_name Left = ''Left''"
| "ir_name Right = ''Right''"
| "ir_name Ok = ''OK''"
| "ir_name Back = ''Back''"
| "ir_name Home = ''Home''"
| "ir_name Menu = ''Menu''"
| "ir_name VolumeUp = ''Vol+''"
| "ir_name VolumeDown = ''Vol-''"
| "ir_name Mute = ''Mute''"
| "ir_name Power = ''Power''"
| "ir_name Source = ''Source''"
| "ir_name ChannelUp = ''CH+''"
| "ir_name ChannelDown = ''CH-''"
| "ir_name Red = ''Red''"
| "ir_name Green = ''Green''"
| "ir_name Blue = ''Blue''"
| "ir_name Yellow = ''Yellow''"
| "ir_name Play = ''Play''"
| "ir_name Pause = ''Pause''"
| "ir_name Stop = ''Stop''"
| "ir_name Forward = ''Fwd''"
| "ir_name Rewind = ''Rwd''"
| "ir_name (Numeric d) = (if unat d < 10 then show_nat (unat d) else ''?'')"

text \<open>An evdev event: its kind, a key with its code or anything else, and its value.\<close>

datatype evdev_kind = EvKey u16 | EvOther

definition translate_ev :: "string \<Rightarrow> evdev_kind \<times> int \<Rightarrow> input_event option" where
  "translate_ev path ev =
     (case fst ev of
        EvOther \<Rightarrow> None
      | EvKey code \<Rightarrow>
          (case ir_decode code of
             Some k \<Rightarrow> Some \<lparr>ie_device = path, ie_kind = RemoteButton k\<rparr>
           | None \<Rightarrow>
               if snd ev = 1 then Some \<lparr>ie_device = path, ie_kind = KeyPress code\<rparr>
               else if snd ev = 0 then Some \<lparr>ie_device = path, ie_kind = KeyRelease code\<rparr>
               else None))"

text \<open>Directory entries are their paths with their names; \<open>can_open\<close> says which devices open.\<close>

definition scan_devices :: "(string \<times> string) list option \<Rightarrow> (string \<Rightarrow> bool) \<Rightarrow> string list" where
  "scan_devices dir can_open =
     (case dir of
        None \<Rightarrow> []
      | Some es \<Rightarrow> map fst (filter (\<lambda>(path, name). starts_with name ''event'' \<and> can_open path) es))"

text \<open>On other systems than Linux nothing is scanned; the handler keeps what was found.\<close>

record input_handler =
  ih_devices :: "string list"

definition input_handler_new ::
  "bool \<Rightarrow> (string \<times> string) list option \<Rightarrow> (string \<Rightarrow> bool) \<Rightarrow> input_handler" where
  "input_handler_new linux dir can_open =
     \<lparr>ih_devices = (if linux then scan_devices dir can_open else [])\<rparr>"

subsection \<open>The read loop\<close>

text \<open>Sending stops at the first send that finds the receiver gone.\<close>

fun send_events ::
  "(input_event list \<Rightarrow> bool) \<Rightarrow> input_event list \<Rightarrow> input_event list \<Rightarrow> input_event list \<times> bool" where
  "send_events alive sent [] = (sent, True)"
| "send_events alive sent (e # es) =
     (if alive sent then send_events alive (sent @ [e]) es else (sent, False))"

definition fetched_events :: "string \<Rightarrow> (string + (evdev_kind \<times> int) list) \<Rightarrow> input_event list" where
  "fetched_events path r =
     (case r of Inl _ \<Rightarrow> [] | Inr evs \<Rightarrow> List.map_filter (translate_ev path) evs)"

fun read_devices ::
  "(input_event list \<Rightarrow> bool) \<Rightarrow> (string \<Rightarrow> string + (evdev_kind \<times> int) list) \<Rightarrow>
   string list \<Rightarrow> input_event list \<Rightarrow> input_event list \<times> bool" where
  "read_devices alive fetch [] sent = (sent, True)"
| "read_devices alive fetch (path # ps) sent =
     (case send_events alive sent (fetched_events path (fetch path)) of
        (sent', True) \<Rightarrow> read_devices alive fetch ps sent'
      | (sent', False) \<Rightarrow> (sent', False))"

text \<open>
  One pass over the opened devices per element of \<open>passes\<close>; the loop itself only ends when
  the receiver is gone. Without devices it returns at once.
\<close>

fun read_passes ::
  "(input_event list \<Rightarrow> bool) \<Rightarrow> string list \<Rightarrow> (string \<Rightarrow> string + (evdev_kind \<times> int) list) list \<Rightarrow>
   input_event list \<Rightarrow> input_event list" where
  "read_passes alive opened [] sent = sent"
| "read_passes alive opened (fetch # fs) sent =
     (case read_devices alive fetch opened sent of
        (sent', True) \<Rightarrow> read_passes alive opened fs sent'
      | (sent', False) \<Rightarrow> sent')"

definition read_loop ::
  "(input_event list \<Rightarrow> bool) \<Rightarrow> (string \<Rightarrow> bool) \<Rightarrow> string list \<Rightarrow>
   (string \<Rightarrow> string + (evdev_kind \<times> int) list) list \<Rightarrow> input_event list" where
  "read_loop alive can_open devices passes =
     (if devices = [] then [] else read_passes alive (filter can_open devices) passes [])"

subsection \<open>Dispatch\<close>

definition input_status :: "input_event \<Rightarrow> status_msg" where
  "input_status ev =
     (case ie_kind ev of
        RemoteButton k \<Rightarrow>
          \<lparr>st_method = ''input.remote'', st_src = ''inputd'',
           st_payload = JObj [(''device'', JStr (ie_device ev)), (''button'', JStr (ir_name k)),
                              (''kind'', JStr ''remote'')]\<rparr>
      | KeyPress code \<Rightarrow>
          \<lparr>st_method = ''input.key'', st_src = ''inputd'',
           st_payload = JObj [(''device'', JStr (ie_device ev)), (''key'', JNum (uint code)),
                              (''state'', JStr ''pressed'')]\<rparr>
      | KeyRelease code \<Rightarrow>
          \<lparr>st_method = ''input.key'', st_src = ''inputd'',
           st_payload = JObj [(''device'', JStr (ie_device ev)), (''key'', JNum (uint code)),
                              (''state'', JStr ''released'')]\<rparr>)"

definition dispatch_events :: "('m, 'v) bus_env \<Rightarrow> input_event list \<Rightarrow> client \<Rightarrow> client" where
  "dispatch_events env evs c = fold (\<lambda>ev. publish_here env (input_status ev)) evs c"

text \<open>Without a bus the daemon returns; otherwise what the reader sends is dispatched in order.\<close>

definition inputd_main ::
  "('m, 'v) bus_env \<Rightarrow> chan \<Rightarrow> client option \<Rightarrow> input_event list \<Rightarrow> client option" where
  "inputd_main env tx conn evs =
     (case daemon_open env ''inputd'' ''input.command.*'' tx conn of
        None \<Rightarrow> None
      | Some (c, _) \<Rightarrow> Some (dispatch_events env evs c))"

subsection \<open>What is reported\<close>

lemma ir_decode_test:
  "ir_decode 103 = Some Up" "ir_decode 116 = Some Power" "ir_decode 2 = Some (Numeric 1)"
  "ir_decode 11 = Some (Numeric 0)" "ir_decode 999 = None"
  by (simp_all add: ir_decode_def ir_table_def)

text \<open>Only the power button has two codes.\<close>

lemma ir_decode_unique:
  assumes "ir_decode a = Some k" "ir_decode b = Some k" "k \<noteq> Power"
  shows "a = b"
proof -
  have dist: "distinct (map snd (filter (\<lambda>p. snd p \<noteq> Power) ir_table))"
    by (simp add: ir_table_def)
  have "(unat a, k) \<in> set (filter (\<lambda>p. snd p \<noteq> Power) ir_table)"
    "(unat b, k) \<in> set (filter (\<lambda>p. snd p \<noteq> Power) ir_table)"
    using assms by (auto simp: ir_decode_def dest: map_of_SomeD)
  then have "unat a = unat b"
    using dist by (metis distinct_map inj_onD prod.inject snd_conv)
  then show ?thesis by (simp only: word_unat_eq_iff)
qed

text \<open>A button of the remote is reported for its press, every repeat and its release alike.\<close>

lemma button_reported_for_every_value:
  "ir_decode code = Some k \<Longrightarrow>
   map (map_option input_status \<circ> translate_ev path) [(EvKey code, 1), (EvKey code, 2), (EvKey code, 0)] =
     replicate 3 (Some (input_status \<lparr>ie_device = path, ie_kind = RemoteButton k\<rparr>))"
  by (simp add: translate_ev_def numeral_3_eq_3)

lemma key_reported_once:
  "ir_decode code = None \<Longrightarrow>
   List.map_filter (translate_ev path) [(EvKey code, 1), (EvKey code, 2), (EvKey code, 0)] =
     [\<lparr>ie_device = path, ie_kind = KeyPress code\<rparr>, \<lparr>ie_device = path, ie_kind = KeyRelease code\<rparr>]"
  by (simp add: translate_ev_def map_filter_simps)

lemma send_events_all:
  "(\<And>l. alive l) \<Longrightarrow> send_events alive sent es = (sent @ es, True)"
  by (induction es arbitrary: sent) auto

lemma read_devices_all:
  "(\<And>l. alive l) \<Longrightarrow> read_devices alive fetch ps sent =
     (sent @ concat (map (\<lambda>p. fetched_events p (fetch p)) ps), True)"
  by (induction ps arbitrary: sent) (simp_all add: send_events_all)

text \<open>
  While the dispatcher is there, every event of every opened device is sent, device by device
  in each pass.
\<close>

lemma read_passes_all:
  "(\<And>l. alive l) \<Longrightarrow> read_passes alive opened passes sent =
     sent @ concat (map (\<lambda>fetch. concat (map (\<lambda>p. fetched_events p (fetch p)) opened)) passes)"
  by (induction passes arbitrary: sent) (simp_all add: read_devices_all)

end
