(* ===== verification/NetmdWifi.thy ===== *)
theory NetmdWifi
  imports StardustMessage Commands
begin

section \<open>netmd: WiFi\<close>

text \<open>
  \<open>crates/netmd/src/wifi.rs\<close>: the parsers of the output of \<open>wpa_cli\<close> and the manager's operations,
  each a sequence of runs of the program (\<open>Commands\<close>). An operation gives its result and the
  world after its runs.
\<close>

subsection \<open>Signed numbers in text\<close>

definition parse_i32 :: "string \<Rightarrow> int option" where
  "parse_i32 s =
     (let neg = (s \<noteq> [] \<and> hd s = CHR ''-'');
          ds = (if s \<noteq> [] \<and> (hd s = CHR ''+'' \<or> hd s = CHR ''-'') then tl s else s);
          v = (if neg then - int (decimal_value ds) else int (decimal_value ds))
      in if ds \<noteq> [] \<and> list_all is_digit ds \<and> - (2 ^ 31) \<le> v \<and> v < 2 ^ 31 then Some v else None)"

lemma parse_i32_range: "parse_i32 s = Some v \<Longrightarrow> - (2 ^ 31) \<le> v \<and> v < 2 ^ 31"
  unfolding parse_i32_def Let_def by (metis (no_types, lifting) option.distinct(1) option.inject)

subsection \<open>Parsers\<close>

record wifi_network =
  wn_ssid :: string
  wn_bssid :: string
  wn_frequency :: string
  wn_signal :: int
  wn_security :: string

record saved_network =
  sn_id :: nat
  sn_ssid :: string
  sn_bssid :: string
  sn_flags :: string

record wifi_status =
  wst_ssid :: "string option"
  wst_bssid :: "string option"
  wst_freq :: "nat option"
  wst_ip_address :: "string option"
  wst_key_mgmt :: "string option"
  wst_wpa_state :: "string option"

definition security_of :: "string \<Rightarrow> string" where
  "security_of flags =
     (if str_contains flags ''WPA2'' then ''WPA2''
      else if str_contains flags ''WPA'' then ''WPA''
      else if str_contains flags ''WEP'' then ''WEP''
      else ''OPEN'')"

definition parse_scan_line :: "string \<Rightarrow> wifi_network option" where
  "parse_scan_line line =
     (let fields = split_on CHR 0x09 line
      in if length fields < 5 then None
         else if fields ! 4 = [] then None
         else Some \<lparr>wn_ssid = fields ! 4, wn_bssid = fields ! 0, wn_frequency = fields ! 1,
                    wn_signal = (case parse_i32 (fields ! 2) of None \<Rightarrow> 0 | Some v \<Rightarrow> v),
                    wn_security = security_of (fields ! 3)\<rparr>)"

definition parse_scan_results :: "string \<Rightarrow> wifi_network list" where
  "parse_scan_results output =
     sort_key (\<lambda>n. - wn_signal n) (List.map_filter parse_scan_line (drop 1 (str_lines output)))"

definition parse_network_line :: "string \<Rightarrow> saved_network option" where
  "parse_network_line line =
     (let fields = split_on CHR 0x09 line
      in if length fields < 4 then None
         else (case parse_unsigned 32 (fields ! 0) of
                 None \<Rightarrow> None
               | Some i \<Rightarrow> Some \<lparr>sn_id = i, sn_ssid = fields ! 1, sn_bssid = fields ! 2,
                                sn_flags = fields ! 3\<rparr>))"

definition parse_network_list :: "string \<Rightarrow> saved_network list" where
  "parse_network_list output = List.map_filter parse_network_line (drop 1 (str_lines output))"

definition no_status :: wifi_status where
  "no_status =
     \<lparr>wst_ssid = None, wst_bssid = None, wst_freq = None, wst_ip_address = None,
      wst_key_mgmt = None, wst_wpa_state = None\<rparr>"

definition parse_status_line :: "string \<Rightarrow> wifi_status \<times> bool \<Rightarrow> wifi_status \<times> bool" where
  "parse_status_line line st =
     (let (status, found) = st
      in case strip_prefix line ''ssid='' of
           Some val \<Rightarrow> (status\<lparr>wst_ssid := Some val\<rparr>, True)
         | None \<Rightarrow>
      (case strip_prefix line ''bssid='' of
           Some val \<Rightarrow> (status\<lparr>wst_bssid := Some val\<rparr>, found)
         | None \<Rightarrow>
      (case strip_prefix line ''freq='' of
           Some val \<Rightarrow> (status\<lparr>wst_freq := parse_unsigned 32 val\<rparr>, found)
         | None \<Rightarrow>
      (case strip_prefix line ''ip_address='' of
           Some val \<Rightarrow> (status\<lparr>wst_ip_address := Some val\<rparr>, found)
         | None \<Rightarrow>
      (case strip_prefix line ''key_mgmt='' of
           Some val \<Rightarrow> (status\<lparr>wst_key_mgmt := Some val\<rparr>, found)
         | None \<Rightarrow>
      (case strip_prefix line ''wpa_state='' of
           Some val \<Rightarrow> (status\<lparr>wst_wpa_state := Some val\<rparr>, found)
         | None \<Rightarrow> (status, found)))))))"

definition parse_wifi_status :: "string \<Rightarrow> wifi_status option" where
  "parse_wifi_status output =
     (case fold parse_status_line (str_lines output) (no_status, False) of
        (status, found) \<Rightarrow> if found then Some status else None)"

subsection \<open>The manager\<close>

record wifi_manager =
  wm_iface :: string
  wm_cli_path :: string

definition wifi_manager_new :: wifi_manager where
  "wifi_manager_new = \<lparr>wm_iface = ''wlan0'', wm_cli_path = ''/usr/sbin/wpa_cli''\<rparr>"

definition with_interface :: "string \<Rightarrow> wifi_manager" where
  "with_interface iface = \<lparr>wm_iface = iface, wm_cli_path = ''/usr/sbin/wpa_cli''\<rparr>"

definition wpa_cli :: "'w runner \<Rightarrow> wifi_manager \<Rightarrow> string list \<Rightarrow> 'w \<Rightarrow> cmd_output option \<times> 'w" where
  "wpa_cli run wm args w =
     run w (wm_cli_path wm) ([''-i'', wm_iface wm, ''-p'', ''/var/run/wpa_supplicant''] @ args)"

definition wifi_available :: "'w runner \<Rightarrow> wifi_manager \<Rightarrow> 'w \<Rightarrow> bool \<times> 'w" where
  "wifi_available run wm w = (case wpa_cli run wm [''status''] w of (r, w1) \<Rightarrow> (r \<noteq> None, w1))"

definition wifi_scan :: "'w runner \<Rightarrow> wifi_manager \<Rightarrow> 'w \<Rightarrow> wifi_network list \<times> 'w" where
  "wifi_scan run wm w =
     (case wpa_cli run wm [''scan''] w of
        (None, w1) \<Rightarrow> ([], w1)
      | (Some _, w1) \<Rightarrow>
          (case wpa_cli run wm [''scan_results''] w1 of
             (None, w2) \<Rightarrow> ([], w2)
           | (Some o2, w2) \<Rightarrow> (parse_scan_results (from_utf8_lossy (co_stdout o2)), w2)))"

definition list_networks :: "'w runner \<Rightarrow> wifi_manager \<Rightarrow> 'w \<Rightarrow> saved_network list \<times> 'w" where
  "list_networks run wm w =
     (case wpa_cli run wm [''list_networks''] w of
        (None, w1) \<Rightarrow> ([], w1)
      | (Some o1, w1) \<Rightarrow> (parse_network_list (from_utf8_lossy (co_stdout o1)), w1))"

definition quoted :: "string \<Rightarrow> string" where
  "quoted s = [CHR 0x22] @ s @ [CHR 0x22]"

datatype wifi_error =
    SetPskFailed | AddNetworkFailed | BadNetworkId | SetSsidFailed | EnableFailed | SelectFailed
  | DisconnectFailed

text \<open>One run whose only failure is that the program could not be started.\<close>

definition wpa_or :: "wifi_error \<Rightarrow> 'w runner \<Rightarrow> wifi_manager \<Rightarrow> string list \<Rightarrow> 'w \<Rightarrow>
    (wifi_error + cmd_output) \<times> 'w" where
  "wpa_or e run wm args w =
     (case wpa_cli run wm args w of (None, w1) \<Rightarrow> (Inl e, w1) | (Some o1, w1) \<Rightarrow> (Inr o1, w1))"

text \<open>The network to connect to: the saved one with this name, or a new one.\<close>

definition prepare_network ::
  "'w runner \<Rightarrow> wifi_manager \<Rightarrow> string \<Rightarrow> string \<Rightarrow> 'w \<Rightarrow> (wifi_error + nat) \<times> 'w" where
  "prepare_network run wm ssid password w =
     (let (existing, w1) = list_networks run wm w
      in case find (\<lambda>n. sn_ssid n = ssid) existing of
           Some n \<Rightarrow>
             (case wpa_or SetPskFailed run wm
                     [''set_network'', show_nat (sn_id n), ''psk'', quoted password] w1 of
                (Inl e, w2) \<Rightarrow> (Inl e, w2)
              | (Inr _, w2) \<Rightarrow> (Inr (sn_id n), w2))
         | None \<Rightarrow>
             (case wpa_or AddNetworkFailed run wm [''add_network''] w1 of
                (Inl e, w2) \<Rightarrow> (Inl e, w2)
              | (Inr o2, w2) \<Rightarrow>
             (case parse_unsigned 32 (trim (from_utf8_lossy (co_stdout o2))) of
                None \<Rightarrow> (Inl BadNetworkId, w2)
              | Some net_id \<Rightarrow>
             (case wpa_or SetSsidFailed run wm
                     [''set_network'', show_nat net_id, ''ssid'', quoted ssid] w2 of
                (Inl e, w3) \<Rightarrow> (Inl e, w3)
              | (Inr _, w3) \<Rightarrow>
             (case wpa_or SetPskFailed run wm
                     [''set_network'', show_nat net_id, ''psk'', quoted password] w3 of
                (Inl e, w4) \<Rightarrow> (Inl e, w4)
              | (Inr _, w4) \<Rightarrow> (Inr net_id, w4))))))"

definition wifi_connect ::
  "'w runner \<Rightarrow> wifi_manager \<Rightarrow> string \<Rightarrow> string \<Rightarrow> 'w \<Rightarrow> (wifi_error + unit) \<times> 'w" where
  "wifi_connect run wm ssid password w =
     (case prepare_network run wm ssid password w of
        (Inl e, w1) \<Rightarrow> (Inl e, w1)
      | (Inr net_id, w1) \<Rightarrow>
     (case wpa_or EnableFailed run wm [''enable_network'', show_nat net_id] w1 of
        (Inl e, w2) \<Rightarrow> (Inl e, w2)
      | (Inr _, w2) \<Rightarrow>
     (case wpa_or SelectFailed run wm [''select_network'', show_nat net_id] w2 of
        (Inl e, w3) \<Rightarrow> (Inl e, w3)
      | (Inr _, w3) \<Rightarrow> (Inr (), snd (wpa_cli run wm [''save_config''] w3)))))"

definition wifi_disconnect :: "'w runner \<Rightarrow> wifi_manager \<Rightarrow> 'w \<Rightarrow> (wifi_error + unit) \<times> 'w" where
  "wifi_disconnect run wm w =
     (case wpa_or DisconnectFailed run wm [''disconnect''] w of
        (Inl e, w1) \<Rightarrow> (Inl e, w1)
      | (Inr _, w1) \<Rightarrow> (Inr (), w1))"

definition wifi_status_of :: "'w runner \<Rightarrow> wifi_manager \<Rightarrow> 'w \<Rightarrow> wifi_status option \<times> 'w" where
  "wifi_status_of run wm w =
     (case wpa_cli run wm [''status''] w of
        (None, w1) \<Rightarrow> (None, w1)
      | (Some o1, w1) \<Rightarrow> (parse_wifi_status (from_utf8_lossy (co_stdout o1)), w1))"

fun first_rssi :: "string list \<Rightarrow> int option" where
  "first_rssi [] = None"
| "first_rssi (line # ls) =
     (case strip_prefix line ''RSSI='' of Some val \<Rightarrow> parse_i32 (trim val) | None \<Rightarrow> first_rssi ls)"

definition signal_poll :: "'w runner \<Rightarrow> wifi_manager \<Rightarrow> 'w \<Rightarrow> int option \<times> 'w" where
  "signal_poll run wm w =
     (case wpa_cli run wm [''signal_poll''] w of
        (None, w1) \<Rightarrow> (None, w1)
      | (Some o1, w1) \<Rightarrow> (first_rssi (str_lines (from_utf8_lossy (co_stdout o1))), w1))"

subsection \<open>What the parsers and the manager guarantee\<close>

lemma sorted_wrt_sort_key_desc: "sorted_wrt (\<lambda>a b. wn_signal b \<le> wn_signal a) (sort_key (\<lambda>n. - wn_signal n) ns)"
proof -
  have "sorted (map (\<lambda>n. - wn_signal n) (sort_key (\<lambda>n. - wn_signal n) ns))"
    by (rule sorted_sort_key)
  then show ?thesis by (simp add: sorted_map)
qed

lemma parse_scan_line_named: "parse_scan_line l = Some n \<Longrightarrow> wn_ssid n \<noteq> []"
  by (auto simp: parse_scan_line_def Let_def split: if_splits)

text \<open>
  The networks found by a scan are exactly those of the well-formed lines after the
  header, each as often as it occurs; the strongest come first, networks of equal strength stay
  in the order of the output, and none has an empty name.
\<close>

lemma scan_results_sorted:
  "sorted_wrt (\<lambda>a b. wn_signal b \<le> wn_signal a) (parse_scan_results out) \<and>
   mset (parse_scan_results out) = mset (List.map_filter parse_scan_line (drop 1 (str_lines out))) \<and>
   filter (\<lambda>n. wn_signal n = k) (parse_scan_results out) =
     filter (\<lambda>n. wn_signal n = k) (List.map_filter parse_scan_line (drop 1 (str_lines out))) \<and>
   filter (\<lambda>n. wn_ssid n = []) (parse_scan_results out) = []"
proof (intro conjI)
  let ?ns = "List.map_filter parse_scan_line (drop 1 (str_lines out))"
  show "sorted_wrt (\<lambda>a b. wn_signal b \<le> wn_signal a) (parse_scan_results out)"
    unfolding parse_scan_results_def by (rule sorted_wrt_sort_key_desc)
  show "mset (parse_scan_results out) = mset ?ns"
    by (simp add: parse_scan_results_def)
  have "filter (\<lambda>n. - wn_signal n = - k) (sort_key (\<lambda>n. - wn_signal n) ?ns) =
      filter (\<lambda>n. - wn_signal n = - k) ?ns"
    by (rule sort_key_stable)
  then show "filter (\<lambda>n. wn_signal n = k) (parse_scan_results out) = filter (\<lambda>n. wn_signal n = k) ?ns"
    by (simp add: parse_scan_results_def)
  show "filter (\<lambda>n. wn_ssid n = []) (parse_scan_results out) = []"
    by (auto simp: parse_scan_results_def filter_empty_conv map_filter_def dest: parse_scan_line_named)
qed

text \<open>The saved networks as \<open>wpa_cli list_networks\<close> prints them, under any header.\<close>

definition network_line :: "saved_network \<Rightarrow> string" where
  "network_line n =
     show_nat (sn_id n) @ [CHR 0x09] @ sn_ssid n @ [CHR 0x09] @ sn_bssid n @ [CHR 0x09] @ sn_flags n"

definition print_network_list :: "string \<Rightarrow> saved_network list \<Rightarrow> string" where
  "print_network_list header ns = concat (map (\<lambda>l. l @ [CHR 0x0A]) (header # map network_line ns))"

definition field_ok :: "string \<Rightarrow> bool" where
  "field_ok f \<longleftrightarrow> CHR 0x09 \<notin> set f \<and> text_line f"

definition saved_ok :: "saved_network \<Rightarrow> bool" where
  "saved_ok n \<longleftrightarrow> sn_id n < 2 ^ 32 \<and> field_ok (sn_ssid n) \<and> field_ok (sn_bssid n) \<and> field_ok (sn_flags n)"

lemma digits_plain: "c \<in> set (show_nat n) \<Longrightarrow> c \<noteq> CHR 0x09 \<and> c \<noteq> CHR 0x0A"
  using show_nat_digits [of n] by (auto simp: list_all_iff is_digit_def)

lemma network_line_text: "saved_ok n \<Longrightarrow> text_line (network_line n)"
  by (auto simp: saved_ok_def field_ok_def text_line_def network_line_def dest: digits_plain)

lemma parse_network_line_print:
  assumes "saved_ok n"
  shows "parse_network_line (network_line n) = Some n"
proof -
  have "CHR 0x09 \<notin> set (show_nat (sn_id n))"
    using digits_plain by blast
  then have "split_on CHR 0x09 (network_line n) =
      [show_nat (sn_id n), sn_ssid n, sn_bssid n, sn_flags n]"
    using assms by (simp add: network_line_def saved_ok_def field_ok_def split_on_Cons_sep split_on_no_sep)
  with assms show ?thesis
    by (simp add: parse_network_line_def parse_show_nat saved_ok_def)
qed

text \<open>
  Reading the saved networks back from the tabular text that lists them gives the
  same networks in the same order, whatever their names, as long as no field contains a tab or
  a line break.
\<close>

lemma network_list_roundtrip:
  assumes "list_all saved_ok ns" "text_line header"
  shows "parse_network_list (print_network_list header ns) = ns"
proof -
  have "str_lines (print_network_list header ns) = header # map network_line ns"
    unfolding print_network_list_def
    using assms by (intro str_lines_of_lines) (auto simp: list_all_iff network_line_text)
  moreover have "List.map_filter parse_network_line (map network_line ns) = ns"
    using assms(1) by (induction ns) (simp_all add: map_filter_simps parse_network_line_print)
  ultimately show ?thesis by (simp add: parse_network_list_def)
qed

text \<open>
  Connecting to a saved network never looks at what \<open>wpa_cli\<close> answers: if the
  program can be started at all, the five commands are run in order and success is reported,
  also when the password was refused or every command failed.
\<close>

lemma connect_ignores_answers:
  assumes "\<forall>l prog args. answer l prog args \<noteq> None"
    and "find (\<lambda>n. sn_ssid n = ssid) (fst (list_networks (logging_runner answer) wm log)) = Some n"
  shows "wifi_connect (logging_runner answer) wm ssid password log =
    (Inr (), log @ map (\<lambda>args. (wm_cli_path wm, [''-i'', wm_iface wm, ''-p'', ''/var/run/wpa_supplicant''] @ args))
       [[''list_networks''],
        [''set_network'', show_nat (sn_id n), ''psk'', quoted password],
        [''enable_network'', show_nat (sn_id n)],
        [''select_network'', show_nat (sn_id n)],
        [''save_config'']])"
proof -
  have ok: "wpa_or e (logging_runner answer) wm args l =
      (Inr (the (answer l (wm_cli_path wm) ([''-i'', wm_iface wm, ''-p'', ''/var/run/wpa_supplicant''] @ args))),
       l @ [(wm_cli_path wm, [''-i'', wm_iface wm, ''-p'', ''/var/run/wpa_supplicant''] @ args)])" for e args l
    using assms(1) by (auto simp: wpa_or_def wpa_cli_def logging_runner_def split: option.splits)
  have "snd (list_networks (logging_runner answer) wm log) =
      log @ [(wm_cli_path wm, [''-i'', wm_iface wm, ''-p'', ''/var/run/wpa_supplicant''] @ [''list_networks''])]"
    by (simp add: list_networks_def wpa_cli_def logging_runner_def split: option.splits)
  then obtain ns where ns: "list_networks (logging_runner answer) wm log =
      (ns, log @ [(wm_cli_path wm, [''-i'', wm_iface wm, ''-p'', ''/var/run/wpa_supplicant''] @ [''list_networks''])])"
    by (metis surjective_pairing)
  with assms(2) have "find (\<lambda>n. sn_ssid n = ssid) ns = Some n" by simp
  with ns show ?thesis
    by (simp add: wifi_connect_def prepare_network_def ok wpa_cli_def [of _ _ "[''save_config'']"]
        logging_runner_def)
qed

lemma network_list_roundtrip_witness:
  "parse_network_list (print_network_list ''network id / ssid / bssid / flags''
     [\<lparr>sn_id = 0, sn_ssid = ''MyWiFi'', sn_bssid = ''any'', sn_flags = ''[DISABLED]''\<rparr>]) =
   [\<lparr>sn_id = 0, sn_ssid = ''MyWiFi'', sn_bssid = ''any'', sn_flags = ''[DISABLED]''\<rparr>]"
  by (rule network_list_roundtrip) (simp_all add: saved_ok_def field_ok_def text_line_def)

lemma lossy_ascii:
  assumes "list_all (\<lambda>c. of_char c < (128 :: nat)) s"
  shows "from_utf8_lossy (bytes_of s) = s"
proof -
  have "utf8_valid (bytes_of s)"
    using assms
  proof (induction s)
    case (Cons c s)
    have "(of_nat (of_char c) :: u8) < 0x80"
      using Cons.prems by (simp add: word_less_nat_alt unat_of_nat take_bit_nat_eq_self)
    with Cons show ?case by (simp add: bytes_of_def utf8_chunk_def)
  qed (simp add: bytes_of_def)
  then show ?thesis by (simp only: from_utf8_lossy_valid string_of_bytes_of)
qed

lemma connect_ignores_answers_witness:
  "\<exists>log. wifi_connect (logging_runner (\<lambda>l prog args. Some \<lparr>co_success = False,
       co_stdout = bytes_of (print_network_list ''h'' [\<lparr>sn_id = 7, sn_ssid = ''Home'', sn_bssid = ''any'', sn_flags = []\<rparr>]),
       co_stderr = ''FAIL''\<rparr>)) wifi_manager_new ''Home'' ''wrong'' [] = (Inr (), log)"
proof -
  let ?n = "\<lparr>sn_id = 7, sn_ssid = ''Home'', sn_bssid = ''any'', sn_flags = []\<rparr>"
  let ?out = "print_network_list ''h'' [?n]"
  let ?answer = "\<lambda>l :: cmd_log. \<lambda>prog :: string. \<lambda>args :: string list. Some \<lparr>co_success = False,
       co_stdout = bytes_of ?out, co_stderr = ''FAIL''\<rparr>"
  have ok: "saved_ok ?n"
    by (simp add: saved_ok_def field_ok_def text_line_def)
  then have lines: "str_lines ?out = [''h'', network_line ?n]"
    unfolding print_network_list_def
    by (subst str_lines_of_lines) (simp_all add: network_line_text, simp add: text_line_def)
  have "list_all (\<lambda>c. of_char c < (128 :: nat)) ?out"
    by (simp add: print_network_list_def network_line_def show_nat.simps digit_def of_char_of)
  then have "parse_network_list (from_utf8_lossy (bytes_of ?out)) = [?n]"
    by (simp add: lossy_ascii parse_network_list_def lines parse_network_line_print [OF ok] map_filter_simps)
  then have "find (\<lambda>n. sn_ssid n = ''Home'') (fst (list_networks (logging_runner ?answer) wifi_manager_new [])) = Some ?n"
    by (simp add: list_networks_def wpa_cli_def logging_runner_def)
  from connect_ignores_answers [of ?answer, OF _ this] show ?thesis by blast
qed

end
