(* ===== verification/Netmd.thy ===== *)
theory Netmd
  imports NetmdWifi Daemon
begin

section \<open>netmd: the state of the network\<close>

text \<open>
  \<open>crates/netmd/src/state.rs\<close>, \<open>main.rs\<close>, \<open>ethernet.rs\<close>, \<open>connectivity.rs\<close>: the interfaces as
  found in sysfs, what is derived from them and announced, and the main loop with the requests
  of the bus. The files under \<open>/sys\<close> and \<open>/proc\<close> are data, the order in which the map of
  interfaces is iterated is a parameter.
\<close>

datatype interface_type = Ethernet | WiFi | Bluetooth | Loopback | UnknownType

record interface_state =
  if_name :: string
  if_type :: interface_type
  if_up :: bool
  if_connected :: bool
  if_ip :: "string option"
  if_ssid :: "string option"
  if_signal :: "int option"

record network_state =
  ns_interfaces :: "(string, interface_state) hashmap"
  ns_internet :: bool

definition network_state_new :: network_state where
  "network_state_new = \<lparr>ns_interfaces = [], ns_internet = False\<rparr>"

record sysfs =
  sf_entries :: "string list option"
  sf_exists :: "string \<Rightarrow> bool"
  sf_read :: "string \<Rightarrow> string option"
  sf_link :: "string \<Rightarrow> string option"

definition detect_iftype :: "sysfs \<Rightarrow> string \<Rightarrow> interface_type" where
  "detect_iftype sf name =
     (let base = ''/sys/class/net/'' @ name
      in if name = ''lo'' then Loopback
         else if sf_exists sf (base @ ''/wireless'') \<or> sf_exists sf (base @ ''/phy80211'') then WiFi
         else (case sf_link sf (base @ ''/device'') of
                 Some link \<Rightarrow> if str_contains link ''usb'' then Ethernet else Ethernet
               | None \<Rightarrow> Ethernet))"

definition read_sysfs_flag :: "sysfs \<Rightarrow> string \<Rightarrow> string \<Rightarrow> string \<Rightarrow> bool" where
  "read_sysfs_flag sf iface file expected =
     (case sf_read sf (''/sys/class/net/'' @ iface @ ''/'' @ file) of
        Some s \<Rightarrow> trim s = expected
      | None \<Rightarrow> False)"

definition detect_ip :: "sysfs \<Rightarrow> string \<Rightarrow> string option" where
  "detect_ip sf iface =
     (if read_sysfs_flag sf iface ''operstate'' ''up''
      then (if iface = ''lo'' then Some ''127.0.0.1'' else Some ''0.0.0.0'') else None)"

definition observe :: "sysfs \<Rightarrow> string \<Rightarrow> interface_state" where
  "observe sf name =
     \<lparr>if_name = name, if_type = detect_iftype sf name,
      if_up = read_sysfs_flag sf name ''operstate'' ''up'',
      if_connected = read_sysfs_flag sf name ''carrier'' ''1'',
      if_ip = detect_ip sf name, if_ssid = None, if_signal = None\<rparr>"

definition iface_differs :: "interface_state option \<Rightarrow> interface_state \<Rightarrow> bool" where
  "iface_differs old new =
     (case old of
        None \<Rightarrow> True
      | Some o' \<Rightarrow> if_connected o' \<noteq> if_connected new \<or> if_ip o' \<noteq> if_ip new \<or> if_up o' \<noteq> if_up new)"

text \<open>The loop over the entries: the map, the names seen, whether anything changed.\<close>

fun detect_entries ::
  "sysfs \<Rightarrow> string list \<Rightarrow> (string, interface_state) hashmap \<times> string list \<times> bool \<Rightarrow>
   (string, interface_state) hashmap \<times> string list \<times> bool" where
  "detect_entries sf [] st = st"
| "detect_entries sf (name # es) (m, seen, changed) =
     (if name = ''.'' \<or> name = ''..'' then detect_entries sf es (m, seen, changed)
      else
        (let new_iface = observe sf name
         in detect_entries sf es
              (AList.update name new_iface m, List.insert name seen,
               changed \<or> iface_differs (map_of m name) new_iface)))"

definition connected :: "network_state \<Rightarrow> bool" where
  "connected st = list_ex (\<lambda>(k, i). if_connected i \<and> if_type i \<noteq> Loopback) (ns_interfaces st)"

definition active_interface :: "(string list \<Rightarrow> string list) \<Rightarrow> network_state \<Rightarrow> string option" where
  "active_interface ord st =
     map_option fst (find (\<lambda>(k, i). if_connected i \<and> if_type i \<noteq> Loopback) (iter_entries ord (ns_interfaces st)))"

definition detect_interfaces :: "sysfs \<Rightarrow> network_state \<Rightarrow> bool \<times> network_state" where
  "detect_interfaces sf st =
     (let (m, seen, changed) =
            (case sf_entries sf of
               None \<Rightarrow> (ns_interfaces st, [], False)
             | Some es \<Rightarrow> detect_entries sf es (ns_interfaces st, [], False));
          to_remove = filter (\<lambda>k. k \<notin> set seen) (keys m);
          m' = fold AList.delete to_remove m;
          changed' = (changed \<or> to_remove \<noteq> []);
          st1 = st\<lparr>ns_interfaces := m'\<rparr>;
          new_internet = connected st1
      in if ns_internet st1 \<noteq> new_internet then (True, st1\<lparr>ns_internet := new_internet\<rparr>)
         else (changed', st1))"

text \<open>
  On a development machine that is no Linux: a loopback and one Ethernet interface, once.
\<close>

definition detect_placeholder :: "network_state \<Rightarrow> bool \<times> network_state" where
  "detect_placeholder st =
     (if ns_interfaces st = []
      then (True, st\<lparr>ns_interfaces :=
              AList.update ''eth0''
                \<lparr>if_name = ''eth0'', if_type = Ethernet, if_up = True, if_connected = True,
                 if_ip = Some ''10.0.2.15'', if_ssid = None, if_signal = None\<rparr>
                (AList.update ''lo''
                  \<lparr>if_name = ''lo'', if_type = Loopback, if_up = True, if_connected = False,
                   if_ip = Some ''127.0.0.1'', if_ssid = None, if_signal = None\<rparr> (ns_interfaces st)),
            ns_internet := True\<rparr>)
      else (False, st))"

definition detect :: "bool \<Rightarrow> sysfs \<Rightarrow> network_state \<Rightarrow> bool \<times> network_state" where
  "detect linux sf st = (if linux then detect_interfaces sf st else detect_placeholder st)"

text \<open>The placeholder agrees with itself: its flag is what its interfaces give, and it changes once.\<close>

lemma detect_placeholder_stable:
  assumes "detect_placeholder network_state_new = (changed, st)"
  shows "changed" "ns_internet st = connected st" "detect_placeholder st = (False, st)"
  using assms by (auto simp: detect_placeholder_def network_state_new_def connected_def)

definition connection_type :: "(string list \<Rightarrow> string list) \<Rightarrow> network_state \<Rightarrow> string" where
  "connection_type ord st =
     (case Option.bind (active_interface ord st) (map_of (ns_interfaces st)) of
        Some iface \<Rightarrow>
          (case if_type iface of
             WiFi \<Rightarrow> ''wifi'' | Ethernet \<Rightarrow> ''ethernet'' | Bluetooth \<Rightarrow> ''bluetooth'' | _ \<Rightarrow> ''none'')
      | None \<Rightarrow> ''none'')"

definition is_metered :: "(string list \<Rightarrow> string list) \<Rightarrow> network_state \<Rightarrow> bool" where
  "is_metered ord st =
     (case Option.bind (active_interface ord st) (map_of (ns_interfaces st)) of
        Some iface \<Rightarrow> if_type iface = WiFi \<or> if_type iface = Bluetooth
      | None \<Rightarrow> True)"

text \<open>The parts no one calls: the placeholder for Ethernet and the reachability check.\<close>

definition ethernet_is_connected :: "(string \<Rightarrow> bool) \<Rightarrow> bool" where
  "ethernet_is_connected path_exists = path_exists ''/sys/class/net/eth0/carrier''"

fun check_urls :: "(string \<Rightarrow> bool option) \<Rightarrow> string list \<Rightarrow> bool" where
  "check_urls head [] = False"
| "check_urls head (url # us) =
     (case head url of
        Some True \<Rightarrow> True
      | Some False \<Rightarrow> check_urls head us
      | None \<Rightarrow> check_urls head us)"

definition check_internet :: "(string \<Rightarrow> bool option) \<Rightarrow> bool" where
  "check_internet head =
     check_urls head [''http://detect.uos-tv.local/check'', ''http://connectivity-check.ubuntu.com'']"

subsection \<open>What is announced\<close>

fun show_iftype :: "interface_type \<Rightarrow> string" where
  "show_iftype Ethernet = ''Ethernet''"
| "show_iftype WiFi = ''WiFi''"
| "show_iftype Bluetooth = ''Bluetooth''"
| "show_iftype Loopback = ''Loopback''"
| "show_iftype UnknownType = ''Unknown''"

definition iface_json :: "interface_state \<Rightarrow> json_lit" where
  "iface_json i =
     JObj [(''name'', JStr (if_name i)), (''iftype'', JStr (show_iftype (if_type i))),
           (''up'', JBool (if_up i)), (''connected'', JBool (if_connected i)),
           (''ip_address'', json_opt_str (if_ip i)), (''ssid'', json_opt_str (if_ssid i)),
           (''signal_strength'', (case if_signal i of None \<Rightarrow> JNull | Some v \<Rightarrow> JNum v))]"

definition network_status :: "(string list \<Rightarrow> string list) \<Rightarrow> network_state \<Rightarrow> status_msg" where
  "network_status ord st =
     \<lparr>st_method = ''network.status'', st_src = ''netmd'',
      st_payload = JObj
        [(''connected'', JBool (connected st)),
         (''active_interface'', json_opt_str (active_interface ord st)),
         (''connection_type'', JStr (connection_type ord st)),
         (''metered'', JBool (is_metered ord st)),
         (''internet_available'', JBool (ns_internet st)),
         (''interfaces'', JArr (map (iface_json \<circ> snd) (iter_entries ord (ns_interfaces st))))]\<rparr>"

definition scan_status :: "wifi_network list \<Rightarrow> status_msg" where
  "scan_status networks =
     \<lparr>st_method = ''network.scan_results'', st_src = ''netmd'',
      st_payload = JObj [(''networks'', JArr (map (\<lambda>n. JObj
        [(''ssid'', JStr (wn_ssid n)), (''bssid'', JStr (wn_bssid n)),
         (''frequency'', JStr (wn_frequency n)), (''signal_strength'', JNum (wn_signal n)),
         (''security'', JStr (wn_security n))]) networks))]\<rparr>"

definition wifi_status_msg :: "wifi_status option \<Rightarrow> status_msg" where
  "wifi_status_msg st =
     \<lparr>st_method = ''network.wifi_status'', st_src = ''netmd'',
      st_payload = JObj [(''wifi'', (case st of
          None \<Rightarrow> JNull
        | Some s \<Rightarrow> JObj
            [(''ssid'', json_opt_str (wst_ssid s)), (''bssid'', json_opt_str (wst_bssid s)),
             (''wpa_state'', json_opt_str (wst_wpa_state s)),
             (''ip_address'', json_opt_str (wst_ip_address s))]))]\<rparr>"

text \<open>A reply whose payload cannot be rendered goes out without one.\<close>

definition publish_or_bare ::
  "('m, 'v) bus_env \<Rightarrow> status_msg \<Rightarrow> client \<Rightarrow> client" where
  "publish_or_bare env st c =
     (let msg = (case status_message env (next_uid env c) st of
                   Inr m \<Rightarrow> m
                 | Inl _ \<Rightarrow> with_src (st_src st) (message_new (next_uid env c) (be_now env) (st_method st)))
      in snd (client_publish msg c))"

definition handle_rpc ::
  "('m, 'v) bus_env \<Rightarrow> 'w runner \<Rightarrow> wifi_manager \<Rightarrow>
   string \<Rightarrow> client \<Rightarrow> 'w \<Rightarrow> client \<times> 'w" where
  "handle_rpc env run wm hm c w =
     (if hm = ''rpc.netmd.scan'' then
        (let (networks, w1) = wifi_scan run wm w
         in (publish_or_bare env (scan_status networks) c, w1))
      else if hm = ''rpc.netmd.connect'' then (c, w)
      else if hm = ''rpc.netmd.disconnect'' then (c, snd (wifi_disconnect run wm w))
      else if hm = ''rpc.netmd.status'' then
        (let (st, w1) = wifi_status_of run wm w
         in (publish_or_bare env (wifi_status_msg st) c, w1))
      else (c, w))"

text \<open>
  The daemon with a bus: its state, its client, whether it listens to requests, and the world
  the WiFi programs run in. An event is the timer or a request.
\<close>

record 'w netmd =
  nd_state :: network_state
  nd_client :: client
  nd_listening :: bool
  nd_world :: 'w

datatype netmd_event = NetTick sysfs "string list \<Rightarrow> string list" | NetRpc message

definition netmd_step ::
  "('m, 'v) bus_env \<Rightarrow> 'w runner \<Rightarrow> netmd_event \<Rightarrow> 'w netmd \<Rightarrow> 'w netmd" where
  "netmd_step env run e d =
     (case e of
        NetTick sf ord \<Rightarrow>
          (let (changed, st) = detect_interfaces sf (nd_state d);
               d1 = d\<lparr>nd_state := st\<rparr>
           in if changed
              then d1\<lparr>nd_client := publish_status env (network_status ord st) (nd_client d1)\<rparr>
              else d1)
      | NetRpc msg \<Rightarrow>
          (if nd_listening d
           then (let (c, w) = handle_rpc env run wifi_manager_new (msg_method msg)
                                (nd_client d) (nd_world d)
                 in d\<lparr>nd_client := c, nd_world := w\<rparr>)
           else d))"

text \<open>Without a bus \<open>main\<close> returns; otherwise the first detection is announced unconditionally.\<close>

definition netmd_start ::
  "('m, 'v) bus_env \<Rightarrow> 'w runner \<Rightarrow> chan \<Rightarrow> sysfs \<Rightarrow> (string list \<Rightarrow> string list) \<Rightarrow> client option \<Rightarrow> 'w \<Rightarrow>
   'w netmd option" where
  "netmd_start env run tx sf ord conn w =
     (let registered = daemon_register env ''netmd'' conn;
          w1 = snd (wifi_available run wifi_manager_new w)
      in case registered of
           None \<Rightarrow> None
         | Some c0 \<Rightarrow>
             (let (c, listening) = daemon_subscribe env ''rpc.netmd.*'' tx c0;
                  (_, st) = detect_interfaces sf network_state_new
              in Some \<lparr>nd_state = st, nd_client = publish_status env (network_status ord st) c,
                       nd_listening = listening, nd_world = w1\<rparr>))"

subsection \<open>The snapshot of the interfaces\<close>

text \<open>What sysfs shows, as a map: the abstract result of a detection.\<close>

definition snapshot :: "sysfs \<Rightarrow> string \<Rightarrow> interface_state option" where
  "snapshot sf name =
     (if name \<in> set (filter (\<lambda>n. n \<noteq> ''.'' \<and> n \<noteq> ''..'') (case sf_entries sf of None \<Rightarrow> [] | Some es \<Rightarrow> es))
      then Some (observe sf name) else None)"

lemma iface_differs_self [simp]: "\<not> iface_differs (Some i) i"
  by (simp add: iface_differs_def)

lemma detect_entries_map:
  assumes "detect_entries sf es (m, seen, ch) = (m', seen', ch')"
  shows "map_of m' = (\<lambda>n. if n \<in> set es \<and> n \<noteq> ''.'' \<and> n \<noteq> ''..'' then Some (observe sf n) else map_of m n)"
    and "set seen' = set seen \<union> {n \<in> set es. n \<noteq> ''.'' \<and> n \<noteq> ''..''}"
    and "ch' \<longleftrightarrow> ch \<or> (\<exists>n \<in> set es. n \<noteq> ''.'' \<and> n \<noteq> ''..'' \<and> iface_differs (map_of m n) (observe sf n))"
  using assms
proof (induction es arbitrary: m seen ch)
  case (Cons e es)
  { case 1 with Cons.IH(1) show ?case
      by (cases "e = ''.'' \<or> e = ''..''") (fastforce simp: Let_def hashmap_simps fun_eq_iff)+ }
  { case 2 with Cons.IH(2) show ?case
      by (cases "e = ''.'' \<or> e = ''..''") (fastforce simp: Let_def)+ }
  { case 3
    show ?case
    proof (cases "e = ''.'' \<or> e = ''..''")
      case False
      with 3 have rec: "detect_entries sf es (AList.update e (observe sf e) m, List.insert e seen,
          ch \<or> iface_differs (map_of m e) (observe sf e)) = (m', seen', ch')"
        by (simp add: Let_def)
      show ?thesis unfolding Cons.IH(3) [OF rec] using False by (auto simp: hashmap_simps)
    qed (use 3 Cons.IH(3) in auto) }
qed auto

lemma detect_entries_ok: "hashmap_ok m \<Longrightarrow> hashmap_ok (fst (detect_entries sf es (m, seen, ch)))"
  by (induction es arbitrary: m seen ch) (simp_all add: Let_def)

lemma map_of_delete_all: "map_of (fold AList.delete ks m) j = (if j \<in> set ks then None else map_of m j)"
  by (rule hash_store.lookup_remove_all)

lemma hashmap_ok_delete_all: "hashmap_ok m \<Longrightarrow> hashmap_ok (fold AList.delete ks m)"
  by (induction ks arbitrary: m) auto

text \<open>A change of one entry of the map that netmd announces: its type alone does not count.\<close>

fun visibly_changed :: "interface_state option \<Rightarrow> interface_state option \<Rightarrow> bool" where
  "visibly_changed (Some old) (Some new) = iface_differs (Some old) new"
| "visibly_changed None None = False"
| "visibly_changed _ _ = True"

lemma visibly_changed_None [simp]:
  "visibly_changed None n = (n \<noteq> None)" "visibly_changed m None = (m \<noteq> None)"
  "visibly_changed m (Some i) = iface_differs m i"
  by (cases n; simp) (cases m; simp add: iface_differs_def)+

lemma connected_iff:
  "hashmap_ok (ns_interfaces st) \<Longrightarrow>
   connected st \<longleftrightarrow> (\<exists>n i. map_of (ns_interfaces st) n = Some i \<and> if_connected i \<and> if_type i \<noteq> Loopback)"
  by (auto simp: connected_def list_ex_iff hashmap_map_of_Some)

lemma connected_internet [simp]: "connected (st\<lparr>ns_internet := b\<rparr>) = connected st"
  by (simp add: connected_def)

text \<open>
  Property C24. One detection leaves exactly the interfaces sysfs shows now, whatever was known
  before; the internet flag is set iff one of them, other than loopback, has a carrier; and a
  change is reported iff the flag changed, an interface came or went, or one of them changed
  its carrier, its address or its operational state.
\<close>

theorem detect_refines_snapshot:
  assumes "detect_interfaces sf st = (changed, st')" "hashmap_ok (ns_interfaces st)"
  shows "map_of (ns_interfaces st') = snapshot sf \<and> hashmap_ok (ns_interfaces st') \<and>
    (ns_internet st' \<longleftrightarrow> (\<exists>n i. snapshot sf n = Some i \<and> if_connected i \<and> if_type i \<noteq> Loopback)) \<and>
    (changed \<longleftrightarrow> ns_internet st' \<noteq> ns_internet st \<or>
       (\<exists>n. visibly_changed (map_of (ns_interfaces st) n) (snapshot sf n)))"
proof -
  define es where "es = (case sf_entries sf of None \<Rightarrow> [] | Some es \<Rightarrow> es)"
  obtain m seen ch where loop: "detect_entries sf es (ns_interfaces st, [], False) = (m, seen, ch)"
    by (metis prod_cases3)
  define rem where "rem = filter (\<lambda>k. k \<notin> set seen) (keys m)"
  define st1 where "st1 = st\<lparr>ns_interfaces := fold AList.delete rem m\<rparr>"
  have "(case sf_entries sf of None \<Rightarrow> (ns_interfaces st, [], False)
      | Some es \<Rightarrow> detect_entries sf es (ns_interfaces st, [], False)) = (m, seen, ch)"
    using loop by (simp add: es_def split: option.splits)
  then have "detect_interfaces sf st =
      (if ns_internet st1 \<noteq> connected st1 then (True, st1\<lparr>ns_internet := connected st1\<rparr>)
       else (ch \<or> rem \<noteq> [], st1))"
    by (simp add: detect_interfaces_def rem_def st1_def Let_def)
  note det = trans [OF this [symmetric] assms(1)]
  note facts = detect_entries_map [OF loop]
  have snap: "snapshot sf = (\<lambda>n. if n \<in> set seen then Some (observe sf n) else None)"
    using facts(2) by (auto simp: snapshot_def es_def fun_eq_iff)
  have map1: "map_of (ns_interfaces st1) = snapshot sf"
    using facts(1,2) by (auto simp: st1_def map_of_delete_all rem_def set_keys snap fun_eq_iff split: if_splits)
  have ok1: "hashmap_ok (ns_interfaces st1)"
    using detect_entries_ok [OF assms(2), of sf es "[]" False] loop
    by (simp add: st1_def hashmap_ok_delete_all)
  have st': "map_of (ns_interfaces st') = snapshot sf" "hashmap_ok (ns_interfaces st')"
    "ns_internet st' = connected st1"
    using det map1 ok1 by (auto split: if_splits)
  have m: "map_of m n = (if n \<in> set seen then Some (observe sf n) else map_of (ns_interfaces st) n)" for n
    by (simp add: facts(1,2))
  have "rem \<noteq> [] \<longleftrightarrow> (\<exists>n. map_of (ns_interfaces st) n \<noteq> None \<and> n \<notin> set seen)"
    unfolding rem_def filter_empty_conv set_keys by (auto simp: dom_def m)
  moreover have "ch \<longleftrightarrow> (\<exists>n \<in> set seen. iface_differs (map_of (ns_interfaces st) n) (observe sf n))"
    using facts(2,3) by auto
  moreover have "visibly_changed (map_of (ns_interfaces st) n) (snapshot sf n) \<longleftrightarrow>
      (if n \<in> set seen then iface_differs (map_of (ns_interfaces st) n) (observe sf n)
       else map_of (ns_interfaces st) n \<noteq> None)" for n
    by (simp add: snap)
  ultimately have "ch \<or> rem \<noteq> [] \<longleftrightarrow> (\<exists>n. visibly_changed (map_of (ns_interfaces st) n) (snapshot sf n))"
    by (metis (no_types, lifting))
  then have "changed \<longleftrightarrow> ns_internet st' \<noteq> ns_internet st \<or>
       (\<exists>n. visibly_changed (map_of (ns_interfaces st) n) (snapshot sf n))"
    using det st'(3) by (auto simp: st1_def split: if_splits)
  with st' connected_iff [OF ok1] map1 show ?thesis by simp
qed

text \<open>The active interface is connected; there is one iff the state is connected.\<close>

lemma active_interface_Some:
  assumes "fair_order ord" "hashmap_ok (ns_interfaces st)" "active_interface ord st = Some n"
  shows "\<exists>i. map_of (ns_interfaces st) n = Some i \<and> if_connected i \<and> if_type i \<noteq> Loopback"
proof -
  let ?es = "iter_entries ord (ns_interfaces st)"
  obtain p where p: "find (\<lambda>(k, i). if_connected i \<and> if_type i \<noteq> Loopback) ?es = Some p" "fst p = n"
    using assms(3) by (auto simp: active_interface_def)
  then have "p \<in> set ?es" "if_connected (snd p)" "if_type (snd p) \<noteq> Loopback"
    by (auto simp: find_Some_iff case_prod_beta)
  moreover have "(n, snd p) \<in> set (ns_interfaces st)"
    using calculation(1) unfolding set_iter_entries [OF assms(1,2)] p(2) [symmetric] by simp
  then have "map_of (ns_interfaces st) n = Some (snd p)"
    unfolding hashmap_map_of_Some [OF assms(2)] .
  ultimately show ?thesis by blast
qed

lemma active_interface_None:
  assumes "fair_order ord" "hashmap_ok (ns_interfaces st)"
  shows "active_interface ord st = None \<longleftrightarrow> \<not> connected st"
  using assms by (auto simp: active_interface_def find_None_iff set_iter_entries connected_def list_ex_iff)

text \<open>With a cable and WiFi both connected, the order of the hash map decides what is announced.\<close>

definition two_links :: network_state where
  "two_links =
     \<lparr>ns_interfaces = map (\<lambda>(n, t). (n, \<lparr>if_name = n, if_type = t, if_up = True, if_connected = True,
        if_ip = Some ''0.0.0.0'', if_ssid = None, if_signal = None\<rparr>)) [(''eth0'', Ethernet), (''wlan0'', WiFi)],
      ns_internet = True\<rparr>"

lemma order_decides_metered:
  "(connection_type id two_links, is_metered id two_links) = (''ethernet'', False)"
  "(connection_type rev two_links, is_metered rev two_links) = (''wifi'', True)"
  by code_simp+

theorem detect_refines_snapshot_witness:
  "let sf = \<lparr>sf_entries = Some [''.'', ''eth0''], sf_exists = \<lambda>_. False,
            sf_read = \<lambda>p. if p = ''/sys/class/net/eth0/carrier'' then Some ''1'' else None,
            sf_link = \<lambda>_. None\<rparr>
   in \<exists>st'. detect_interfaces sf network_state_new = (True, st') \<and> ns_internet st' \<and>
        map_of (ns_interfaces st') = snapshot sf"
proof -
  let ?sf = "\<lparr>sf_entries = Some [''.'', ''eth0''], sf_exists = \<lambda>_. False,
            sf_read = \<lambda>p. if p = ''/sys/class/net/eth0/carrier'' then Some ''1'' else None,
            sf_link = \<lambda>_. None\<rparr>"
  obtain st' where det: "detect_interfaces ?sf network_state_new = (True, st')" and "ns_internet st'"
    by (simp add: detect_interfaces_def network_state_new_def observe_def detect_iftype_def
        read_sysfs_flag_def detect_ip_def connected_def keys_def Let_def iface_differs_def trim_def is_space_def)
  moreover have "hashmap_ok (ns_interfaces network_state_new)"
    by (simp add: network_state_new_def)
  ultimately show ?thesis
    using detect_refines_snapshot [OF det] unfolding Let_def by blast
qed

end
