(* ===== verification/Lunad.thy ===== *)
theory Lunad
  imports StardustMessage
begin

section \<open>lunad: the file server of the Luna UI\<close>

text \<open>
  \<open>crates/lunad/src/main.rs\<close>: request line, percent decoding, resolution below the root,
  response. The file system is a record: \<open>canonicalize\<close> (\<open>None\<close> when a component is missing),
  \<open>is_file\<close> and \<open>read\<close>. A connection yields the byte strings written to it. White space is
  the ASCII white space.
\<close>

definition DEFAULT_ROOT :: string where "DEFAULT_ROOT = ''/var/www/luna''"
definition DEFAULT_PORT :: nat where "DEFAULT_PORT = 80"

definition mime_type :: "string \<Rightarrow> string" where
  "mime_type path =
     (if ends_with path ''.html'' \<or> ends_with path ''.htm'' then ''text/html; charset=utf-8''
      else if ends_with path ''.css'' then ''text/css; charset=utf-8''
      else if ends_with path ''.js'' then ''application/javascript; charset=utf-8''
      else if ends_with path ''.json'' then ''application/json; charset=utf-8''
      else if ends_with path ''.png'' then ''image/png''
      else if ends_with path ''.jpg'' \<or> ends_with path ''.jpeg'' then ''image/jpeg''
      else if ends_with path ''.svg'' then ''image/svg+xml''
      else if ends_with path ''.ico'' then ''image/x-icon''
      else if ends_with path ''.woff2'' then ''font/woff2''
      else if ends_with path ''.woff'' then ''font/woff''
      else ''application/octet-stream'')"

subsection \<open>Percent decoding\<close>

text \<open>\<open>byte as char\<close> is the code point with that number; from 128 on it takes two bytes.\<close>

definition push_char :: "nat \<Rightarrow> string" where
  "push_char b =
     (if b < 128 then [char_of b] else [char_of (192 + b div 64), char_of (128 + b mod 64)])"

definition hex_digit :: "char \<Rightarrow> nat option" where
  "hex_digit c =
     (let n = of_char c :: nat
      in if 48 \<le> n \<and> n \<le> 57 then Some (n - 48)
         else if 97 \<le> n \<and> n \<le> 102 then Some (n - 87)
         else if 65 \<le> n \<and> n \<le> 70 then Some (n - 55)
         else None)"

text \<open>
  \<open>u8::from_str_radix(.., 16)\<close> of two bytes, after \<open>from_utf8\<close> with \<open>"00"\<close> for bytes that are
  no UTF-8: two digits, or a plus sign and one digit.
\<close>

definition hex_byte :: "char \<Rightarrow> char \<Rightarrow> nat option" where
  "hex_byte hi lo =
     (if \<not> utf8_valid (bytes_of [hi, lo]) then Some 0
      else if hi = CHR ''+'' then hex_digit lo
      else (case (hex_digit hi, hex_digit lo) of (Some h, Some l) \<Rightarrow> Some (16 * h + l) | _ \<Rightarrow> None))"

fun percent_decode :: "string \<Rightarrow> string" where
  "percent_decode [] = []"
| "percent_decode (b # r) =
     (if b = CHR ''%'' then
        (case r of
           hi # lo # r' \<Rightarrow>
             (case hex_byte hi lo of
                Some byte \<Rightarrow> push_char byte @ percent_decode r'
              | None \<Rightarrow> CHR ''%'' # percent_decode r')
         | _ \<Rightarrow> [CHR ''%''])
      else if b = CHR ''+'' then CHR '' '' # percent_decode r
      else push_char (of_char b) @ percent_decode r)"

subsection \<open>Resolution below the root\<close>

record lunad_fs =
  lf_canonicalize :: "string \<Rightarrow> string option"
  lf_is_file :: "string \<Rightarrow> bool"
  lf_read :: "string \<Rightarrow> bytes option"

text \<open>\<open>Path::starts_with\<close> compares whole components; both paths are canonical here.\<close>

definition path_components :: "string \<Rightarrow> string list" where
  "path_components p = filter (\<lambda>c. c \<noteq> []) (split_on CHR ''/'' p)"

definition path_starts_with :: "string \<Rightarrow> string \<Rightarrow> bool" where
  "path_starts_with p base \<longleftrightarrow>
     take (length (path_components base)) (path_components p) = path_components base"

definition resolve_path :: "lunad_fs \<Rightarrow> string \<Rightarrow> string \<Rightarrow> string option" where
  "resolve_path fs root request_path =
     (let decoded = percent_decode request_path;
          path = path_join root (dropWhile (\<lambda>c. c = CHR ''/'') decoded)
      in case lf_canonicalize fs path of
           None \<Rightarrow> None
         | Some canonical \<Rightarrow>
             (case lf_canonicalize fs root of
                None \<Rightarrow> None
              | Some root_canonical \<Rightarrow>
                  if path_starts_with canonical root_canonical then Some canonical else None))"

subsection \<open>A connection\<close>

fun split_spaces :: "string \<Rightarrow> string list" where
  "split_spaces [] = [[]]"
| "split_spaces (x # s) =
     (if is_space x then [] # split_spaces s
      else (case split_spaces s of [] \<Rightarrow> [[x]] | p # ps \<Rightarrow> (x # p) # ps))"

definition split_whitespace :: "string \<Rightarrow> string list" where
  "split_whitespace s = filter (\<lambda>w. w \<noteq> []) (split_spaces s)"

definition parse_request :: "string \<Rightarrow> string \<times> string" where
  "parse_request line =
     (let parts = split_whitespace line
      in if 2 \<le> length parts then (parts ! 0, parts ! 1) else (''GET'', ''/''))"

definition crlf :: string where "crlf = [CHR 0x0D, CHR 0x0A]"

definition ok_head :: "string \<Rightarrow> nat \<Rightarrow> bytes" where
  "ok_head mime len =
     bytes_of (''HTTP/1.0 200 OK'' @ crlf @ ''Content-Type: '' @ mime @ crlf @ ''Content-Length: '' @
       show_nat len @ crlf @ ''Connection: close'' @ crlf @ crlf)"

definition not_found_body :: bytes where
  "not_found_body = bytes_of ''<html><body><h1>404 Not Found</h1></body></html>''"

definition not_found_head :: bytes where
  "not_found_head =
     bytes_of (''HTTP/1.0 404 Not Found'' @ crlf @ ''Content-Type: text/html'' @ crlf @ ''Content-Length: '' @
       show_nat (length not_found_body) @ crlf @ ''Connection: close'' @ crlf @ crlf)"

definition bad_method_head :: bytes where
  "bad_method_head =
     bytes_of (''HTTP/1.0 405 Method Not Allowed'' @ crlf @ ''Content-Length: 0'' @ crlf @ crlf)"

definition server_error_head :: bytes where
  "server_error_head =
     bytes_of (''HTTP/1.0 500 Internal Server Error'' @ crlf @ ''Content-Length: 0'' @ crlf @ crlf)"

definition requested_path :: "lunad_fs \<Rightarrow> string \<Rightarrow> string \<Rightarrow> string option" where
  "requested_path fs root req_path =
     (let clean_path = hd (split_on CHR ''?'' req_path)
      in if clean_path = ''/'' \<or> clean_path = [] then resolve_path fs root ''/index.html''
         else resolve_path fs root clean_path)"

text \<open>\<open>None\<close> is a read that failed or took more than ten seconds.\<close>

definition lunad_connection :: "lunad_fs \<Rightarrow> string \<Rightarrow> bytes option \<Rightarrow> bytes list" where
  "lunad_connection fs root buf =
     (case buf of
        None \<Rightarrow> []
      | Some raw \<Rightarrow>
          (let ls = str_lines (from_utf8_lossy raw);
               first_line = (if ls = [] then ''GET / HTTP/1.0'' else hd ls);
               (hm, req_path) = parse_request first_line
           in if hm \<noteq> ''GET'' \<and> hm \<noteq> ''HEAD'' then [bad_method_head]
              else
                (case requested_path fs root req_path of
                   Some path \<Rightarrow>
                     (if lf_is_file fs path
                      then (case lf_read fs path of
                              Some content \<Rightarrow>
                                ok_head (mime_type path) (length content)
                                # (if hm = ''GET'' then [content] else [])
                            | None \<Rightarrow> [server_error_head])
                      else not_found_head # (if hm = ''GET'' then [not_found_body] else []))
                 | None \<Rightarrow> not_found_head # (if hm = ''GET'' then [not_found_body] else []))))"

fun lunad_args :: "string list \<Rightarrow> string \<times> nat \<Rightarrow> string \<times> nat" where
  "lunad_args [] rp = rp"
| "lunad_args (a # as) (root, port) =
     (if a = ''--root'' \<or> a = ''-r'' then
        (case as of [] \<Rightarrow> (root, port) | v # as' \<Rightarrow> lunad_args as' (v, port))
      else if a = ''--port'' \<or> a = ''-p'' then
        (case as of
           [] \<Rightarrow> (root, port)
         | v # as' \<Rightarrow>
             lunad_args as' (root, case parse_unsigned 16 v of None \<Rightarrow> DEFAULT_PORT | Some p \<Rightarrow> p))
      else lunad_args as (root, port))"

text \<open>The start, without the program's name in the arguments: an exit code, or root and address.\<close>

definition lunad_start :: "string list \<Rightarrow> (string \<Rightarrow> bool) \<Rightarrow> (string \<Rightarrow> bool) \<Rightarrow> nat + string \<times> string" where
  "lunad_start args path_exists create_dir_all =
     (let (root, port) = lunad_args args (DEFAULT_ROOT, DEFAULT_PORT)
      in if \<not> path_exists root \<and> \<not> create_dir_all root then Inl 1
         else Inr (root, ''0.0.0.0:'' @ show_nat port))"

text \<open>
  The whole program: the exit code when the root cannot be created or the address is taken, or
  the answers of the connections that are accepted, each from what it has sent.
\<close>

definition lunad_main ::
  "string list \<Rightarrow> (string \<Rightarrow> bool) \<Rightarrow> (string \<Rightarrow> bool) \<Rightarrow> (string \<Rightarrow> bool) \<Rightarrow> lunad_fs \<Rightarrow>
   bytes option accepted list \<Rightarrow> nat + bytes list list" where
  "lunad_main args path_exists create_dir_all binds fs accepts =
     (case lunad_start args path_exists create_dir_all of
        Inl code \<Rightarrow> Inl code
      | Inr (root, addr) \<Rightarrow>
          if \<not> binds addr then Inl 1 else Inr (map (lunad_connection fs root) (accept_loop accepts)))"

subsection \<open>What a request can get\<close>

lemma resolve_path_below:
  "resolve_path fs root req = Some p \<Longrightarrow>
   \<exists>q rc. lf_canonicalize fs q = Some p \<and> lf_canonicalize fs root = Some rc \<and> path_starts_with p rc"
  by (auto simp: resolve_path_def Let_def split: option.splits if_splits)

lemma requested_path_below:
  "requested_path fs root req = Some p \<Longrightarrow>
   \<exists>q rc. lf_canonicalize fs q = Some p \<and> lf_canonicalize fs root = Some rc \<and> path_starts_with p rc"
  by (auto simp: requested_path_def Let_def dest: resolve_path_below split: if_splits)

text \<open>The request line as the server reads it: the method and the path.\<close>

definition request_line :: "bytes \<Rightarrow> string \<times> string" where
  "request_line raw =
     (let ls = str_lines (from_utf8_lossy raw)
      in parse_request (if ls = [] then ''GET / HTTP/1.0'' else hd ls))"

definition if_get :: "string \<Rightarrow> bytes \<Rightarrow> bytes list" where
  "if_get hm body = (if hm = ''GET'' then [body] else [])"

lemma lunad_connection_line:
  assumes "request_line raw = (hm, req)"
  shows "lunad_connection fs root (Some raw) =
    (if hm \<noteq> ''GET'' \<and> hm \<noteq> ''HEAD'' then [bad_method_head]
     else (case requested_path fs root req of
             Some path \<Rightarrow>
               (if lf_is_file fs path
                then (case lf_read fs path of
                        Some content \<Rightarrow> ok_head (mime_type path) (length content) # if_get hm content
                      | None \<Rightarrow> [server_error_head])
                else not_found_head # if_get hm not_found_body)
           | None \<Rightarrow> not_found_head # if_get hm not_found_body))"
  using assms unfolding request_line_def lunad_connection_def if_get_def
  by (simp only: option.case Let_def case_prod_conv)

text \<open>
  Property C14. Without a request in time there is no answer. Whatever bytes a client sends: a
  method other than GET and HEAD is refused with 405 and nothing else; for GET and HEAD the
  answer is 500 without content, 404 with its fixed page, or one regular file whose canonical
  path lies below the canonical root, with its own length in the header. A body follows exactly
  when the method is GET, and it is then the fixed page or the whole file, unchanged. No encoding
  of the path reaches a file outside the root.
\<close>

theorem lunad_serves_only_below_root:
  "lunad_connection fs root None = [] \<and>
   (let hm = fst (request_line raw); answer = lunad_connection fs root (Some raw)
    in if hm \<notin> {''GET'', ''HEAD''} then answer = [bad_method_head]
       else answer = [server_error_head] \<or>
            answer = not_found_head # (if hm = ''GET'' then [not_found_body] else []) \<or>
            (\<exists>p q rc content. lf_canonicalize fs q = Some p \<and> lf_canonicalize fs root = Some rc \<and>
               path_starts_with p rc \<and> lf_is_file fs p \<and> lf_read fs p = Some content \<and>
               answer = ok_head (mime_type p) (length content) # (if hm = ''GET'' then [content] else [])))"
proof -
  obtain hm req where line: "request_line raw = (hm, req)" by fastforce
  note answer = lunad_connection_line [OF line, of fs root]
  show ?thesis
  proof (cases "hm \<in> {''GET'', ''HEAD''}")
    case False
    then show ?thesis by (simp add: line answer) (simp add: lunad_connection_def)
  next
    case get: True
    then have 1: "\<not> (hm \<noteq> ''GET'' \<and> hm \<noteq> ''HEAD'')" by blast
    have none: "lunad_connection fs root None = []" by (simp add: lunad_connection_def)
    show ?thesis
    proof (cases "requested_path fs root req")
      case None
      then show ?thesis unfolding answer if_not_P [OF 1] using get by (auto simp: line none if_get_def)
    next
      case (Some p)
      obtain q rc where b: "lf_canonicalize fs q = Some p" "lf_canonicalize fs root = Some rc" "path_starts_with p rc"
        using requested_path_below [OF Some] by blast
      show ?thesis
      proof (cases "lf_is_file fs p \<and> lf_read fs p \<noteq> None")
        case True
        then obtain content where c: "lf_is_file fs p" "lf_read fs p = Some content" by auto
        have "lunad_connection fs root (Some raw) =
            ok_head (mime_type p) (length content) # (if hm = ''GET'' then [content] else [])"
          unfolding answer if_not_P [OF 1] Some option.case using c by (simp add: if_get_def)
        with b c have "\<exists>p q rc content. lf_canonicalize fs q = Some p \<and> lf_canonicalize fs root = Some rc \<and>
            path_starts_with p rc \<and> lf_is_file fs p \<and> lf_read fs p = Some content \<and>
            lunad_connection fs root (Some raw) =
              ok_head (mime_type p) (length content) # (if hm = ''GET'' then [content] else [])" by blast
        then show ?thesis
          by (simp only: line fst_conv Let_def none get not_not if_False simp_thms)
      next
        case False
        then show ?thesis
          unfolding answer if_not_P [OF 1] Some option.case
          using get by (cases "lf_is_file fs p") (auto simp: line none if_get_def)
      qed
    qed
  qed
qed

text \<open>Percent encoding of a path, as a browser does it: letters and digits stay.\<close>

definition hex_char :: "nat \<Rightarrow> char" where
  "hex_char d = char_of (if d < 10 then 48 + d else 55 + d)"

definition plain_char :: "char \<Rightarrow> bool" where
  "plain_char c \<longleftrightarrow> (let n = of_char c :: nat in 48 \<le> n \<and> n \<le> 57 \<or> 65 \<le> n \<and> n \<le> 90 \<or> 97 \<le> n \<and> n \<le> 122)"

fun percent_encode :: "string \<Rightarrow> string" where
  "percent_encode [] = []"
| "percent_encode (c # s) =
     (if plain_char c then [c]
      else [CHR ''%'', hex_char (of_char c div 16), hex_char (of_char c mod 16)]) @ percent_encode s"

lemma hex_char_facts:
  assumes "d < 16"
  shows "hex_digit (hex_char d) = Some d" "hex_char d \<noteq> CHR ''+''" "of_char (hex_char d) < (128 :: nat)"
proof -
  have "(of_char (hex_char d) :: nat) = (if d < 10 then 48 + d else 55 + d)"
    using assms by (simp add: hex_char_def of_char_of)
  with assms show "hex_digit (hex_char d) = Some d" "hex_char d \<noteq> CHR ''+''"
    "of_char (hex_char d) < (128 :: nat)"
    by (auto simp: hex_digit_def Let_def split: if_splits)
qed

lemma hex_byte_hex_char:
  assumes "h < 16" "l < 16"
  shows "hex_byte (hex_char h) (hex_char l) = Some (16 * h + l)"
proof -
  have small: "(of_nat (of_char (hex_char d)) :: u8) < 0x80" if "d < 16" for d
    using hex_char_facts(3) [OF that]
    by (simp add: word_less_nat_alt unat_of_nat take_bit_nat_eq_self)
  then have "utf8_valid (bytes_of [hex_char h, hex_char l])"
    using assms by (intro utf8_valid_ascii) (simp add: bytes_of_def)
  with assms show ?thesis by (simp add: hex_byte_def hex_char_facts)
qed

text \<open>
  Decoding undoes the percent encoding of every path of ASCII characters.
\<close>

lemma percent_roundtrip:
  assumes "list_all (\<lambda>c. of_char c < (128 :: nat)) s"
  shows "percent_decode (percent_encode s) = s"
  using assms
proof (induction s)
  case (Cons c s)
  then have c: "of_char c < (128 :: nat)" and IH: "percent_decode (percent_encode s) = s" by simp_all
  show ?case
  proof (cases "plain_char c")
    case True
    then have "c \<noteq> CHR ''%''" "c \<noteq> CHR ''+''" by (auto simp: plain_char_def Let_def)
    with True IH c show ?thesis by (simp add: push_char_def)
  next
    case False
    have "hex_byte (hex_char (of_char c div 16)) (hex_char (of_char c mod 16)) = Some (of_char c)"
      using c hex_byte_hex_char [of "of_char c div 16" "of_char c mod 16"] by simp
    with False IH c show ?thesis by (simp add: push_char_def)
  qed
qed simp

text \<open>Beyond ASCII the bytes of a character come back as one character each.\<close>

lemma percent_decode_mangles:
  "bytes_of (percent_decode ''%C3%A9'') = [0xC3, 0x83, 0xC2, 0xA9]"
  by code_simp

lemma percent_roundtrip_witness:
  "percent_decode (percent_encode ''a b/%+?'') = ''a b/%+?''"
  by (rule percent_roundtrip) simp

end
