(* ===== verification/Logd.thy ===== *)
theory Logd
  imports StardustMessage
begin

section \<open>logd: collecting and writing log entries\<close>

text \<open>
  \<open>crates/logd/src/main.rs\<close>: a datagram becomes an entry (and, for an error, a line for the
  kernel's buffer); the writer appends entries to the file of the day. The disk is a map from
  paths to contents. JSON, the clock and the outcome of opening and writing are parameters.
\<close>

record 'j log_entry =
  le_timestamp :: string
  le_level :: string
  le_service :: string
  le_message :: string
  le_pid :: u32
  le_fields :: 'j

record 'j log_json =
  lj_parse :: "bytes \<Rightarrow> 'j log_entry option"
  lj_render :: "'j log_entry \<Rightarrow> string option"
  lj_null :: 'j

definition kmsg_line :: "'j log_entry \<Rightarrow> string" where
  "kmsg_line e = ''<3>[UOS] '' @ le_service e @ '': '' @ le_message e @ [CHR 0x0A]"

text \<open>One datagram: the entry for the writer and what goes to the kernel's buffer.\<close>

definition receive_datagram :: "'j log_json \<Rightarrow> string \<Rightarrow> bytes \<Rightarrow> 'j log_entry \<times> string list" where
  "receive_datagram js now data =
     (case lj_parse js data of
        Some entry \<Rightarrow> (entry, if le_level entry = ''ERROR'' then [kmsg_line entry] else [])
      | None \<Rightarrow>
          (\<lparr>le_timestamp = now, le_level = ''INFO'', le_service = ''unknown'',
            le_message = trim (from_utf8_lossy data), le_pid = 0, le_fields = lj_null js\<rparr>, []))"

text \<open>The loop: an error of the socket is skipped, a closed writer ends the loop on a parsed entry.\<close>

fun receive_loop ::
  "'j log_json \<Rightarrow> (nat \<Rightarrow> bool) \<Rightarrow> (string \<times> bytes) option list \<Rightarrow> 'j log_entry list \<times> string list \<Rightarrow>
   'j log_entry list \<times> string list" where
  "receive_loop js open_at [] out = out"
| "receive_loop js open_at (None # ds) out = receive_loop js open_at ds out"
| "receive_loop js open_at (Some (now, data) # ds) (sent, kmsg) =
     (let (entry, k) = receive_datagram js now data
      in if open_at (length sent) then receive_loop js open_at ds (sent @ [entry], kmsg @ k)
         else if lj_parse js data \<noteq> None then (sent, kmsg @ k)
         else receive_loop js open_at ds (sent, kmsg @ k))"

subsection \<open>The start of the daemon\<close>

text \<open>
  Where the socket and the logs are, what is prepared, and the exit code if the socket cannot be
  bound. Otherwise the writer is started and the receive loop entered.
\<close>

datatype logd_op = LdMakeDirs string | LdRemove string | LdBind string | LdWriter string

definition logd_socket :: "(string \<Rightarrow> string option) \<Rightarrow> string" where
  "logd_socket getenv = (case getenv ''LOGD_SOCKET'' of Some p \<Rightarrow> p | None \<Rightarrow> ''/run/uos/log.sock'')"

definition logd_dir :: "(string \<Rightarrow> string option) \<Rightarrow> string" where
  "logd_dir getenv = (case getenv ''LOGD_DIR'' of Some p \<Rightarrow> p | None \<Rightarrow> ''/data/logs'')"

definition logd_start :: "(string \<Rightarrow> string option) \<Rightarrow> (string \<Rightarrow> bool) \<Rightarrow> nat option \<times> logd_op list" where
  "logd_start getenv binds =
     (let socket = logd_socket getenv; dir = logd_dir getenv;
          ops = [LdMakeDirs dir] @
                (case path_parent socket of Some d \<Rightarrow> [LdMakeDirs d] | None \<Rightarrow> []) @
                [LdRemove socket, LdBind socket]
      in if binds socket then (None, ops @ [LdWriter dir]) else (Some 1, ops))"

subsection \<open>The writer\<close>

definition MAX_FILE_SIZE :: nat where "MAX_FILE_SIZE = 10 * 1024 * 1024"
definition MAX_ROTATED_FILES :: nat where "MAX_ROTATED_FILES = 5"

record log_writer =
  lw_file :: "string option"
  lw_date :: string
  lw_size :: nat
  lw_disk :: "string \<Rightarrow> string"

definition writer_new :: "(string \<Rightarrow> string) \<Rightarrow> log_writer" where
  "writer_new disk = \<lparr>lw_file = None, lw_date = [], lw_size = 0, lw_disk = disk\<rparr>"

definition log_path :: "string \<Rightarrow> string \<Rightarrow> string" where
  "log_path dir date = path_join dir (''uos-'' @ date @ ''.log'')"

definition open_log_file :: "string \<Rightarrow> string \<Rightarrow> bool \<Rightarrow> string option" where
  "open_log_file dir date opens = (if opens then Some (log_path dir date) else None)"

definition cleanup_old_logs :: "string \<Rightarrow> nat \<Rightarrow> (string \<Rightarrow> string) \<Rightarrow> string \<Rightarrow> string" where
  "cleanup_old_logs dir max_files disk = disk"

definition log_line :: "'j log_json \<Rightarrow> 'j log_entry \<Rightarrow> string" where
  "log_line js e = (case lj_render js e of None \<Rightarrow> [] | Some s \<Rightarrow> s) @ [CHR 0x0A]"

text \<open>
  An entry with the date of its writing, whether a file opens, and how the write ends: \<open>None\<close>
  when all is written, otherwise the number of bytes written before the error.
\<close>

record 'j log_event =
  lv_entry :: "'j log_entry"
  lv_today :: string
  lv_opens :: bool
  lv_fails :: "nat option"

definition rotate :: "string \<Rightarrow> 'j log_event \<Rightarrow> log_writer \<Rightarrow> log_writer" where
  "rotate dir e w =
     (if lw_date w \<noteq> lv_today e \<or> MAX_FILE_SIZE \<le> lw_size w
      then w\<lparr>lw_file := open_log_file dir (lv_today e) (lv_opens e), lw_date := lv_today e, lw_size := 0\<rparr>
      else w)"

definition write_entry :: "'j log_json \<Rightarrow> 'j log_event \<Rightarrow> log_writer \<Rightarrow> log_writer" where
  "write_entry js e w =
     (let line = log_line js (lv_entry e)
      in case lw_file w of
           None \<Rightarrow> w
         | Some path \<Rightarrow>
             (case lv_fails e of
                Some k \<Rightarrow>
                  w\<lparr>lw_file := None, lw_disk := (lw_disk w)(path := lw_disk w path @ take k line)\<rparr>
              | None \<Rightarrow>
                  w\<lparr>lw_size := lw_size w + length line,
                    lw_disk := (lw_disk w)(path := lw_disk w path @ line)\<rparr>))"

definition log_step :: "'j log_json \<Rightarrow> string \<Rightarrow> 'j log_event \<Rightarrow> log_writer \<Rightarrow> log_writer" where
  "log_step js dir e w =
     (let w1 = write_entry js e (rotate dir e w)
      in w1\<lparr>lw_disk := cleanup_old_logs dir MAX_ROTATED_FILES (lw_disk w1)\<rparr>)"

definition log_writer_run :: "'j log_json \<Rightarrow> string \<Rightarrow> 'j log_event list \<Rightarrow> log_writer \<Rightarrow> log_writer" where
  "log_writer_run js dir es w = fold (log_step js dir) es w"

text \<open>What a service sends: the entry as JSON, to the socket of the daemon.\<close>

definition log_datagram ::
  "('j log_entry \<Rightarrow> bytes option) \<Rightarrow> 'j \<Rightarrow> string \<Rightarrow> u32 \<Rightarrow> string \<Rightarrow> string \<Rightarrow> string \<Rightarrow> (string \<times> bytes) option" where
  "log_datagram to_vec null now pid level service message =
     map_option (\<lambda>data. (''/run/uos/log.sock'', data))
       (to_vec \<lparr>le_timestamp = now, le_level = level, le_service = service, le_message = message,
                le_pid = pid, le_fields = null\<rparr>)"

subsection \<open>What is on disk\<close>

lemma log_path_inj: "log_path dir a = log_path dir b \<longleftrightarrow> a = b"
  by (simp add: log_path_def path_join_def starts_with_def)

definition writer_ok :: "string \<Rightarrow> log_writer \<Rightarrow> bool" where
  "writer_ok dir w \<longleftrightarrow> lw_date w = [] \<or> lw_file w = Some (log_path dir (lw_date w))"

lemma log_step_good:
  assumes "writer_ok dir w" "lv_today e \<noteq> []" "lv_opens e" "lv_fails e = None"
  shows "writer_ok dir (log_step js dir e w)"
    and "lw_disk (log_step js dir e w) = (lw_disk w)(log_path dir (lv_today e) :=
      lw_disk w (log_path dir (lv_today e)) @ log_line js (lv_entry e))"
proof -
  have rot: "lw_file (rotate dir e w) = Some (log_path dir (lv_today e))" "lw_date (rotate dir e w) = lv_today e"
    "lw_disk (rotate dir e w) = lw_disk w"
    using assms by (auto simp: rotate_def open_log_file_def writer_ok_def)
  then show "writer_ok dir (log_step js dir e w)"
    "lw_disk (log_step js dir e w) = (lw_disk w)(log_path dir (lv_today e) :=
      lw_disk w (log_path dir (lv_today e)) @ log_line js (lv_entry e))"
    using assms(4) by (simp_all add: log_step_def write_entry_def cleanup_old_logs_def Let_def writer_ok_def)
qed

text \<open>
  Property C37. While files open and writes succeed no entry is lost, none is written twice and
  their order is kept: the file of a day grows by exactly the lines of that day's entries. In
  particular the rotation by size changes nothing on disk, it reopens the same file, so a
  day's file has no bound, and no file of any day is ever shortened or removed.
\<close>

theorem log_file_of_the_day:
  assumes "list_all (\<lambda>e. lv_today e \<noteq> [] \<and> lv_opens e \<and> lv_fails e = None) es"
  shows "lw_disk (log_writer_run js dir es (writer_new disk)) (log_path dir date) =
    disk (log_path dir date) @ concat (map (log_line js \<circ> lv_entry) (filter (\<lambda>e. lv_today e = date) es))"
proof -
  have "lw_disk (fold (log_step js dir) es w) (log_path dir date) =
      lw_disk w (log_path dir date) @ concat (map (log_line js \<circ> lv_entry) (filter (\<lambda>e. lv_today e = date) es))"
    if "writer_ok dir w" for w
    using that assms
  proof (induction es arbitrary: w)
    case (Cons e es)
    then have e: "lv_today e \<noteq> []" "lv_opens e" "lv_fails e = None" by simp_all
    note step = log_step_good [OF Cons.prems(1) e]
    from Cons.IH [OF step(1)] Cons.prems(2) step(2) show ?case
      by (auto simp: log_path_inj)
  qed simp
  then show ?thesis by (simp add: log_writer_run_def writer_new_def writer_ok_def)
qed

text \<open>After a failed write the rest of the day is dropped, though opening and writing would succeed.\<close>

lemma write_error_drops_the_day:
  assumes "lw_file w = None" "lw_date w = d" "lw_size w < MAX_FILE_SIZE" "list_all (\<lambda>e. lv_today e = d) es"
  shows "log_writer_run js dir es w = w"
proof -
  have "log_step js dir e w = w" if "lv_today e = d" for e
    using assms(1-3) that
    by (simp add: log_step_def rotate_def write_entry_def cleanup_old_logs_def Let_def)
  with assms(4) show ?thesis
    unfolding log_writer_run_def by (induction es) simp_all
qed

text \<open>An entry with a line break in its message reaches the kernel's buffer as two lines.\<close>

lemma kmsg_lines:
  "length (str_lines (kmsg_line \<lparr>le_timestamp = [], le_level = ''ERROR'', le_service = ''a'',
     le_message = ''b'' @ [CHR 0x0A] @ ''<0>c'', le_pid = 0, le_fields = ()\<rparr>)) = 2"
  by code_simp

text \<open>
  From the socket to the disk: while the writer lives, every datagram that arrives becomes
  exactly one line, in the order of arrival, also one that is no JSON.
\<close>

definition received :: "(string \<times> bytes) option list \<Rightarrow> (string \<times> bytes) list" where
  "received ds = List.map_filter (\<lambda>d. d) ds"

lemma receive_loop_all:
  "fst (receive_loop js (\<lambda>_. True) ds (sent, kmsg)) =
     sent @ map (\<lambda>(now, data). fst (receive_datagram js now data)) (received ds)"
  by (induction js "\<lambda>_ :: nat. True" ds "(sent, kmsg)" arbitrary: sent kmsg rule: receive_loop.induct)
    (auto simp: received_def List.map_filter_simps Let_def split: prod.split)

lemma fold_one_day:
  "writer_ok dir w \<Longrightarrow> day \<noteq> [] \<Longrightarrow>
   list_all (\<lambda>e. lv_today e = day \<and> lv_opens e \<and> lv_fails e = None) es \<Longrightarrow>
   lw_disk (fold (log_step js dir) es w) (log_path dir day) =
     lw_disk w (log_path dir day) @ concat (map (log_line js \<circ> lv_entry) es)"
proof (induction es arbitrary: w)
  case (Cons e es)
  then have e: "lv_today e \<noteq> []" "lv_opens e" "lv_fails e = None" by simp_all
  note step = log_step_good [OF Cons.prems(1) e]
  from Cons.IH [OF step(1) Cons.prems(2)] Cons.prems(3) step(2) show ?case by auto
qed simp

lemma datagrams_become_lines:
  assumes "map lv_entry es = fst (receive_loop js (\<lambda>_. True) ds ([], []))" "day \<noteq> []"
    and "list_all (\<lambda>e. lv_today e = day \<and> lv_opens e \<and> lv_fails e = None) es"
  shows "lw_disk (log_writer_run js dir es (writer_new disk)) (log_path dir day) =
    disk (log_path dir day) @
      concat (map (\<lambda>(now, data). log_line js (fst (receive_datagram js now data))) (received ds))"
proof -
  have "concat (map (log_line js \<circ> lv_entry) es) = concat (map (log_line js) (map lv_entry es))" by simp
  also have "\<dots> = concat (map (\<lambda>(now, data). log_line js (fst (receive_datagram js now data))) (received ds))"
    by (simp add: assms(1) receive_loop_all comp_def case_prod_unfold)
  finally show ?thesis
    using fold_one_day [of dir "writer_new disk" day es js] assms(2,3)
    by (simp add: log_writer_run_def writer_new_def writer_ok_def)
qed

definition plain_log_json :: "unit log_json" where
  "plain_log_json = \<lparr>lj_parse = \<lambda>_. None, lj_render = \<lambda>e. Some (le_message e), lj_null = ()\<rparr>"

theorem log_file_of_the_day_witness:
  "let e = \<lparr>lv_entry = fst (receive_datagram plain_log_json ''t'' []), lv_today = ''2025-06-03'',
            lv_opens = True, lv_fails = None\<rparr>
   in lw_disk (log_writer_run plain_log_json ''/data/logs'' [e, e] (writer_new (\<lambda>_. [])))
        (log_path ''/data/logs'' ''2025-06-03'') = [CHR 0x0A, CHR 0x0A]"
proof -
  let ?e = "\<lparr>lv_entry = fst (receive_datagram plain_log_json ''t'' []), lv_today = ''2025-06-03'',
            lv_opens = True, lv_fails = None\<rparr>"
  have "log_line plain_log_json (lv_entry ?e) = [CHR 0x0A]"
    by (simp add: log_line_def plain_log_json_def receive_datagram_def trim_def)
  with log_file_of_the_day [of "[?e, ?e]" plain_log_json "''/data/logs''" "\<lambda>_. []" "''2025-06-03''"]
  show ?thesis by (simp add: Let_def)
qed

end
