(* ===== verification/Notifd.thy ===== *)
theory Notifd
  imports Daemon
begin

section \<open>notifd: the store of notifications\<close>

text \<open>
  \<open>crates/notifd/src/main.rs\<close>: the store, what of it is visible, and the three command topics
  with their tasks. The order of the hash map's values is a parameter.
\<close>

record notification =
  nt_id :: string
  nt_app :: string
  nt_title :: string
  nt_body :: string
  nt_priority :: string
  nt_icon :: "string option"
  nt_timeout_ms :: u64
  nt_actions :: "(string \<times> string) list"
  nt_timestamp :: u64

record notification_store =
  nst_notifications :: "(string, notification) hashmap"
  nst_max_visible :: nat

definition store_new :: notification_store where
  "store_new = \<lparr>nst_notifications = [], nst_max_visible = 3\<rparr>"

definition store_add :: "notification \<Rightarrow> notification_store \<Rightarrow> notification_store" where
  "store_add n s = s\<lparr>nst_notifications := AList.update (nt_id n) n (nst_notifications s)\<rparr>"

definition store_dismiss :: "string \<Rightarrow> notification_store \<Rightarrow> notification_store" where
  "store_dismiss i s = s\<lparr>nst_notifications := AList.delete i (nst_notifications s)\<rparr>"

definition store_dismiss_all :: "notification_store \<Rightarrow> notification_store" where
  "store_dismiss_all s = s\<lparr>nst_notifications := []\<rparr>"

definition store_visible :: "(string list \<Rightarrow> string list) \<Rightarrow> notification_store \<Rightarrow> notification list" where
  "store_visible ord s =
     (let all = map snd (iter_entries ord (nst_notifications s));
          sorted = sort_key nt_timestamp all
      in take (nst_max_visible s) (rev sorted))"

definition notification_json :: "notification \<Rightarrow> json_lit" where
  "notification_json n =
     JObj [(''id'', JStr (nt_id n)), (''app'', JStr (nt_app n)), (''title'', JStr (nt_title n)),
           (''body'', JStr (nt_body n)), (''priority'', JStr (nt_priority n)),
           (''icon'', json_opt_str (nt_icon n)), (''timeout_ms'', JNum (uint (nt_timeout_ms n))),
           (''actions'', JArr (map (\<lambda>(i, l). JObj [(''id'', JStr i), (''label'', JStr l)]) (nt_actions n))),
           (''timestamp'', JNum (uint (nt_timestamp n)))]"

definition notifications_status :: "(string list \<Rightarrow> string list) \<Rightarrow> notification_store \<Rightarrow> status_msg" where
  "notifications_status ord s =
     \<lparr>st_method = ''notification.list'', st_src = ''notifd'',
      st_payload = JObj
        [(''notifications'', JArr (map notification_json (store_visible ord s))),
         (''count'', JNum (int (length (nst_notifications s))))]\<rparr>"

subsection \<open>Commands\<close>

definition str_or :: "'j json_api \<Rightarrow> 'j \<Rightarrow> string \<Rightarrow> string \<Rightarrow> string" where
  "str_or js v key d = (case j_str js (j_index js v key) of None \<Rightarrow> d | Some s \<Rightarrow> s)"

definition notification_of :: "'j json_api \<Rightarrow> string \<Rightarrow> u64 \<Rightarrow> 'j \<Rightarrow> notification" where
  "notification_of js new_id now_ms params =
     \<lparr>nt_id = new_id, nt_app = str_or js params ''app'' ''system'',
      nt_title = str_or js params ''title'' [], nt_body = str_or js params ''body'' [],
      nt_priority = str_or js params ''priority'' ''normal'',
      nt_icon = j_str js (j_index js params ''icon''),
      nt_timeout_ms = (case j_u64 js (j_index js params ''timeout_ms'') of None \<Rightarrow> 5000 | Some t \<Rightarrow> t),
      nt_actions = [], nt_timestamp = now_ms\<rparr>"

datatype notif_event =
    ShowNotification message string u64
  | DismissNotification message
  | DismissAllNotifications

text \<open>What an event makes of the store, and whether the list is announced.\<close>

definition notif_command :: "'j json_api \<Rightarrow> notif_event \<Rightarrow> notification_store \<Rightarrow> notification_store \<times> bool" where
  "notif_command js e s =
     (case e of
        ShowNotification msg new_id now_ms \<Rightarrow>
          (case j_parse js (msg_params msg) of
             None \<Rightarrow> (s, False)
           | Some params \<Rightarrow> (store_add (notification_of js new_id now_ms params) s, True))
      | DismissNotification msg \<Rightarrow>
          (case j_parse js (msg_params msg) of
             None \<Rightarrow> (s, False)
           | Some params \<Rightarrow>
               (case j_str js (j_index js params ''id'') of
                  None \<Rightarrow> (s, False)
                | Some i \<Rightarrow> (store_dismiss i s, True)))
      | DismissAllNotifications \<Rightarrow> (store_dismiss_all s, True))"

record notifd =
  no_store :: notification_store
  no_client :: "client option"

definition notifd_step ::
  "('m, 'v) bus_env \<Rightarrow> 'j json_api \<Rightarrow> (string list \<Rightarrow> string list) \<Rightarrow> notif_event \<Rightarrow> notifd \<Rightarrow> notifd" where
  "notifd_step env js ord e d =
     (case no_client d of
        None \<Rightarrow> d
      | Some c \<Rightarrow>
          (let (s, announce) = notif_command js e (no_store d)
           in d\<lparr>no_store := s,
                no_client := Some (if announce then publish_status env (notifications_status ord s) c else c)\<rparr>))"

text \<open>
  One subscription with its task: the task owns a clone of the client, which is dropped at once
  when the subscription failed. The clone the block itself holds is dropped at its end.
\<close>

definition subscribe_task :: "('m, 'v) bus_env \<Rightarrow> string \<times> chan \<Rightarrow> client \<Rightarrow> client" where
  "subscribe_task env t c =
     (case daemon_subscribe env (fst t) (snd t) c of
        (c', True) \<Rightarrow> c'
      | (c', False) \<Rightarrow> drop_clone env c')"

definition notifd_start :: "('m, 'v) bus_env \<Rightarrow> chan \<Rightarrow> client option \<Rightarrow> notifd" where
  "notifd_start env tx conn =
     \<lparr>no_store = store_new,
      no_client = map_option
        (drop_clone env \<circ> fold (subscribe_task env)
           [(''notification.command.show'', tx), (''notification.command.dismiss'', tx + 1),
            (''notification.command.dismiss_all'', tx + 2)])
        (daemon_register env ''notifd'' conn)\<rparr>"

subsection \<open>What is visible\<close>

definition notif_store_ok :: "notification_store \<Rightarrow> bool" where
  "notif_store_ok s \<longleftrightarrow> hashmap_ok (nst_notifications s) \<and> nst_max_visible s = 3 \<and>
     list_all (\<lambda>(i, n). nt_id n = i) (nst_notifications s)"

lemma list_all_update:
  "list_all P m \<Longrightarrow> P (k, v) \<Longrightarrow> list_all P (AList.update k v m)"
  by (induction m) auto

lemma list_all_delete: "list_all P m \<Longrightarrow> list_all P (AList.delete k m)"
  by (auto simp: list_all_iff AList.delete_eq)

lemma notif_store_ok_command: "notif_store_ok s \<Longrightarrow> notif_store_ok (fst (notif_command js e s))"
  by (auto simp: notif_command_def notif_store_ok_def store_add_def store_dismiss_def store_dismiss_all_def
      intro: list_all_update list_all_delete split: notif_event.splits option.splits)

lemma notifd_step_store: "notif_store_ok (no_store d) \<Longrightarrow> notif_store_ok (no_store (notifd_step env js ord e d))"
  by (simp add: notifd_step_def case_prod_beta notif_store_ok_command split: option.splits)

interpretation notif: machine "notifd_step env js ord" "\<lambda>d. notif_store_ok (no_store d)"
  for env js ord
  by unfold_locales (rule notifd_step_store)

lemma notif_store_ok_start: "notif_store_ok (no_store (notifd_start env tx conn))"
  by (simp add: notifd_start_def store_new_def notif_store_ok_def)

lemma sorted_rev_take_drop:
  assumes "sorted (map f xs)" "x \<in> set (take k (rev xs))" "y \<in> set (drop k (rev xs))"
  shows "f y \<le> f x"
proof -
  have "sorted_wrt (\<lambda>a b. f b \<le> f a) (rev xs)"
    using assms(1) by (simp add: sorted_wrt_rev sorted_map)
  then have "sorted_wrt (\<lambda>a b. f b \<le> f a) (take k (rev xs) @ drop k (rev xs))" by simp
  with assms(2,3) show ?thesis unfolding sorted_wrt_append by blast
qed

text \<open>
  Property C36. After any sequence of commands at most three notifications are visible, all of
  them if the store has three or fewer; they are stored ones, newest first, none twice; and no
  hidden notification is newer than a visible one, whatever the order of the hash map.
\<close>

theorem visible_are_newest:
  assumes "fold (notifd_step env js ord) es (notifd_start env tx conn) = d" "fair_order ord"
    and "store_visible ord (no_store d) = vs"
  shows "length vs = min 3 (length (nst_notifications (no_store d))) \<and> distinct (map nt_id vs) \<and>
    set vs \<subseteq> snd ` set (nst_notifications (no_store d)) \<and>
    sorted_wrt (\<lambda>a b. nt_timestamp b \<le> nt_timestamp a) vs \<and>
    (\<forall>h \<in> snd ` set (nst_notifications (no_store d)) - set vs. \<forall>v \<in> set vs. nt_timestamp h \<le> nt_timestamp v)"
proof -
  let ?m = "nst_notifications (no_store d)"
  have "notif_store_ok (no_store d)"
    unfolding assms(1) [symmetric] by (rule notif.run_invariant [OF notif_store_ok_start])
  then have ok: "hashmap_ok ?m" "nst_max_visible (no_store d) = 3" "\<forall>p \<in> set ?m. nt_id (snd p) = fst p"
    by (auto simp: notif_store_ok_def list_all_iff)
  define all where "all = sort_key nt_timestamp (map snd (iter_entries ord ?m))"
  have vs: "vs = take 3 (rev all)"
    using assms(3) ok(2) by (simp add: store_visible_def all_def Let_def)
  have ms: "mset all = image_mset snd (mset ?m)"
    using mset_iter_entries [OF assms(2) ok(1)] by (simp add: all_def)
  have "image_mset nt_id (mset all) = mset (map (nt_id \<circ> snd) ?m)"
    by (simp add: ms image_mset.compositionality)
  also have "map (nt_id \<circ> snd) ?m = keys ?m"
    using ok(3) by (simp add: keys_def)
  finally have "mset (map nt_id all) = mset (keys ?m)" by simp
  then have "distinct (map nt_id all)"
    using ok(1) unfolding hashmap_ok_def by (metis mset_eq_imp_distinct_iff)
  then have d: "distinct (map nt_id vs)"
    unfolding vs by (simp add: take_map [symmetric] rev_map [symmetric])
  have set_all: "set all = snd ` set ?m"
    using ms by (metis set_image_mset set_mset_mset)
  have sorted: "sorted (map nt_timestamp all)" by (simp add: all_def)
  then have "sorted_wrt (\<lambda>a b. nt_timestamp b \<le> nt_timestamp a) (rev all)"
    by (simp add: sorted_wrt_rev sorted_map)
  then have desc: "sorted_wrt (\<lambda>a b. nt_timestamp b \<le> nt_timestamp a) vs"
    unfolding vs by (rule sorted_wrt_take)
  have "length all = length ?m" using ms by (metis size_image_mset size_mset)
  then have len: "length vs = min 3 (length ?m)" by (simp add: vs)
  have sub: "set vs \<subseteq> snd ` set ?m"
    unfolding vs set_all [symmetric] using set_take_subset [of 3 "rev all"] by simp
  have hidden: "\<forall>h \<in> snd ` set ?m - set vs. \<forall>v \<in> set vs. nt_timestamp h \<le> nt_timestamp v"
  proof (intro ballI)
    fix h v assume h: "h \<in> snd ` set ?m - set vs" and v: "v \<in> set vs"
    have "set (rev all) = set (take 3 (rev all)) \<union> set (drop 3 (rev all))"
      by (metis append_take_drop_id set_append)
    with h have "h \<in> set (drop 3 (rev all))" by (auto simp: set_all vs)
    with v show "nt_timestamp h \<le> nt_timestamp v"
      using sorted_rev_take_drop [OF sorted] by (simp add: vs)
  qed
  from len d sub desc hidden show ?thesis by blast
qed

text \<open>Priority and time-out play no part: the oldest of four is hidden, however critical.\<close>

lemma critical_can_be_hidden:
  "let n = (\<lambda>i p t. \<lparr>nt_id = i, nt_app = [], nt_title = [], nt_body = [], nt_priority = p, nt_icon = None,
              nt_timeout_ms = 1, nt_actions = [], nt_timestamp = t\<rparr>);
       s = fold store_add [n ''a'' ''critical'' 1, n ''b'' ''low'' 2, n ''c'' ''low'' 3, n ''d'' ''low'' 4] store_new
   in map nt_id (store_visible id s) = [''d'', ''c'', ''b'']"
  by code_simp

text \<open>A JSON library in which every text is the null value.\<close>

definition null_json :: "unit json_api" where
  "null_json =
     \<lparr>j_get = \<lambda>_ _. None, j_index = \<lambda>_ _. (), j_array = \<lambda>_. None, j_str = \<lambda>_. None, j_u64 = \<lambda>_. None,
      j_bool = \<lambda>_. None, j_parse = \<lambda>_. Some ()\<rparr>"

definition null_env :: "(unit, unit) bus_env" where
  "null_env =
     \<lparr>be_to_json = \<lambda>_. Some [],
      be_api = \<lparr>jo_parse = \<lambda>_. None, jo_empty = (), jo_insert = \<lambda>_ _ _. (), jo_render = \<lambda>_. None\<rparr>,
      be_value = \<lambda>_. None, be_uid = of_nat, be_now = 0, be_ord = id\<rparr>"

theorem visible_are_newest_witness:
  "\<exists>d. fold (notifd_step null_env null_json rev) [ShowNotification (message_new 1 0 ''m'') ''n1'' 7]
        (notifd_start null_env 0 (Some client_connected)) = d \<and>
     length (store_visible rev (no_store d)) = min 3 (length (nst_notifications (no_store d)))"
  using visible_are_newest [OF refl fair_order_rev refl] by blast

end
