(* ===== verification/PowerDisplay.thy ===== *)
theory PowerDisplay
  imports Daemon
begin

section \<open>powermand and dispald\<close>

text \<open>
  \<open>crates/powermand/src/main.rs\<close> and \<open>crates/dispald/src/main.rs\<close>: the idle state machine with its
  commands, and the backlight. Seconds are 64-bit, brightness 32-bit; products wrap as in a
  release build. Effects on the machine are data.
\<close>

subsection \<open>powermand\<close>

datatype power_state = Active | Dimmed | Suspended

datatype power_effect = RebootRestart | RebootPowerOff | WriteSysPower string

definition power_command :: "string \<Rightarrow> power_effect list" where
  "power_command hm =
     (if hm = ''power.command.reboot'' then [RebootRestart]
      else if hm = ''power.command.shutdown'' then [RebootPowerOff]
      else if hm = ''power.command.suspend'' then [WriteSysPower ''mem'']
      else [])"

definition idle_timeout :: "string option \<Rightarrow> u64" where
  "idle_timeout env_value =
     (case parse_unsigned 64 (case env_value of None \<Rightarrow> ''300'' | Some s \<Rightarrow> s) of
        None \<Rightarrow> 300 | Some n \<Rightarrow> of_nat n)"

definition power_state_at :: "u64 \<Rightarrow> u64 \<Rightarrow> power_state" where
  "power_state_at timeout idle =
     (if idle > timeout * 2 then Suspended else if idle > timeout then Dimmed else Active)"

fun power_name :: "power_state \<Rightarrow> string" where
  "power_name Active = ''active''"
| "power_name Dimmed = ''dimmed''"
| "power_name Suspended = ''suspended''"

definition power_status :: "power_state \<Rightarrow> u64 \<Rightarrow> status_msg" where
  "power_status st idle =
     \<lparr>st_method = ''power.status'', st_src = ''powermand'',
      st_payload = JObj [(''state'', JStr (power_name st)), (''idle_seconds'', JNum (uint idle))]\<rparr>"

text \<open>
  One turn of the main loop: \<open>idle\<close> is the time since the start of the loop, as the code never
  moves \<open>last_activity\<close>. The announcements are collected.
\<close>

definition power_tick :: "u64 \<Rightarrow> u64 \<Rightarrow> power_state \<times> status_msg list \<Rightarrow> power_state \<times> status_msg list" where
  "power_tick timeout idle st =
     (let (state, out) = st; new_state = power_state_at timeout idle
      in if new_state \<noteq> state then (new_state, out @ [power_status new_state idle]) else (state, out))"

definition power_loop :: "u64 \<Rightarrow> u64 list \<Rightarrow> power_state \<times> status_msg list" where
  "power_loop timeout idles = fold (power_tick timeout) idles (Active, [])"

text \<open>
  The start: the task that reads the commands does not mention its clone of the client, so the
  clone is dropped when the block ends.
\<close>

definition powermand_start :: "('m, 'v) bus_env \<Rightarrow> chan \<Rightarrow> client option \<Rightarrow> (client \<times> bool) option" where
  "powermand_start env tx conn =
     map_option (\<lambda>(c, listening). (if listening then drop_clone env c else c, listening))
       (daemon_open env ''powermand'' ''power.command.*'' tx conn)"

text \<open>The states in the order in which they are entered.\<close>

fun power_rank :: "power_state \<Rightarrow> nat" where
  "power_rank Active = 0"
| "power_rank Dimmed = 1"
| "power_rank Suspended = 2"

lemma power_rank_inj: "power_rank a = power_rank b \<longleftrightarrow> a = b"
  by (cases a; cases b) simp_all

instantiation power_state :: linorder
begin

definition less_eq_power_state :: "power_state \<Rightarrow> power_state \<Rightarrow> bool" where
  "less_eq_power_state a b \<longleftrightarrow> power_rank a \<le> power_rank b"

definition less_power_state :: "power_state \<Rightarrow> power_state \<Rightarrow> bool" where
  "less_power_state a b \<longleftrightarrow> power_rank a < power_rank b"

instance
  by standard (auto simp: less_eq_power_state_def less_power_state_def power_rank_inj)

end

lemma double_timeout: "timeout < 2 ^ 63 \<Longrightarrow> unat (timeout * 2 :: u64) = unat timeout * 2"
proof -
  assume "timeout < 2 ^ 63"
  then have "unat timeout < 2 ^ 63" by (simp add: word_less_nat_alt)
  then show ?thesis by (simp add: unat_mult_lem [THEN iffD1])
qed

lemma power_state_mono:
  assumes "timeout < 2 ^ 63" "a \<le> b"
  shows "power_state_at timeout a \<le> power_state_at timeout b"
  using assms double_timeout [OF assms(1)]
  by (auto simp: power_state_at_def less_eq_power_state_def word_less_nat_alt word_le_nat_alt)

lemma power_loop_snoc: "power_loop timeout (idles @ [i]) = power_tick timeout i (power_loop timeout idles)"
  by (simp add: power_loop_def)

definition announced_names :: "power_state \<Rightarrow> string list set" where
  "announced_names st =
     (case st of Active \<Rightarrow> {[]} | Dimmed \<Rightarrow> {[''dimmed'']} | Suspended \<Rightarrow> {[''suspended''], [''dimmed'', ''suspended'']})"

definition announced :: "status_msg list \<Rightarrow> string list" where
  "announced sts =
     map (\<lambda>st. case st_payload st of JObj ((k, JStr s) # r) \<Rightarrow> s | _ \<Rightarrow> []) sts"

lemma announced_append: "announced (xs @ [power_status st idle]) = announced xs @ [power_name st]"
  by (simp add: announced_def power_status_def)

lemma power_loop_announces:
  assumes "timeout < 2 ^ 63" "sorted idles"
  shows "announced (snd (power_loop timeout idles)) \<in> announced_names (fst (power_loop timeout idles)) \<and>
    fst (power_loop timeout idles) = (if idles = [] then Active else power_state_at timeout (last idles))"
  using assms(2)
proof (induction idles rule: rev_induct)
  case Nil
  then show ?case by (simp add: power_loop_def announced_def announced_names_def)
next
  case (snoc i idles)
  obtain st out where loop: "power_loop timeout idles = (st, out)" by fastforce
  have IH: "announced out \<in> announced_names st"
    "st = (if idles = [] then Active else power_state_at timeout (last idles))"
    using snoc by (auto simp: loop sorted_append)
  have "last idles \<le> i" if "idles \<noteq> []"
    using snoc.prems that by (simp add: sorted_append)
  then have "st \<le> power_state_at timeout i"
    using power_state_mono [OF assms(1)] IH(2)
    by (simp add: less_eq_power_state_def split: if_splits)
  with IH(1) show ?case
    by (cases st; cases "power_state_at timeout i")
      (auto simp: power_loop_snoc loop power_tick_def announced_append announced_names_def less_eq_power_state_def)
qed

text \<open>
  However the device is used, the power state only moves away from active: with a
  time-out below 2 ^ 63 seconds the announcements of a whole run are a prefix of dimmed, then
  suspended (dimmed may be skipped), and the state is decided by the time since the start alone.
\<close>

lemma power_state_never_returns:
  assumes "timeout < 2 ^ 63" "sorted idles" "idles \<noteq> []"
  shows "announced (snd (power_loop timeout idles)) \<in>
      {[], [''dimmed''], [''suspended''], [''dimmed'', ''suspended'']} \<and>
    fst (power_loop timeout idles) =
      (if uint (last idles) > 2 * uint timeout then Suspended
       else if last idles > timeout then Dimmed else Active)"
proof -
  have "uint (timeout * 2) = 2 * uint timeout"
    using double_timeout [OF assms(1)] by (metis mult.commute of_nat_mult of_nat_numeral uint_nat)
  with power_loop_announces [OF assms(1,2)] assms(3) show ?thesis
    by (cases "fst (power_loop timeout idles)")
      (auto simp: announced_names_def power_state_at_def word_less_def split: if_splits)
qed

text \<open>A time-out of 2 ^ 63 seconds doubles to zero: the device counts as suspended at once.\<close>

lemma power_timeout_wraps: "power_state_at (2 ^ 63) 30 = Suspended"
  by (simp add: power_state_at_def)

lemma power_state_never_returns_witness:
  "fst (power_loop 300 [30, 330, 900]) = Suspended \<and>
   announced (snd (power_loop 300 [30, 330, 900])) \<in>
     {[], [''dimmed''], [''suspended''], [''dimmed'', ''suspended'']}"
  using power_state_never_returns [of 300 "[30, 330, 900]"] by simp

subsection \<open>dispald\<close>

datatype display_effect = WriteBrightness string nat | NightMode bool

text \<open>The backlight directories with the text of their \<open>max_brightness\<close>, if it could be read.\<close>

definition max_brightness :: "string option \<Rightarrow> u32" where
  "max_brightness content =
     (case Option.bind content (\<lambda>s. parse_unsigned 32 (trim s)) of None \<Rightarrow> 255 | Some n \<Rightarrow> of_nat n)"

definition brightness_value :: "u32 \<Rightarrow> u32 \<Rightarrow> u32" where
  "brightness_value level mx = min (mx * level div 100) mx"

definition set_brightness :: "(string \<times> string option) list option \<Rightarrow> u32 \<Rightarrow> display_effect list" where
  "set_brightness backlights level =
     (let level' = min level 100
      in case backlights of
           None \<Rightarrow> []
         | Some es \<Rightarrow>
             map (\<lambda>(path, content).
                    WriteBrightness (path_join path ''brightness'')
                      (unat (brightness_value level' (max_brightness content)))) es)"

definition display_command ::
  "'j json_api \<Rightarrow> (string \<times> string option) list option \<Rightarrow> message \<Rightarrow> display_effect list" where
  "display_command js backlights msg =
     (case j_parse js (msg_params msg) of
        None \<Rightarrow> []
      | Some params \<Rightarrow>
          if msg_method msg = ''display.command.set_brightness'' then
            (case j_u64 js (j_index js params ''level'') of
               None \<Rightarrow> []
             | Some lvl \<Rightarrow> set_brightness backlights (ucast lvl))
          else if msg_method msg = ''display.command.set_night_mode'' then
            (case j_bool js (j_index js params ''enabled'') of None \<Rightarrow> [] | Some b \<Rightarrow> [NightMode b])
          else [])"

definition display_status :: "u32 \<Rightarrow> bool \<Rightarrow> u32 \<times> u32 \<times> u32 \<Rightarrow> status_msg" where
  "display_status brightness night_mode resolution =
     (let (wd, ht, rf) = resolution
      in \<lparr>st_method = ''display.status'', st_src = ''dispald'',
          st_payload = JObj
            [(''brightness'', JNum (uint brightness)), (''night_mode'', JBool night_mode),
             (''resolution'', JObj [(''width'', JNum (uint wd)), (''height'', JNum (uint ht)),
                                    (''refresh'', JNum (uint rf))])]\<rparr>)"

definition dispald_start :: "('m, 'v) bus_env \<Rightarrow> chan \<Rightarrow> client option \<Rightarrow> (client \<times> bool) option" where
  "dispald_start env tx conn =
     map_option (\<lambda>(c, listening).
         (publish_status env (display_status 80 False (1920, 1080, 60))
            (if listening then drop_clone env c else c), listening))
       (daemon_open env ''dispald'' ''display.command.*'' tx conn)"

lemma brightness_value_exact:
  assumes "level \<le> 100" "mx \<le> 42949672"
  shows "unat (brightness_value level mx) = unat mx * unat level div 100"
proof -
  have u: "unat level \<le> 100" "unat mx \<le> 42949672"
    using assms by (simp_all add: word_le_nat_alt)
  then have "unat mx * unat level \<le> 42949672 * 100" by (rule mult_le_mono [rotated])
  then have "unat (mx * level) = unat mx * unat level"
    by (simp add: unat_mult_lem [THEN iffD1])
  then have div: "unat (mx * level div 100) = unat mx * unat level div 100"
    by (simp add: unat_div)
  also have "\<dots> \<le> unat mx" 
    using div_le_mono [OF mult_le_mono2 [OF u(1), of "unat mx"], of 100] by simp
  finally have "mx * level div 100 \<le> mx" by (simp add: word_le_nat_alt)
  with div show ?thesis by (simp add: brightness_value_def min_def)
qed

text \<open>
  A brightness command writes one value per backlight, never above the maximum the
  backlight reports (or 255 if it reports none), and exactly the rounded percentage, with
  levels over 100 taken as 100, as long as the maximum is at most 42949672, so that the 32-bit
  product does not wrap.
\<close>

lemma brightness_is_percentage:
  assumes "set_brightness (Some es) level = effects"
  shows "length effects = length es \<and>
    (\<forall>i < length es. \<exists>v. effects ! i = WriteBrightness (path_join (fst (es ! i)) ''brightness'') v \<and>
       v \<le> unat (max_brightness (snd (es ! i))) \<and>
       (max_brightness (snd (es ! i)) \<le> 42949672 \<longrightarrow>
          v = unat (max_brightness (snd (es ! i))) * min (unat level) 100 div 100))"
proof (intro conjI allI impI)
  show "length effects = length es" using assms by (auto simp: set_brightness_def Let_def)
next
  fix i assume i: "i < length es"
  let ?mx = "max_brightness (snd (es ! i))" and ?l = "min level 100"
  have "effects ! i = WriteBrightness (path_join (fst (es ! i)) ''brightness'') (unat (brightness_value ?l ?mx))"
    using assms i by (auto simp: set_brightness_def Let_def case_prod_beta)
  moreover have "unat (brightness_value ?l ?mx) \<le> unat ?mx"
    by (simp add: brightness_value_def word_le_nat_alt [symmetric])
  moreover have "unat ?l = min (unat level) 100"
    by (simp add: min_def word_le_nat_alt)
  moreover have "?mx \<le> 42949672 \<longrightarrow> unat (brightness_value ?l ?mx) = unat ?mx * unat ?l div 100"
    using brightness_value_exact by simp
  ultimately show "\<exists>v. effects ! i = WriteBrightness (path_join (fst (es ! i)) ''brightness'') v \<and>
       v \<le> unat ?mx \<and> (?mx \<le> 42949672 \<longrightarrow> v = unat ?mx * min (unat level) 100 div 100)"
    by metis
qed

text \<open>Beyond that the product wraps: full brightness on a large scale comes out as nothing.\<close>

lemma brightness_wraps: "brightness_value 64 (2 ^ 26) = 0"
  by (simp add: brightness_value_def)

text \<open>A level is cut to 32 bits before it is compared with 100.\<close>

lemma level_truncated: "(ucast (0x100000005 :: u64) :: u32) = 5"
  by code_simp

lemma brightness_is_percentage_witness:
  "length (set_brightness (Some [(''/sys/class/backlight/b'', None)]) 50) = 1"
  using brightness_is_percentage [OF refl, of "[(''/sys/class/backlight/b'', None)]" 50] by simp

end
