(* ===== verification/Devices.thy ===== *)
theory Devices
  imports Daemon
begin

section \<open>devmand and lumind\<close>

text \<open>
  \<open>crates/devmand/src/main.rs\<close> and \<open>crates/lumind/src/main.rs\<close>: the fixed list of devices with its
  announcement, and what the display daemon finds and chooses at its start.
\<close>

record device =
  dv_devtype :: string
  dv_subsystem :: string
  dv_path :: string
  dv_vendor :: "string option"
  dv_model :: "string option"
  dv_serial :: "string option"
  dv_mounted :: bool
  dv_mount_point :: "string option"

definition mock_devices :: "device list" where
  "mock_devices =
     [\<lparr>dv_devtype = ''storage'', dv_subsystem = ''block'', dv_path = ''/dev/mmcblk0p1'',
       dv_vendor = Some ''Samsung'', dv_model = Some ''eMMC 32GB'', dv_serial = Some ''00000000'',
       dv_mounted = True, dv_mount_point = Some ''/''\<rparr>,
      \<lparr>dv_devtype = ''bluetooth'', dv_subsystem = ''bluetooth'', dv_path = ''/dev/ttyBT0'',
       dv_vendor = Some ''Realtek'', dv_model = Some ''RTL8761B'', dv_serial = None,
       dv_mounted = False, dv_mount_point = None\<rparr>]"

definition device_json :: "device \<Rightarrow> json_lit" where
  "device_json d =
     JObj [(''devtype'', JStr (dv_devtype d)), (''subsystem'', JStr (dv_subsystem d)),
           (''path'', JStr (dv_path d)), (''vendor'', json_opt_str (dv_vendor d)),
           (''model'', json_opt_str (dv_model d)), (''serial'', json_opt_str (dv_serial d)),
           (''mounted'', JBool (dv_mounted d)), (''mount_point'', json_opt_str (dv_mount_point d))]"

definition device_status :: "device list \<Rightarrow> status_msg" where
  "device_status ds =
     \<lparr>st_method = ''device.list'', st_src = ''devmand'',
      st_payload = JObj [(''devices'', JArr (map device_json ds))]\<rparr>"

text \<open>
  The start: the list is announced before the subscription; the task that reads the commands
  does nothing and does not mention its clone of the client, which is dropped with the block.
\<close>

definition devmand_start :: "('m, 'v) bus_env \<Rightarrow> chan \<Rightarrow> client option \<Rightarrow> client option" where
  "devmand_start env tx conn =
     map_option (\<lambda>c.
         (case daemon_subscribe env ''device.command.*'' tx (publish_status env (device_status mock_devices) c) of
            (c', True) \<Rightarrow> drop_clone env c'
          | (c', False) \<Rightarrow> c'))
       (daemon_register env ''devmand'' conn)"

subsection \<open>lumind\<close>

text \<open>Directory entries are paths with their names; \<open>None\<close> is a directory that cannot be read.\<close>

definition find_devices :: "string \<Rightarrow> (string \<times> string) list option \<Rightarrow> string list" where
  "find_devices name_prefix dir =
     (case dir of
        None \<Rightarrow> []
      | Some es \<Rightarrow> List.map_filter (\<lambda>(path, name). if starts_with name name_prefix then Some path else None) es)"

definition find_drm_devices :: "(string \<times> string) list option \<Rightarrow> string list" where
  "find_drm_devices dir = find_devices ''card'' dir"

definition find_input_devices :: "(string \<times> string) list option \<Rightarrow> string list" where
  "find_input_devices dir = find_devices ''event'' dir"

record lumind =
  lm_drm :: "string list"
  lm_input :: "string list"
  lm_url :: string
  lm_platform :: string
  lm_cog :: bool

definition run_linux ::
  "(string \<times> string) list option \<Rightarrow> (string \<times> string) list option \<Rightarrow> (string \<Rightarrow> string option) \<Rightarrow>
   (string \<Rightarrow> bool) \<Rightarrow> lumind" where
  "run_linux dri inp env_var path_exists =
     (let drm = find_drm_devices dri
      in \<lparr>lm_drm = drm, lm_input = find_input_devices inp,
          lm_url = (case env_var ''LUNA_URL'' of
                      None \<Rightarrow> ''file:///usr/share/uos/luna/index.html'' | Some u \<Rightarrow> u),
          lm_platform = (case env_var ''COG_PLATFORM'' of
                      Some p \<Rightarrow> p | None \<Rightarrow> if drm = [] then ''headless'' else ''drm''),
          lm_cog = path_exists ''/usr/bin/cog''\<rparr>)"

text \<open>\<open>main\<close>: what is found before the endless wait, or the end of the stub on other systems.\<close>

definition lumind_main ::
  "bool \<Rightarrow> (string \<times> string) list option \<Rightarrow> (string \<times> string) list option \<Rightarrow> (string \<Rightarrow> string option) \<Rightarrow>
   (string \<Rightarrow> bool) \<Rightarrow> lumind option" where
  "lumind_main linux dri inp env_var path_exists =
     (if linux then Some (run_linux dri inp env_var path_exists) else None)"

lemma platform_headless_iff:
  "env_var ''COG_PLATFORM'' = None \<Longrightarrow>
   lm_platform (run_linux dri inp env_var path_exists) = ''headless'' \<longleftrightarrow>
     (\<forall>p n. (p, n) \<in> set (case dri of None \<Rightarrow> [] | Some es \<Rightarrow> es) \<longrightarrow> \<not> starts_with n ''card'')"
  by (fastforce simp: run_linux_def find_drm_devices_def find_devices_def map_filter_def filter_empty_conv Let_def
      split: option.splits if_splits)

text \<open>
  devmand's announcement comes before its subscription, so the drop of that clone finds nothing
  to unsubscribe; the drop of the unused clone does.
\<close>

lemma devmand_unsubscribes:
  assumes "be_to_json env ''devmand'' = Some b1" "be_to_json env ''device.command.*'' = Some b2"
    and "fair_order (be_ord env)"
    and "daemon_register env ''devmand'' (Some client_connected) = Some c0"
    and "publish_status env (device_status mock_devices) c0 = c1" "cl_open c1" "cl_subscribers c1 = []"
  shows "\<exists>c m. devmand_start env tx (Some client_connected) = Some c \<and>
    last (cl_queue c) = m \<and> msg_method m = ''__stardust.unsubscribe'' \<and> msg_params m = b2"
proof -
  obtain c2 where sub: "daemon_subscribe env ''device.command.*'' tx c1 = (c2, True)"
    and c2: "cl_open c2" "cl_subscribers c2 = [(''device.command.*'', [tx])]"
    using assms(2,6,7) by (simp add: daemon_subscribe_def client_subscribe_def client_send_def)
  have "devmand_start env tx (Some client_connected) = Some (drop_clone env c2)"
    unfolding devmand_start_def assms(4,5) by (simp add: assms(5) sub)
  with drop_clone_one [OF c2 assms(2,3)] show ?thesis by auto
qed

end
