(* ===== verification/Wifid.thy ===== *)
theory Wifid
  imports StardustMessage Commands
begin

section \<open>wifid: loading the WiFi module\<close>

text \<open>
  \<open>crates/wifid/src/main.rs\<close>: finding the kernel release and the chip, loading the module from
  the first place that works, waiting for the interface, announcing it. Files are a record,
  programs run through a runner (\<open>Commands\<close>); \<open>Command::status\<close> and \<open>spawn\<close> are runs whose
  output is not looked at.
\<close>

record wifid_fs =
  wf_read :: "string \<Rightarrow> string option"
  wf_exists :: "string \<Rightarrow> bool"
  wf_sdio :: "string list option"

fun find_sub :: "string \<Rightarrow> string \<Rightarrow> nat option" where
  "find_sub [] p = (if p = [] then Some 0 else None)"
| "find_sub (c # s) p = (if starts_with (c # s) p then Some 0 else map_option Suc (find_sub s p))"

definition nonempty_trim :: "string option \<Rightarrow> string option" where
  "nonempty_trim content =
     (case content of
        None \<Rightarrow> None
      | Some s \<Rightarrow> (let t = trim s in if t = [] then None else Some t))"

definition version_field :: "string \<Rightarrow> string option" where
  "version_field ver =
     (case find_sub ver ''version '' of
        None \<Rightarrow> None
      | Some start \<Rightarrow>
          (let rest = drop (start + 8) ver
           in map_option (\<lambda>e. take e rest) (find_sub rest '' '')))"

definition kernel_release :: "'w runner \<Rightarrow> wifid_fs \<Rightarrow> 'w \<Rightarrow> string \<times> 'w" where
  "kernel_release run fs w =
     (case nonempty_trim (wf_read fs ''/proc/sys/kernel/osrelease'') of
        Some s \<Rightarrow> (s, w)
      | None \<Rightarrow>
          (let (out, w1) = run w ''uname'' [''-r'']
           in case nonempty_trim (map_option (\<lambda>o1. from_utf8_lossy (co_stdout o1)) out) of
                Some s \<Rightarrow> (s, w1)
              | None \<Rightarrow>
                  (case Option.bind (wf_read fs ''/proc/version'') version_field of
                     Some v \<Rightarrow> (v, w1)
                   | None \<Rightarrow> (''unknown'', w1))))"

definition read_or_empty :: "wifid_fs \<Rightarrow> string \<Rightarrow> string" where
  "read_or_empty fs p = (case wf_read fs p of None \<Rightarrow> [] | Some s \<Rightarrow> s)"

definition sdio_chip :: "wifid_fs \<Rightarrow> string \<Rightarrow> (string \<times> string) option" where
  "sdio_chip fs path =
     (let vendor = trim (read_or_empty fs (path_join path ''vendor''))
      in if vendor = ''0x024c'' then
           (let modalias = read_or_empty fs (path_join path ''modalias'')
            in if str_contains modalias ''rtl8723'' then Some (''RTL8723BS'', ''r8723bs.ko'')
               else if str_contains modalias ''rtl8189'' then Some (''RTL8189ES/FS'', ''8189es.ko'')
               else Some (''Realtek SDIO'', ''8189es.ko''))
         else if vendor = ''0x02d0'' then Some (''Broadcom SDIO'', ''brcmfmac.ko'')
         else None)"

fun first_chip :: "wifid_fs \<Rightarrow> string list \<Rightarrow> (string \<times> string) option" where
  "first_chip fs [] = None"
| "first_chip fs (p # ps) = (case sdio_chip fs p of Some c \<Rightarrow> Some c | None \<Rightarrow> first_chip fs ps)"

definition detect_sdio_wifi :: "wifid_fs \<Rightarrow> (string \<times> string) option" where
  "detect_sdio_wifi fs = (case wf_sdio fs of None \<Rightarrow> None | Some ps \<Rightarrow> first_chip fs ps)"

definition insmod :: "'w runner \<Rightarrow> string \<Rightarrow> 'w \<Rightarrow> (string + unit) \<times> 'w" where
  "insmod run path w =
     (case run w ''insmod'' [path] of
        (None, w1) \<Rightarrow> (Inl ''insmod: '', w1)
      | (Some o1, w1) \<Rightarrow>
          (if co_success o1 then (Inr (), w1)
           else if str_contains (co_stderr o1) ''File exists'' \<or> str_contains (co_stderr o1) ''already''
           then (Inr (), w1)
           else (Inl (trim (co_stderr o1)), w1)))"

definition candidates :: "string \<Rightarrow> string \<Rightarrow> string list" where
  "candidates kernel_ver ko_name =
     (let module_base = ''/lib/modules/'' @ kernel_ver
      in [module_base @ ''/extra/'' @ ko_name, module_base @ ''/'' @ ko_name, ''/lib/modules/'' @ ko_name])"

fun try_candidates :: "'w runner \<Rightarrow> wifid_fs \<Rightarrow> string list \<Rightarrow> 'w \<Rightarrow> bool \<times> 'w" where
  "try_candidates run fs [] w = (False, w)"
| "try_candidates run fs (p # ps) w =
     (if wf_exists fs p then
        (case insmod run p w of
           (Inr _, w1) \<Rightarrow> (True, w1)
         | (Inl _, w1) \<Rightarrow> try_candidates run fs ps w1)
      else try_candidates run fs ps w)"

text \<open>\<open>trim_end_matches\<close> removes the suffix as often as it occurs.\<close>

function trim_end_ko :: "string \<Rightarrow> string" where
  "trim_end_ko s =
     (case strip_suffix s ''.ko'' of None \<Rightarrow> s | Some r \<Rightarrow> trim_end_ko r)"
  by pat_completeness auto
termination
  by (relation "measure length") (auto simp: strip_suffix_Some_iff)

declare trim_end_ko.simps [simp del]

definition load_module :: "'w runner \<Rightarrow> wifid_fs \<Rightarrow> string \<Rightarrow> string \<Rightarrow> 'w \<Rightarrow> bool \<times> 'w" where
  "load_module run fs kernel_ver ko_name w =
     (case try_candidates run fs (candidates kernel_ver ko_name) w of
        (True, w1) \<Rightarrow> (True, w1)
      | (False, w1) \<Rightarrow>
          (case run w1 ''modprobe'' [trim_end_ko ko_name] of
             (Some o1, w2) \<Rightarrow> (co_success o1, w2)
           | (None, w2) \<Rightarrow> (False, w2)))"

definition publish_ready :: "'w runner \<Rightarrow> 'w \<Rightarrow> 'w" where
  "publish_ready run w =
     snd (run w ''stardust'' [''pub'', ''network.wifi_ready'',
            ''{'' @ [CHR 0x22] @ ''interface'' @ [CHR 0x22] @ '':'' @ [CHR 0x22] @ ''wlan0'' @ [CHR 0x22] @ '','' @
            [CHR 0x22] @ ''status'' @ [CHR 0x22] @ '':'' @ [CHR 0x22] @ ''ready'' @ [CHR 0x22] @ ''}''])"

text \<open>
  \<open>appears i\<close> says whether the interface is there at the \<open>i\<close>th of the twenty looks, half a
  second apart. The result is the exit code, the number of half seconds waited and the world.
\<close>

definition wait_for_wlan :: "(nat \<Rightarrow> bool) \<Rightarrow> nat" where
  "wait_for_wlan appears = length (takeWhile (\<lambda>i. \<not> appears i) [0..<20])"

definition wifid_main :: "'w runner \<Rightarrow> wifid_fs \<Rightarrow> (nat \<Rightarrow> bool) \<Rightarrow> 'w \<Rightarrow> nat \<times> nat \<times> 'w" where
  "wifid_main run fs appears w =
     (let (kernel_ver, w1) = kernel_release run fs w
      in case detect_sdio_wifi fs of
           None \<Rightarrow> (0, 0, w1)
         | Some (chip_name, ko_name) \<Rightarrow>
             (case load_module run fs kernel_ver ko_name w1 of
                (False, w2) \<Rightarrow> (1, 0, w2)
              | (True, w2) \<Rightarrow> (0, wait_for_wlan appears, publish_ready run w2)))"

subsection \<open>What is run\<close>

lemma insmod_log: "snd (insmod (logging_runner answer) p l) = l @ [(''insmod'', [p])]"
  by (simp add: insmod_def logging_runner_def split: option.splits)

text \<open>
  Only candidates that exist are tried, in order; all but the last one tried have failed, and
  the last one succeeded iff the module counts as loaded.
\<close>

lemma try_candidates_log:
  "\<exists>tried. snd (try_candidates (logging_runner answer) fs ps l) = l @ map (\<lambda>p. (''insmod'', [p])) tried \<and>
     subseq tried (filter (wf_exists fs) ps) \<and>
     (\<not> fst (try_candidates (logging_runner answer) fs ps l) \<longrightarrow> tried = filter (wf_exists fs) ps)"
proof (induction ps arbitrary: l)
  case (Cons p ps)
  show ?case
  proof (cases "wf_exists fs p")
    case True
    show ?thesis
    proof (cases "fst (insmod (logging_runner answer) p l)")
      case (Inl e)
      then have eq: "try_candidates (logging_runner answer) fs (p # ps) l =
          try_candidates (logging_runner answer) fs ps (l @ [(''insmod'', [p])])"
        using True by (simp add: case_prod_beta insmod_log)
      from Cons.IH [of "l @ [(''insmod'', [p])]"] obtain tried where
        "snd (try_candidates (logging_runner answer) fs ps (l @ [(''insmod'', [p])])) =
           (l @ [(''insmod'', [p])]) @ map (\<lambda>p. (''insmod'', [p])) tried"
        "subseq tried (filter (wf_exists fs) ps)"
        "\<not> fst (try_candidates (logging_runner answer) fs ps (l @ [(''insmod'', [p])])) \<longrightarrow>
           tried = filter (wf_exists fs) ps"
        by blast
      with True show ?thesis unfolding eq by (intro exI [of _ "p # tried"]) simp
    next
      case (Inr u)
      with True show ?thesis
        by (intro exI [of _ "[p]"]) (simp add: case_prod_beta insmod_log subseq_singleton_left)
    qed
  qed (use Cons.IH in simp)
qed simp

text \<open>
  A start of wifid that finds a chip ends with code 1 only after every module file
  that exists was tried in order (versioned directory first, the flat one last) and modprobe
  was tried as well; otherwise it ends with code 0 and has announced the interface as ready,
  and this also when the interface never appeared in the ten seconds of waiting.
\<close>

lemma wifid_exit_code:
  assumes "wifid_main (logging_runner answer) fs appears log = (code, waited, log')"
    and "detect_sdio_wifi fs = Some (chip_name, ko_name)"
    and "kernel_release (logging_runner answer) fs log = (ver, log0)"
  shows "(code = 1 \<and> log' = log0 @ map (\<lambda>p. (''insmod'', [p])) (filter (wf_exists fs) (candidates ver ko_name)) @
             [(''modprobe'', [trim_end_ko ko_name])]) \<or>
    (code = 0 \<and> waited \<le> 20 \<and> (\<exists>args. last log' = (''stardust'', ''pub'' # ''network.wifi_ready'' # args)))"
proof -
  let ?run = "logging_runner answer"
  obtain loaded log1 where load: "load_module ?run fs ver ko_name log0 = (loaded, log1)" by fastforce
  have main: "(code, waited, log') =
      (if loaded then (0, wait_for_wlan appears, publish_ready ?run log1) else (1, 0, log1))"
    using assms load by (simp add: wifid_main_def split: bool.splits)
  show ?thesis
  proof (cases loaded)
    case True
    have "wait_for_wlan appears \<le> 20"
      using length_takeWhile_le [of "\<lambda>i. \<not> appears i" "[0..<20]"] by (simp add: wait_for_wlan_def)
    with True main show ?thesis by (simp add: publish_ready_def logging_runner_def)
  next
    case False
    obtain ok log2 where cand: "try_candidates ?run fs (candidates ver ko_name) log0 = (ok, log2)" by fastforce
    with load False have "\<not> ok" by (auto simp: load_module_def)
    with load False cand have "log1 = log2 @ [(''modprobe'', [trim_end_ko ko_name])]"
      by (auto simp: load_module_def logging_runner_def split: option.splits)
    moreover have "log2 = log0 @ map (\<lambda>p. (''insmod'', [p])) (filter (wf_exists fs) (candidates ver ko_name))"
      using try_candidates_log [of answer fs "candidates ver ko_name" log0] cand \<open>\<not> ok\<close> by auto
    ultimately show ?thesis using main False by simp
  qed
qed

definition demo_wifid_fs :: wifid_fs where
  "demo_wifid_fs =
     \<lparr>wf_read = (\<lambda>p. if p = ''/proc/sys/kernel/osrelease'' then Some ''6.6.63'' else
                   if p = ''/d/vendor'' then Some ''0x02d0'' else None),
      wf_exists = (\<lambda>_. False), wf_sdio = Some [''/d'']\<rparr>"

lemma wifid_exit_code_witness:
  "\<exists>log'. wifid_main (logging_runner (\<lambda>_ _ _. None)) demo_wifid_fs (\<lambda>_. False) [] = (1, 0, log') \<and>
     log' = [(''modprobe'', [trim_end_ko ''brcmfmac.ko''])]"
proof -
  have chip: "detect_sdio_wifi demo_wifid_fs = Some (''Broadcom SDIO'', ''brcmfmac.ko'')"
    by code_simp
  have ver: "kernel_release (logging_runner (\<lambda>_ _ _. None)) demo_wifid_fs [] = (''6.6.63'', [])"
    by (simp add: kernel_release_def demo_wifid_fs_def nonempty_trim_def trim_def is_space_def)
  have none: "filter (wf_exists demo_wifid_fs) ps = []" for ps
    by (simp add: demo_wifid_fs_def)
  have "try_candidates (logging_runner (\<lambda>_ _ _. None)) demo_wifid_fs ps [] = (False, [])" for ps
    by (induction ps) (simp_all add: demo_wifid_fs_def)
  then obtain log' where main: "wifid_main (logging_runner (\<lambda>_ _ _. None)) demo_wifid_fs (\<lambda>_. False) [] = (1, 0, log')"
    by (simp add: wifid_main_def ver chip load_module_def logging_runner_def)
  from wifid_exit_code [OF main chip ver] main none show ?thesis by simp
qed

end
