(* ===== verification/Pkgd.thy ===== *)
theory Pkgd
  imports Daemon
begin

section \<open>pkgd: the registry of applications\<close>

text \<open>
  \<open>crates/pkgd/src/registry.rs\<close> and \<open>main.rs\<close>. What the registry does to the disk is a list of
  operations in order; whether one succeeds is a predicate. Reading and writing the registry
  as JSON and fetching a URL are parameters. The hash of a package is computed and dropped.
\<close>

record app_entry =
  ae_id :: string
  ae_name :: string
  ae_version :: string
  ae_app_type :: string
  ae_url :: "string option"
  ae_icon :: "string option"
  ae_permissions :: "string list"

record app_registry =
  ar_apps_dir :: string
  ar_apps :: "(string, app_entry) hashmap"
  ar_registry_file :: string

datatype pkg_op = CreateDirAll string | WriteFile string bytes | RemoveDirAll string

type_synonym apps_api = "(bytes \<Rightarrow> (string, app_entry) hashmap option) \<times> ((string, app_entry) hashmap \<Rightarrow> bytes option)"

definition system_apps :: "app_entry list" where
  "system_apps =
     [\<lparr>ae_id = ''com.uos.luna'', ae_name = ''Home'', ae_version = ''1.0.0'', ae_app_type = ''webapp'',
       ae_url = Some ''http://localhost:8080'', ae_icon = Some ''luna.png'', ae_permissions = [''system'']\<rparr>,
      \<lparr>ae_id = ''com.uos.settings'', ae_name = ''Settings'', ae_version = ''1.0.0'', ae_app_type = ''webapp'',
       ae_url = Some ''http://localhost:8080/settings'', ae_icon = Some ''settings.png'',
       ae_permissions = [''system'', ''network'']\<rparr>]"

text \<open>\<open>save\<close>: errors are ignored, but a registry that cannot be rendered is not written.\<close>

definition registry_save :: "((string, app_entry) hashmap \<Rightarrow> bytes option) \<Rightarrow> app_registry \<Rightarrow> pkg_op list" where
  "registry_save render reg =
     (case path_parent (ar_registry_file reg) of None \<Rightarrow> [] | Some d \<Rightarrow> [CreateDirAll d]) @
     (case render (ar_apps reg) of None \<Rightarrow> [] | Some data \<Rightarrow> [WriteFile (ar_registry_file reg) data])"

definition discover_system_apps ::
  "((string, app_entry) hashmap \<Rightarrow> bytes option) \<Rightarrow> app_registry \<Rightarrow> app_registry \<times> pkg_op list" where
  "discover_system_apps render reg =
     (let reg' = reg\<lparr>ar_apps := fold (\<lambda>app. entry_or_default (ae_id app) app) system_apps (ar_apps reg)\<rparr>
      in (reg', registry_save render reg'))"

text \<open>\<open>stored\<close> is the registry file: absent, unreadable or its bytes.\<close>

definition stored_apps ::
  "(bytes \<Rightarrow> (string, app_entry) hashmap option) \<Rightarrow> bytes option option \<Rightarrow> (string, app_entry) hashmap" where
  "stored_apps parse stored =
     (case stored of
        None \<Rightarrow> []
      | Some content \<Rightarrow>
          (case parse (case content of None \<Rightarrow> [] | Some b \<Rightarrow> b) of None \<Rightarrow> [] | Some m \<Rightarrow> m))"

definition registry_new ::
  "(bytes \<Rightarrow> (string, app_entry) hashmap option) \<Rightarrow> ((string, app_entry) hashmap \<Rightarrow> bytes option) \<Rightarrow>
   string \<Rightarrow> bytes option option \<Rightarrow> app_registry \<times> pkg_op list" where
  "registry_new parse render apps_dir stored =
     discover_system_apps render
       \<lparr>ar_apps_dir = apps_dir, ar_apps = stored_apps parse stored,
        ar_registry_file = path_join apps_dir ''registry.json''\<rparr>"

definition registry_list :: "(string list \<Rightarrow> string list) \<Rightarrow> app_registry \<Rightarrow> app_entry list" where
  "registry_list ord reg = map snd (iter_entries ord (ar_apps reg))"

datatype install_error = CreateFailed | FetchFailed | BundleFailed | ManifestFailed

text \<open>The manifest placeholder, as the literal the code writes; \<open>pretty\<close> renders it.\<close>

definition install_manifest :: "string \<Rightarrow> string \<Rightarrow> json_lit" where
  "install_manifest app_id url =
     JObj [(''id'', JStr app_id), (''name'', JStr app_id), (''version'', JStr ''1.0.0''),
           (''type'', JStr ''webapp''), (''url'', JStr url), (''permissions'', JArr [])]"

definition registry_install ::
  "(pkg_op \<Rightarrow> bool) \<Rightarrow> (string \<Rightarrow> bytes option) \<Rightarrow> (json_lit \<Rightarrow> bytes option) \<Rightarrow> string \<Rightarrow> string \<Rightarrow>
   app_registry \<Rightarrow> (install_error + unit) \<times> pkg_op list" where
  "registry_install fs_ok fetch pretty app_id url reg =
     (let app_dir = path_join (ar_apps_dir reg) app_id; mk = CreateDirAll app_dir
      in if \<not> fs_ok mk then (Inl CreateFailed, [mk])
         else
           (case fetch url of
              None \<Rightarrow> (Inl FetchFailed, [mk])
            | Some response \<Rightarrow>
                (let bundle = WriteFile (path_join app_dir ''bundle.uosp'') response
                 in if \<not> fs_ok bundle then (Inl BundleFailed, [mk, bundle])
                    else
                      (case pretty (install_manifest app_id url) of
                         None \<Rightarrow> (Inl ManifestFailed, [mk, bundle])
                       | Some data \<Rightarrow>
                           (let man = WriteFile (path_join app_dir ''manifest.json'') data
                            in if \<not> fs_ok man then (Inl ManifestFailed, [mk, bundle, man])
                               else (Inr (), [mk, bundle, man]))))))"

definition registry_uninstall :: "(string \<Rightarrow> bool) \<Rightarrow> string \<Rightarrow> app_registry \<Rightarrow> pkg_op list" where
  "registry_uninstall path_exists app_id reg =
     (let app_dir = path_join (ar_apps_dir reg) app_id
      in if path_exists app_dir then [RemoveDirAll app_dir] else [])"

subsection \<open>The daemon\<close>

definition publish_app_list ::
  "('m, 'v) bus_env \<Rightarrow> (app_entry list \<Rightarrow> 'v option) \<Rightarrow> (string list \<Rightarrow> string list) \<Rightarrow> app_registry \<Rightarrow>
   client \<Rightarrow> client" where
  "publish_app_list env apps_value ord reg c =
     (case param (be_api env) ''apps'' (apps_value (registry_list ord reg))
             (with_src ''pkgd'' (message_new (next_uid env c) (be_now env) ''pkg.app_list'')) of
        Inl _ \<Rightarrow> c
      | Inr msg \<Rightarrow> drop_clone env (snd (client_publish msg c)))"

record pkg_world =
  pw_fs_ok :: "pkg_op \<Rightarrow> bool"
  pw_exists :: "string \<Rightarrow> bool"
  pw_fetch :: "string \<Rightarrow> bytes option"
  pw_pretty :: "json_lit \<Rightarrow> bytes option"

definition str_or_empty :: "'j json_api \<Rightarrow> 'j \<Rightarrow> string \<Rightarrow> string" where
  "str_or_empty js v key = (case j_str js (j_index js v key) of None \<Rightarrow> [] | Some s \<Rightarrow> s)"

text \<open>A command: whether the application list is announced, and what is done to the disk.\<close>

definition pkg_command ::
  "'j json_api \<Rightarrow> pkg_world \<Rightarrow> app_registry \<Rightarrow> message \<Rightarrow> bool \<times> pkg_op list" where
  "pkg_command js w reg msg =
     (case j_parse js (msg_params msg) of
        None \<Rightarrow> (False, [])
      | Some params \<Rightarrow>
          if msg_method msg = ''pkg.command.install'' then
            (case registry_install (pw_fs_ok w) (pw_fetch w) (pw_pretty w)
                    (str_or_empty js params ''id'') (str_or_empty js params ''url'') reg of
               (Inr _, ops) \<Rightarrow> (True, ops)
             | (Inl _, ops) \<Rightarrow> (False, ops))
          else if msg_method msg = ''pkg.command.uninstall'' then
            (True, registry_uninstall (pw_exists w) (str_or_empty js params ''id'') reg)
          else if msg_method msg = ''pkg.command.list'' then (True, [])
          else (False, []))"

record pkgd =
  pk_registry :: app_registry
  pk_client :: "client option"
  pk_ops :: "pkg_op list"

definition pkgd_start ::
  "('m, 'v) bus_env \<Rightarrow> (app_entry list \<Rightarrow> 'v option) \<Rightarrow> (string list \<Rightarrow> string list) \<Rightarrow>
   (bytes \<Rightarrow> (string, app_entry) hashmap option) \<Rightarrow> ((string, app_entry) hashmap \<Rightarrow> bytes option) \<Rightarrow>
   string \<Rightarrow> bytes option option \<Rightarrow> chan \<Rightarrow> client option \<Rightarrow> pkgd" where
  "pkgd_start env apps_value ord parse render apps_dir stored tx conn =
     (let (reg, ops) = registry_new parse render apps_dir stored;
          opened = daemon_open env ''pkgd'' ''pkg.command.*'' tx conn
      in \<lparr>pk_registry = reg,
          pk_client = map_option (publish_app_list env apps_value ord reg \<circ> fst) opened,
          pk_ops = ops\<rparr>)"

definition pkgd_step ::
  "('m, 'v) bus_env \<Rightarrow> (app_entry list \<Rightarrow> 'v option) \<Rightarrow> (string list \<Rightarrow> string list) \<Rightarrow> 'j json_api \<Rightarrow>
   pkg_world \<Rightarrow> message \<Rightarrow> pkgd \<Rightarrow> pkgd" where
  "pkgd_step env apps_value ord js w msg d =
     (case pk_client d of
        None \<Rightarrow> d
      | Some c \<Rightarrow>
          (let (announce, ops) = pkg_command js w (pk_registry d) msg
           in d\<lparr>pk_ops := pk_ops d @ ops,
                pk_client := Some (if announce then publish_app_list env apps_value ord (pk_registry d) c else c)\<rparr>))"

subsection \<open>The registry over restarts and commands\<close>

lemma entry_or_default_present [simp]: "map_of m k = Some v \<Longrightarrow> entry_or_default k d m = m"
  by (simp add: entry_or_default_def)

lemma discover_apps:
  "map_of (ar_apps (fst (discover_system_apps render reg))) k =
     (case map_of (ar_apps reg) k of
        Some a \<Rightarrow> Some a
      | None \<Rightarrow> map_of (map (\<lambda>a. (ae_id a, a)) system_apps) k)"
  by (simp add: discover_system_apps_def system_apps_def hashmap_simps Let_def split: option.splits)

lemma registry_new_apps:
  "map_of (ar_apps (fst (registry_new parse render dir stored))) k =
     (case map_of (stored_apps parse stored) k of
        Some a \<Rightarrow> Some a
      | None \<Rightarrow> map_of (map (\<lambda>a. (ae_id a, a)) system_apps) k)"
  unfolding registry_new_def discover_apps by simp

lemma registry_new_ops:
  "registry_new parse render dir stored = (reg, ops) \<Longrightarrow>
   ops = registry_save render reg \<and> ar_apps_dir reg = dir \<and>
   ar_registry_file reg = path_join dir ''registry.json''"
  by (auto simp: registry_new_def discover_system_apps_def Let_def)

text \<open>
  Property C39. A restart reads back what the start before it wrote. After any start the system
  applications are there and an entry of the stored registry wins over the built-in one; and a
  second start on the file the first one wrote ends with the same applications. What is assumed
  of the JSON library is that a rendered registry parses to the same map.
\<close>

theorem registry_restart_idempotent:
  assumes "\<forall>m b. render m = Some b \<longrightarrow> (\<exists>m'. parse b = Some m' \<and> map_of m' = map_of m)"
    and "registry_new parse render dir stored = (reg, ops)"
    and "WriteFile (ar_registry_file reg) b \<in> set ops"
  shows "map_of (ar_apps (fst (registry_new parse render dir (Some (Some b))))) = map_of (ar_apps reg) \<and>
    map_of (ar_apps reg) = map_of (map (\<lambda>a. (ae_id a, a)) system_apps) ++ map_of (stored_apps parse stored)"
proof -
  have apps: "map_of (ar_apps reg) k = (case map_of (stored_apps parse stored) k of Some a \<Rightarrow> Some a
      | None \<Rightarrow> map_of (map (\<lambda>a. (ae_id a, a)) system_apps) k)" for k
    using registry_new_apps [of parse render dir stored k] assms(2) by simp
  have "render (ar_apps reg) = Some b"
    using assms(3) registry_new_ops [OF assms(2)] by (auto simp: registry_save_def split: option.splits)
  with assms(1) obtain m' where "parse b = Some m'" "map_of m' = map_of (ar_apps reg)"
    by blast
  then have "map_of (stored_apps parse (Some (Some b))) = map_of (ar_apps reg)"
    by (simp add: stored_apps_def)
  then have "map_of (ar_apps (fst (registry_new parse render dir (Some (Some b))))) k = map_of (ar_apps reg) k" for k
    by (simp add: registry_new_apps apps split: option.splits)
  with apps show ?thesis by (auto simp: fun_eq_iff map_add_def split: option.splits)
qed

text \<open>No command changes the registry: what is installed never appears, what is removed stays.\<close>

interpretation pkg: framed_machine "\<lambda>(js, w, msg). pkgd_step env apps_value ord js w msg" "\<lambda>d. True" pk_registry
  for env apps_value ord
  by unfold_locales (auto simp: pkgd_step_def case_prod_beta split: option.splits)

lemma commands_keep_registry:
  "pk_registry (fold (\<lambda>(js, w, msg). pkgd_step env apps_value ord js w msg) cmds d) = pk_registry d"
  by (rule pkg.run_view) (rule TrueI)

text \<open>An uninstall command without an identifier removes the directory of all applications.\<close>

lemma uninstall_without_id:
  assumes "j_parse js (msg_params msg) = Some params" "msg_method msg = ''pkg.command.uninstall''"
    and "j_str js (j_index js params ''id'') = None" "ar_apps_dir reg = ''/data/apps''"
    and "pw_exists w ''/data/apps/''"
  shows "pkg_command js w reg msg = (True, [RemoveDirAll ''/data/apps/''])"
  using assms
  by (simp add: pkg_command_def str_or_empty_def registry_uninstall_def path_join_def starts_with_def)

text \<open>An identifier that is an absolute path leaves the directory of the applications.\<close>

lemma uninstall_absolute_id:
  "starts_with app_id ''/'' \<Longrightarrow> path_exists app_id \<Longrightarrow>
   registry_uninstall path_exists app_id reg = [RemoveDirAll app_id]"
  by (simp add: registry_uninstall_def path_join_def)

text \<open>A JSON library that knows one registry, the one with the system applications.\<close>

definition system_registry :: "(string, app_entry) hashmap" where
  "system_registry = map (\<lambda>a. (ae_id a, a)) system_apps"

definition one_render :: "(string, app_entry) hashmap \<Rightarrow> bytes option" where
  "one_render m = (if m = system_registry then Some [1] else None)"

definition one_parse :: "bytes \<Rightarrow> (string, app_entry) hashmap option" where
  "one_parse b = (if b = [1] then Some system_registry else None)"

theorem registry_restart_idempotent_witness:
  "map_of (ar_apps (fst (registry_new one_parse one_render ''/data/apps'' (Some (Some [1]))))) =
   map_of (ar_apps (fst (registry_new one_parse one_render ''/data/apps'' None)))"
proof -
  obtain reg ops where new: "registry_new one_parse one_render ''/data/apps'' None = (reg, ops)"
    by fastforce
  then have "ar_apps reg = system_registry"
    by (auto simp: registry_new_def discover_system_apps_def stored_apps_def system_apps_def
        system_registry_def entry_or_default_def Let_def)
  then have "WriteFile (ar_registry_file reg) [1] \<in> set ops"
    using registry_new_ops [OF new] by (auto simp: registry_save_def one_render_def)
  moreover have "\<forall>m b. one_render m = Some b \<longrightarrow> (\<exists>m'. one_parse b = Some m' \<and> map_of m' = map_of m)"
    by (simp add: one_render_def one_parse_def)
  ultimately have "map_of (ar_apps (fst (registry_new one_parse one_render ''/data/apps'' (Some (Some [1]))))) =
      map_of (ar_apps reg)"
    using registry_restart_idempotent [OF _ new] by blast
  with new show ?thesis by simp
qed

end
