(* ===== verification/CasyncCli.thy ===== *)
theory CasyncCli
  imports CasyncStore
begin

section \<open>The casync-rs command line\<close>

text \<open>
  \<open>crates/casync-rs/src/main.rs\<close>: four commands over files and a chunk store. Files are a map
  from paths to contents; \<open>expect\<close> on an error is a panic. What is printed is data; the floating
  point percentage is left out.
\<close>

datatype cli_command =
    Make string "string option"
  | Extract string string "string option"
  | Diff string string
  | Verify string string

datatype cli_out =
    IndexSaved string u64 nat
  | Reconstructed string nat
  | DeltaStats delta_stats
  | VerificationPassed
  | VerificationFailed casync_error

record casync_world =
  cw_sha :: "bytes \<Rightarrow> chunk_hash"
  cw_hex :: hex_api
  cw_into_cbor :: "caibx_index \<Rightarrow> bytes option"
  cw_from_cbor :: "bytes \<Rightarrow> caibx_index option"
  cw_writable :: "string \<Rightarrow> bool"
  cw_io :: io_world
  cw_open_store :: "string \<Rightarrow> chunk_files option"

type_synonym file_map = "string \<Rightarrow> bytes option"

definition index_save :: "casync_world \<Rightarrow> caibx_index \<Rightarrow> string \<Rightarrow> file_map \<Rightarrow> casync_error + file_map" where
  "index_save w ix path fs =
     (case index_to_bytes (cw_into_cbor w) ix of
        Inl e \<Rightarrow> Inl e
      | Inr b \<Rightarrow> if cw_writable w path then Inr (fs(path \<mapsto> b)) else Inl CasyncIo)"

definition index_load :: "casync_world \<Rightarrow> string \<Rightarrow> file_map \<Rightarrow> casync_error + caibx_index" where
  "index_load w path fs =
     (case fs path of None \<Rightarrow> Inl CasyncIo | Some b \<Rightarrow> index_from_bytes (cw_from_cbor w) b)"

definition unwrap_or_path :: "string option \<Rightarrow> string \<Rightarrow> string" where
  "unwrap_or_path o' d = (case o' of None \<Rightarrow> d | Some p \<Rightarrow> p)"

definition cli_run :: "casync_world \<Rightarrow> cli_command \<Rightarrow> file_map \<Rightarrow> (unit, file_map \<times> cli_out) outcome" where
  "cli_run w cmd fs =
     (case cmd of
        Make input output \<Rightarrow>
          (case index_from_file (cw_sha w) (fs input) of
             Inl _ \<Rightarrow> Panic
           | Inr ix \<Rightarrow>
               (let out = unwrap_or_path output (input @ ''.caibx'')
                in case index_save w ix out fs of
                     Inl _ \<Rightarrow> Panic
                   | Inr fs' \<Rightarrow> Done (fs', IndexSaved out (ix_total_size ix) (length (ix_chunks ix)))))
      | Extract index store output \<Rightarrow>
          (case index_load w index fs of
             Inl _ \<Rightarrow> Panic
           | Inr ix \<Rightarrow>
               (case cw_open_store w store of
                  None \<Rightarrow> Panic
                | Some files \<Rightarrow>
                    (case reconstruct (cw_hex w) (cw_io w) files ix of
                       Inl _ \<Rightarrow> Panic
                     | Inr d \<Rightarrow>
                         (let out = unwrap_or_path output (index @ ''.reconstructed'')
                          in if cw_writable w out then Done (fs(out \<mapsto> d), Reconstructed out (length d))
                             else Panic))))
      | Diff old_index new_index \<Rightarrow>
          (case index_load w old_index fs of
             Inl _ \<Rightarrow> Panic
           | Inr old \<Rightarrow>
               (case index_load w new_index fs of
                  Inl _ \<Rightarrow> Panic
                | Inr new \<Rightarrow> Done (fs, DeltaStats (index_delta_stats old new))))
      | Verify index file \<Rightarrow>
          (case index_load w index fs of
             Inl _ \<Rightarrow> Panic
           | Inr ix \<Rightarrow>
               (case fs file of
                  None \<Rightarrow> Panic
                | Some d \<Rightarrow>
                    (case index_verify (cw_sha w) (cw_hex w) ix d of
                       Done _ \<Rightarrow> Done (fs, VerificationPassed)
                     | Fail e \<Rightarrow> Done (fs, VerificationFailed e)
                     | _ \<Rightarrow> Panic))))"

subsection \<open>Making, verifying, extracting\<close>

definition file_chunks :: "casync_world \<Rightarrow> bytes \<Rightarrow> chunk list" where
  "file_chunks w d = chunk_gear (cw_sha w) d min_chunk_size max_chunk_size (push_bit 16 1 - 1)"

lemma chunk_bytes_new: "chunk_bytes (cw_sha w) chunker_new d = Done (file_chunks w d)"
  by (simp add: chunk_bytes_def chunker_new_def strategy_default_def file_chunks_def)

lemma file_chunks_fit: "length d < 2 ^ 64 \<Longrightarrow> sizes_fit d (file_chunks w d)"
proof -
  assume d: "length d < 2 ^ 64"
  have "length (ck_data c) < 2 ^ 32" if "c \<in> set (file_chunks w d)" for c
  proof -
    have "length (ck_data c) \<le> max_chunk_size"
      using gear_loop_sizes [of 0 0 max_chunk_size d c "cw_sha w" min_chunk_size "push_bit 16 1 - 1" 0] that
      by (simp add: file_chunks_def chunk_gear_def max_chunk_size_def)
    then show ?thesis by (simp add: max_chunk_size_def)
  qed
  with d show ?thesis by (simp add: sizes_fit_def)
qed

lemma make_writes_index:
  assumes "cli_run w (Make input output) fs = Done (fs', IndexSaved out nbytes n)" "fs input = Some d"
  shows "\<exists>b. cw_into_cbor w (from_chunks (file_chunks w d) (of_nat default_chunk_size)) = Some b \<and>
    fs' = fs(out \<mapsto> b)"
  using assms
  by (auto simp: cli_run_def index_from_file_def chunk_bytes_new index_save_def index_to_bytes_def Let_def
      split: sum.splits option.splits if_splits)

lemma index_load_made:
  assumes "length d < 2 ^ 64" "fs' out = Some b"
    and "cw_from_cbor w b = Some (from_chunks (file_chunks w d) target)"
  shows "index_load w out fs' = Inr (from_chunks (file_chunks w d) target)"
proof -
  obtain cut where c: "chunking cut (cw_sha w)" "file_chunks w d = cut d"
    by (rule chunk_bytes_cases [OF chunk_bytes_new])
  have "sorted_by_offset (map entry_of_chunk (file_chunks w d))"
    using chunking.cut_index_sorted [OF c(1) assms(1)] c(2) by simp
  with assms(2,3) show ?thesis
    by (simp add: index_load_def index_from_bytes_def from_chunks_def)
qed

text \<open>
  Property C25. The commands fit together. After \<open>make\<close> on a file, \<open>verify\<close> passes on exactly the
  files that begin with the contents of that file (bytes appended at the end are not noticed),
  and \<open>extract\<close> from a store that holds the file's chunks writes exactly the file. Assumed are a
  file shorter than 2^64 bytes, a CBOR library that reads back what it wrote, and a hash without
  collisions on the chunks; for \<open>extract\<close> also file operations of the store that are never refused
  (\<open>io_free\<close>), hexadecimal text that reads back (\<open>hex_ok\<close>), a store in which every file holds the
  chunk its name says (\<open>store_ok\<close>), and a result path that can be written.
\<close>

theorem make_verify_extract:
  assumes "cli_run w (Make input output) fs = Done (fs', IndexSaved out nbytes n)" "fs input = Some d"
    and "length d < 2 ^ 64"
    and "\<forall>ix b. cw_into_cbor w ix = Some b \<longrightarrow> cw_from_cbor w b = Some ix"
    and "no_collision (cw_sha w) (file_chunks w d)"
  shows "(fs' f = Some d' \<longrightarrow>
      (cli_run w (Verify out f) fs' = Done (fs', VerificationPassed) \<longleftrightarrow> (\<exists>extra. d' = d @ extra))) \<and>
    (cw_open_store w st = Some files \<and> io_free (cw_io w) \<and> hex_ok (cw_hex w) \<and>
       store_ok (cw_sha w) (cw_hex w) files \<and>
       (\<forall>c \<in> set (file_chunks w d). has_chunk (cw_hex w) (ck_hash c) files) \<and> cw_writable w res \<longrightarrow>
     cli_run w (Extract out st (Some res)) fs' = Done (fs'(res \<mapsto> d), Reconstructed res (length d)))"
proof -
  let ?ix = "from_chunks (file_chunks w d) (of_nat default_chunk_size)"
  obtain b where "cw_into_cbor w ?ix = Some b" and fs': "fs' = fs(out \<mapsto> b)"
    using make_writes_index [OF assms(1,2)] by blast
  with assms(4) have load: "index_load w out fs' = Inr ?ix"
    by (intro index_load_made [OF assms(3)]) auto
  have verify: "index_verify (cw_sha w) (cw_hex w) ?ix d' = Done () \<longleftrightarrow> (\<exists>extra. d' = d @ extra)"
    by (rule verify_accepts_extensions [OF chunk_bytes_new file_chunks_fit [OF assms(3)] assms(5)])
  have "cli_run w (Verify out f) fs' = Done (fs', VerificationPassed) \<longleftrightarrow> (\<exists>extra. d' = d @ extra)"
    if "fs' f = Some d'"
    unfolding verify [symmetric] using that
    by (cases "index_verify (cw_sha w) (cw_hex w) ?ix d'") (simp_all add: cli_run_def load)
  moreover have "cli_run w (Extract out st (Some res)) fs' = Done (fs'(res \<mapsto> d), Reconstructed res (length d))"
    if a: "cw_open_store w st = Some files" "io_free (cw_io w)" "hex_ok (cw_hex w)"
      "store_ok (cw_sha w) (cw_hex w) files" "\<forall>c \<in> set (file_chunks w d). has_chunk (cw_hex w) (ck_hash c) files"
      "cw_writable w res"
  proof -
    have "reconstruct (cw_hex w) (cw_io w) files ?ix = Inr d"
      using reconstruct_entries_ok [OF a(2,3,4) assms(5), of "[]"] a(5)
        chunk_bytes_facts [OF chunk_bytes_new [of w d]]
      by (simp add: reconstruct_def from_chunks_def)
    with a(1,6) show ?thesis by (simp add: cli_run_def load unwrap_or_path_def)
  qed
  ultimately show ?thesis by blast
qed

text \<open>No command fills a store: \<open>make\<close> writes the index only.\<close>

lemma make_writes_one_file:
  assumes "cli_run w (Make input output) fs = Done (fs', IndexSaved out nbytes n)" "fs input = Some d"
  shows "dom fs' \<subseteq> insert out (dom fs)"
  using make_writes_index [OF assms] by auto

text \<open>A store that holds the chunks of one file, and a world with that store behind one path.\<close>

definition filled_store :: "chunk list \<Rightarrow> chunk_files" where
  "filled_store cs = map (\<lambda>c. (chunk_path_of letters_api (ck_data c), ck_data c)) cs"

lemma filled_store_ok: "store_ok id letters_api (filled_store cs)"
  by (auto simp: store_ok_def filled_store_def dest!: map_of_SomeD)

lemma filled_store_has: "c \<in> set cs \<Longrightarrow> has_chunk letters_api (ck_data c) (filled_store cs)"
  by (force simp: has_chunk_def filled_store_def map_of_eq_None_iff)

definition demo_world :: "bytes \<Rightarrow> casync_world" where
  "demo_world d =
     (let cs = chunk_gear id d min_chunk_size max_chunk_size (push_bit 16 1 - 1);
          ix = from_chunks cs (of_nat default_chunk_size)
      in \<lparr>cw_sha = id, cw_hex = letters_api, cw_into_cbor = (\<lambda>i. if i = ix then Some [7] else None),
          cw_from_cbor = (\<lambda>b. if b = [7] then Some ix else None), cw_writable = \<lambda>_. True, cw_io = free_io,
          cw_open_store = \<lambda>p. if p = ''store'' then Some (filled_store cs) else None\<rparr>)"

theorem make_verify_extract_witness:
  "let w = demo_world [1, 2, 3]
   in \<exists>fs' nbytes n. cli_run w (Make ''a'' None) [''a'' \<mapsto> [1, 2, 3]] = Done (fs', IndexSaved ''a.caibx'' nbytes n) \<and>
        cli_run w (Verify ''a.caibx'' ''a'') fs' = Done (fs', VerificationPassed) \<and>
        cli_run w (Extract ''a.caibx'' ''store'' (Some ''r'')) fs' =
          Done (fs'(''r'' \<mapsto> [1, 2, 3]), Reconstructed ''r'' 3)"
proof -
  let ?w = "demo_world [1, 2, 3]" and ?fs = "[''a'' \<mapsto> [1, 2, 3]] :: file_map"
  let ?cs = "file_chunks ?w [1, 2, 3]"
  let ?ix = "from_chunks ?cs (of_nat default_chunk_size)"
  let ?files = "filled_store ?cs"
  have sha: "cw_sha ?w = id" by (simp add: demo_world_def Let_def)
  then have into: "cw_into_cbor ?w = (\<lambda>i. if i = ?ix then Some [7] else None)"
    and from_b: "cw_from_cbor ?w = (\<lambda>b. if b = [7] then Some ?ix else None)"
    and st: "cw_open_store ?w ''store'' = Some ?files"
    by (simp_all add: demo_world_def Let_def file_chunks_def cong: if_cong)
  have w: "cw_hex ?w = letters_api" "io_free (cw_io ?w)" "cw_writable ?w ''r''"
    by (simp_all add: demo_world_def Let_def io_free_def free_io_def)
  have make: "cli_run ?w (Make ''a'' None) ?fs = Done (?fs(''a.caibx'' \<mapsto> [7]),
      IndexSaved ''a.caibx'' (ix_total_size ?ix) (length (ix_chunks ?ix)))"
    by (simp add: cli_run_def index_from_file_def chunk_bytes_new index_save_def index_to_bytes_def into
        unwrap_or_path_def Let_def) (simp add: demo_world_def Let_def)
  have collide: "no_collision (cw_sha ?w) ?cs"
    by (simp add: sha no_collision_def)
  have cbor: "\<forall>ix b. cw_into_cbor ?w ix = Some b \<longrightarrow> cw_from_cbor ?w b = Some ix"
    by (simp add: into from_b)
  have chunks: "\<forall>c \<in> set ?cs. has_chunk (cw_hex ?w) (ck_hash c) ?files"
    using chunk_bytes_facts(2) [OF chunk_bytes_new [of ?w "[1, 2, 3]"]] filled_store_has
    by (simp add: sha w)
  have a: "?fs ''a'' = Some [1, 2, 3]" "length [1 :: u8, 2, 3] < 2 ^ 64" by simp_all
  note both = make_verify_extract [OF make a cbor collide, where d' = "[1, 2, 3]" and f = "''a''"
      and st = "''store''" and files = ?files and res = "''r''"]
  have "cli_run ?w (Verify ''a.caibx'' ''a'') (?fs(''a.caibx'' \<mapsto> [7])) =
      Done (?fs(''a.caibx'' \<mapsto> [7]), VerificationPassed)"
    using both [THEN conjunct1] by simp
  moreover have "cli_run ?w (Extract ''a.caibx'' ''store'' (Some ''r'')) (?fs(''a.caibx'' \<mapsto> [7])) =
      Done (?fs(''a.caibx'' \<mapsto> [7], ''r'' \<mapsto> [1, 2, 3]), Reconstructed ''r'' 3)"
    using both [THEN conjunct2] chunks w st letters_ok filled_store_ok by (simp add: sha)
  ultimately show ?thesis using make unfolding Let_def by blast
qed

end
