(* ===== verification/Spec2Isabelle.thy ===== *)
theory Spec2Isabelle
  imports StardustMain StardustSilence StardustRoutes StardustUi MonitordMonitor CasyncStore UpdateVerify OtadPipeline Inis Audiod Inputd Netmd Lunad Logd Notifd
    PowerDisplay Devices Wifid Pkgd CasyncCli
begin

text \<open>
  \<^bold>\<open>UOS TV: a model of its system services\<close>

  UOS TV is a television operating system. Its services are Rust programs under \<open>crates/\<close>. The
  kernel starts \<open>inis\<close> (PID 1), which mounts, hardens the root and keeps \<open>monitord\<close> alive;
  \<open>monitord\<close> reads service manifests, orders them by their dependencies, starts them and
  watches them; the services talk over the message bus of \<open>stardust\<close>; \<open>otad\<close> updates the system
  with \<open>update-verify\<close>, \<open>rauc-rs\<close> and \<open>casync-rs\<close>; the remaining daemons each look after one
  part of the device. This development models all of them. It shows what the code does, which
  is not always what its comments promise: where the two differ, a lemma states the
  difference.

  \<^bold>\<open>Theories and sources\<close>

  \<^item> \<open>Prelude\<close>: machine integers, strings, numbers in text, hash maps with an unspecified order
    of iteration, the outcome type for errors and panics, and the shared interfaces: \<open>machine\<close>
    (steps that keep an invariant), \<open>framed_machine\<close> (and leave a part alone), \<open>keyed_store\<close>.
    \<open>Commands\<close>: external programs as runners of a world.
  \<^item> \<open>StardustMessage\<close> (\<open>stardust/src/message.rs\<close>, \<open>codec.rs\<close>, \<open>error.rs\<close>): messages, topics, frames.
    A stream of encoded messages decodes to the messages.
  \<^item> \<open>StardustBroker\<close> (\<open>broker.rs\<close>): the command handler on its four maps. It implements an
    abstract broker of sets, and every message reaches exactly the connections it is owed to.
  \<^item> \<open>StardustBus\<close> (\<open>broker.rs\<close>): accept loop, connections, bridge and handler as a step relation;
    in its reachable states no connection that has left is referred to. \<open>StardustMain\<close>
    (\<open>main.rs\<close>): the start of the daemon.
  \<^item> \<open>StardustSystem\<close>, \<open>StardustSilence\<close>, \<open>StardustDelivery\<close>, \<open>StardustRoutes\<close> (\<open>client.rs\<close>,
    \<open>codec.rs\<close>, \<open>broker.rs\<close>): programs with the client library, the bytes on the wire and the bus as
    one step relation. Messages arrive at the broker in the order they were queued, and what a
    service publishes can reach every channel that is subscribed; nothing ever arrives at a client,
    because the library quotes names and topics and the broker does not. \<open>StardustRoutes\<close> says how
    many copies of one routed message a channel is owed, in the state the broker is in then.
  \<^item> \<open>StardustUi\<close> (\<open>ws.rs\<close>): the server of the bridge, and one WebSocket connection with its tasks as
    a step relation on top of \<open>StardustSystem\<close>. What a service publishes can reach the screen, and
    a channel of the screen holds exactly the owed copies of the messages routed since it was made,
    in the order in which they were published: nothing on the way is invented, lost or overtaken.
  \<^item> \<open>StardustClient\<close> (\<open>client.rs\<close>), \<open>StardustWs\<close> (\<open>ws.rs\<close>), \<open>Daemon\<close> (what the daemons share): the
    client library, the bridge, opening and announcing; how client and broker fit together.
  \<^item> \<open>MonitordManifest\<close> (\<open>monitord/src/manifest.rs\<close>), \<open>MonitordGraph\<close> (\<open>graph.rs\<close>), \<open>MonitordSec\<close>
    (\<open>sec.rs\<close>): manifests, the graph with its cycle check and order, capability bounds. The order
    contains every service once, after its dependencies; the graph is refused exactly for an
    unknown dependency or a cycle, and the errors are true.
  \<^item> \<open>MonitordSupervisor\<close>, \<open>MonitordMonitor\<close> (\<open>supervisor.rs\<close>, \<open>main.rs\<close>): start, boot, crash window,
    monitoring, health, shutdown. Services run only after their dependencies; startup always
    ends, within a bound that the manifests give. The starts of a service, counted in the
    supervisor's own history of actions while its main loop runs (with \<open>Idle\<close> for time that
    passes between its events), are bounded in every crash window, unless its health check fails:
    those restarts the code does not count. The locks of the concurrent map decide whether a round
    ends.
  \<^item> \<open>CasyncChunker\<close>, \<open>CasyncStore\<close>, \<open>CasyncCli\<close> (\<open>casync-rs/src\<close>): chunkers behind the locale
    \<open>chunking\<close>, index, store, command line. Chunks partition the data, cuts resynchronise after
    an edit, a delta update rebuilds the file, cleanup keeps what is referenced, and make,
    verify and extract fit together.
  \<^item> \<open>UpdateVerify\<close>, \<open>Rauc\<close>, \<open>OtadDownloader\<close>, \<open>OtadOrch\<close>, \<open>OtadPipeline\<close> (\<open>update-verify\<close>, \<open>rauc-rs\<close>, \<open>otad\<close>): signed
    bundles, the slot client, downloads with resume, the update state machine. One locale,
    \<open>orch_invariant\<close>, carries every invariant of the polling loop; its interpretations give
    that only a verified bundle is installed and that the changes of state form a path of the
    state machine as the code has it, which is compared with the documented one edge by edge.
    A file of the downloader has the bytes on disk and pending ones: an append is not flushed, so
    the file is hashed, and may be installed, while bytes are still to come (\<open>append_file\<close>,
    \<open>settle\<close>). \<open>verify_bundle\<close> accepts exactly what the declarative \<open>acceptable\<close> describes, with
    \<open>older\<close> for versions and the wrapped sum for the age. \<open>OtadPipeline\<close> follows one check through
    all of them: what is installed is what was offered, up to what is said there about bytes that
    land late.
  \<^item> \<open>Inis\<close> (\<open>inis/src/main.rs\<close>): the history of PID 1, with the bound on the starts of monitord and what
    the ignored signals mean for noticing its death.
  \<^item> \<open>Audiod\<close>, \<open>Inputd\<close>, \<open>NetmdWifi\<close>, \<open>Netmd\<close>, \<open>Lunad\<close>, \<open>Logd\<close>, \<open>Notifd\<close>, \<open>PowerDisplay\<close> (\<open>powermand\<close>,
    \<open>dispald\<close>), \<open>Devices\<close> (\<open>devmand\<close>, \<open>lumind\<close>), \<open>Wifid\<close>, \<open>Pkgd\<close>: one daemon each, its state as a
    record, its commands as functions, its invariant kept by every sequence of events. In
    \<open>Audiod\<close> the answers of ALSA to every setting are part of the event, as the code ignores them.

  \<^bold>\<open>Conventions\<close>

  \<open>Result\<close> is a sum with the error on the left; code that can also panic, block or run out of a
  bound has an outcome type of its own. \<open>u8\<close> to \<open>u64\<close> are words and wrap as in a release build,
  where their width can matter; \<open>usize\<close> is a natural number. A \<open>String\<close> is the list of its
  UTF-8 bytes; white space is the ASCII white space. A \<open>HashMap\<close> is an association list, and
  every iteration over one takes its order as an argument, about which only \<open>fair_order\<close> is
  assumed. Third-party code is a parameter: JSON, YAML and CBOR, SHA-256 and Ed25519, hex, HTTP,
  evdev, the file system, processes and the clock. What a theorem needs of one of them is a named
  hypothesis (\<open>cbor_roundtrip\<close>, \<open>cbor_ok\<close>, \<open>json_object_ok\<close>, \<open>json_quotes\<close>, \<open>hex_ok\<close>,
  \<open>no_collision\<close>, \<open>store_ok\<close>, \<open>io_free\<close>, \<open>fair_order\<close>, \<open>check_passes\<close>), and a concrete instance shows that it can hold. Identifiers and times
  of new messages are arguments. Log output is left out.

  \<^bold>\<open>Bounds\<close>

  The endless loops (inis, the daemons) are run for a list of events or a number of iterations,
  and the theorems hold for every list and number. In \<open>MonitordGraph\<close> the depth-first
  search and the loop over the queue carry fuel, the number of services, which the theorems
  about them show to suffice. The theorems about the bus hold for the first hundred thousand
  connections and direct subscriptions (\<open>bus_young\<close>): beyond that the code gives connections the
  ids of direct subscriptions. No theorem about another component depends on a bound.

  \<^bold>\<open>Not modelled\<close>

  The WebSocket protocol, command line parsing by crate clap, console messages, the set-up of the
  log output, two floating point percentages, the placeholder programs of \<open>update-verify\<close> and
  \<open>rauc-rs\<close>, the tests, the Luna web page and the shell scripts. In the daemons a task that only
  forwards from one channel to another is the identity, and the tasks they spawn to publish are
  taken in the order of their creation; nothing in the runtime guarantees that order, so what a
  history of announcements says of their order holds for the calls, not for their arrival on the
  bus. A background write of the downloader is over, with all, some or none of its bytes on disk,
  when the next download looks at the file.
\<close>

end
